(* ===== verification/Ssh_Prelude.thy ===== *)
theory Ssh_Prelude
  imports Main "HOL-Library.Word"
begin

text \<open>
  Shared vocabulary of the development: machine integers and byte strings, the crate's error
  type (\<^verbatim>\<open>crates/ssh-transport/src/error.rs\<close>), Rust's \<^verbatim>\<open>Result\<close> with a third outcome for
  a panic or a loop that does not end, the sequencing combinators that stand for the
  \<^verbatim>\<open>?\<close> operator, and what the code uses of the standard library: big-endian conversions,
  saturating addition, UTF-8 validation, \<^verbatim>\<open>str::split\<close>.

  Conventions. \<^verbatim>\<open>u8\<close>, \<^verbatim>\<open>u16\<close>, \<^verbatim>\<open>u32\<close>, \<^verbatim>\<open>u64\<close> are words of that width, so \<open>+\<close> wraps as a
  release build does; \<^verbatim>\<open>usize\<close> is \<^typ>\<open>nat\<close> (a 64-bit target, the checked additions written
  out). A byte slice, a \<^verbatim>\<open>Vec<u8>\<close> and a \<^verbatim>\<open>str\<close> are lists of bytes; a \<^verbatim>\<open>str\<close> is one for
  which \<open>utf8_ok\<close> holds. Memory scrubbing (\<^verbatim>\<open>Zeroizing\<close>, \<^verbatim>\<open>SecretBox\<close>) and buffer
  capacities have no observable result and are not represented.
\<close>

unbundle bit_operations_syntax

type_synonym byte = "8 word"
type_synonym bytes = "8 word list"
type_synonym u16 = "16 word"
type_synonym u32 = "32 word"
type_synonym u64 = "64 word"

text \<open>Collections the component proofs draw on: rules that show a state operation keeps an
  invariant, and unfolding rules of the wire codecs.\<close>

named_theorems keep_intros \<open>the state left satisfies an invariant\<close>
named_theorems hold_intros \<open>the state left satisfies an invariant and nothing panicked\<close>
named_theorems codec \<open>reading back what a writer produced\<close>

section \<open>Errors and results\<close>

datatype ssh_error =
    BadVersion string
  | BadPacket string
  | Encoding string
  | NoCommonAlgorithm string
  | Kex string
  | Key string
  | Compression string
  | Integrity
  | Protocol string
  | AuthFailed

text \<open>\<open>Crash\<close> is a Rust panic (an \<^verbatim>\<open>unwrap\<close>, \<^verbatim>\<open>expect\<close> or slice out of range) or a loop that
  never returns: the theorems that rule it out are part of the development.\<close>

datatype 'a result = Ok 'a | Err ssh_error | Crash string

definition rbind :: "'a result \<Rightarrow> ('a \<Rightarrow> 'b result) \<Rightarrow> 'b result" where
  "rbind r k = (case r of Ok x \<Rightarrow> k x | Err e \<Rightarrow> Err e | Crash m \<Rightarrow> Crash m)"

definition ok_or :: "'a option \<Rightarrow> ssh_error \<Rightarrow> 'a result" where
  "ok_or v e = (case v of None \<Rightarrow> Err e | Some x \<Rightarrow> Ok x)"

definition unwrap :: "'a option \<Rightarrow> 'a result" where
  "unwrap v = (case v of None \<Rightarrow> Crash ''unwrap on None'' | Some x \<Rightarrow> Ok x)"

definition is_ok :: "'a result \<Rightarrow> bool" where
  "is_ok r = (case r of Ok _ \<Rightarrow> True | _ \<Rightarrow> False)"

definition crashed :: "'a result \<Rightarrow> bool" where
  "crashed r = (case r of Crash _ \<Rightarrow> True | _ \<Rightarrow> False)"

text \<open>A \<^verbatim>\<open>&mut self\<close> method that returns a \<^verbatim>\<open>Result\<close> gives its result and the state it left,
  also on an error: what was mutated before the \<^verbatim>\<open>?\<close> stays mutated.\<close>

type_synonym ('s, 'a) outcome = "'a result \<times> 's"

definition andThen :: "('s, 'a) outcome \<Rightarrow> ('a \<Rightarrow> 's \<Rightarrow> ('s, 'b) outcome) \<Rightarrow> ('s, 'b) outcome" where
  "andThen m k = (case m of
      (Ok x, s) \<Rightarrow> k x s
    | (Err e, s) \<Rightarrow> (Err e, s)
    | (Crash p, s) \<Rightarrow> (Crash p, s))"

text \<open>The same for a call that does not touch the state \<open>s\<close>.\<close>

definition onOk :: "'a result \<Rightarrow> 's \<Rightarrow> ('a \<Rightarrow> ('s, 'b) outcome) \<Rightarrow> ('s, 'b) outcome" where
  "onOk r s k = (case r of Ok x \<Rightarrow> k x | Err e \<Rightarrow> (Err e, s) | Crash m \<Rightarrow> (Crash m, s))"

section \<open>Byte strings, big-endian integers\<close>

definition str :: "string \<Rightarrow> bytes" where
  "str s = map of_char s"

fun be_bytes :: "nat \<Rightarrow> nat \<Rightarrow> bytes" where
  "be_bytes 0 x = []"
| "be_bytes (Suc n) x = be_bytes n (x div 256) @ [of_nat x]"

definition be_val :: "bytes \<Rightarrow> nat" where
  "be_val bs = foldl (\<lambda>acc b. acc * 256 + unat b) 0 bs"

definition u32_be :: "u32 \<Rightarrow> bytes" where
  "u32_be v = be_bytes 4 (unat v)"

definition u64_be :: "u64 \<Rightarrow> bytes" where
  "u64_be v = be_bytes 8 (unat v)"

definition sat_add :: "'a::len word \<Rightarrow> 'a word \<Rightarrow> 'a word" where
  "sat_add a b = (if unat a + unat b < 2 ^ LENGTH('a) then a + b else - 1)"

text \<open>\<^verbatim>\<open>position\<close>: the index of the first element that satisfies a predicate.\<close>

fun position :: "('a \<Rightarrow> bool) \<Rightarrow> 'a list \<Rightarrow> nat option" where
  "position p [] = None"
| "position p (x # xs) = (if p x then Some 0 else map_option Suc (position p xs))"

text \<open>\<^verbatim>\<open>split(sep)\<close> and joining with the separator.\<close>

fun split_on :: "'a \<Rightarrow> 'a list \<Rightarrow> 'a list list" where
  "split_on c [] = [[]]"
| "split_on c (x # xs) =
     (if x = c then [] # split_on c xs
      else (case split_on c xs of [] \<Rightarrow> [[x]] | y # ys \<Rightarrow> (x # y) # ys))"

fun join_with :: "'a \<Rightarrow> 'a list list \<Rightarrow> 'a list" where
  "join_with c [] = []"
| "join_with c [x] = x"
| "join_with c (x # y # zs) = x @ c # join_with c (y # zs)"

text \<open>\<^verbatim>\<open>core::str::from_utf8\<close>: well-formed UTF-8 (Unicode table 3-7), which rules out overlong
  forms, surrogates and code points past \<open>U+10FFFF\<close>.\<close>

definition utf8_cont :: "byte \<Rightarrow> bool" where
  "utf8_cont b = (0x80 \<le> b \<and> b \<le> 0xBF)"

fun utf8_ok :: "bytes \<Rightarrow> bool" where
  "utf8_ok [] = True"
| "utf8_ok (a # bs) =
     (if a < 0x80 then utf8_ok bs
      else if 0xC2 \<le> a \<and> a \<le> 0xDF then
        (case bs of b # r \<Rightarrow> utf8_cont b \<and> utf8_ok r | _ \<Rightarrow> False)
      else if 0xE0 \<le> a \<and> a \<le> 0xEF then
        (case bs of
           b # c # r \<Rightarrow>
             (if a = 0xE0 then 0xA0 \<le> b \<and> b \<le> 0xBF
              else if a = 0xED then 0x80 \<le> b \<and> b \<le> 0x9F
              else utf8_cont b) \<and> utf8_cont c \<and> utf8_ok r
         | _ \<Rightarrow> False)
      else if 0xF0 \<le> a \<and> a \<le> 0xF4 then
        (case bs of
           b # c # d # r \<Rightarrow>
             (if a = 0xF0 then 0x90 \<le> b \<and> b \<le> 0xBF
              else if a = 0xF4 then 0x80 \<le> b \<and> b \<le> 0x8F
              else utf8_cont b) \<and> utf8_cont c \<and> utf8_cont d \<and> utf8_ok r
         | _ \<Rightarrow> False)
      else False)"

section \<open>Lemmas on results\<close>

lemma rbind_simps [simp]:
  "rbind (Ok x) k = k x"
  "rbind (Err e) k = Err e"
  "rbind (Crash m) k = Crash m"
  by (simp_all add: rbind_def)

lemma rbind_Ok_iff: "rbind r k = Ok y \<longleftrightarrow> (\<exists>x. r = Ok x \<and> k x = Ok y)"
  by (cases r) simp_all

lemma andThen_simps [simp]:
  "andThen (Ok x, s) k = k x s"
  "andThen (Err e, s) k = (Err e, s)"
  "andThen (Crash p, s) k = (Crash p, s)"
  by (simp_all add: andThen_def)

lemma onOk_simps [simp]:
  "onOk (Ok x) s k = k x"
  "onOk (Err e) s k = (Err e, s)"
  "onOk (Crash m) s k = (Crash m, s)"
  by (simp_all add: onOk_def)

lemma crashed_simps [simp]:
  "\<not> crashed (Ok x)" "\<not> crashed (Err e)" "crashed (Crash m)"
  by (simp_all add: crashed_def)

lemma is_ok_simps [simp]:
  "is_ok (Ok x)" "\<not> is_ok (Err e)" "\<not> is_ok (Crash m)"
  by (simp_all add: is_ok_def)

lemma ok_or_simps [simp]: "ok_or None e = Err e" "ok_or (Some x) e = Ok x"
  by (simp_all add: ok_or_def)

lemma unwrap_simps [simp]: "unwrap None = Crash ''unwrap on None''" "unwrap (Some x) = Ok x"
  by (simp_all add: unwrap_def)

lemma not_crashed_ok_or [simp]: "\<not> crashed (ok_or v e)"
  by (cases v) simp_all

lemma crashed_rbind: "crashed (rbind r k) \<longleftrightarrow> crashed r \<or> (\<exists>x. r = Ok x \<and> crashed (k x))"
  by (cases r) simp_all

lemma crashed_onOk:
  "crashed (fst (onOk r s k)) \<longleftrightarrow> crashed r \<or> (\<exists>x. r = Ok x \<and> crashed (fst (k x)))"
  by (cases r) simp_all

lemma crashed_andThen:
  "crashed (fst (andThen m k)) \<longleftrightarrow> crashed (fst m) \<or> (\<exists>x s. m = (Ok x, s) \<and> crashed (fst (k x s)))"
  by (cases m; cases "fst m") auto

text \<open>
  Two judgements on an outcome, with one rule for each way a method is put together: the state it
  leaves satisfies \<open>I\<close>, whatever it returns; and in addition it did not panic. Method proofs unfold a
  definition, apply the rules and are left with the elementary updates.
\<close>

definition keeps :: "('s \<Rightarrow> bool) \<Rightarrow> ('s, 'a) outcome \<Rightarrow> bool" where
  "keeps I m \<longleftrightarrow> I (snd m)"

definition holds :: "('s \<Rightarrow> bool) \<Rightarrow> ('s, 'a) outcome \<Rightarrow> bool" where
  "holds I m \<longleftrightarrow> \<not> crashed (fst m) \<and> I (snd m)"

lemma keeps_return [keep_intros]: "I s \<Longrightarrow> keeps I (r, s)"
  by (simp add: keeps_def)

lemma keeps_andThen [keep_intros]:
  assumes "keeps I m" and "\<And>x s. m = (Ok x, s) \<Longrightarrow> I s \<Longrightarrow> keeps I (k x s)"
  shows "keeps I (andThen m k)"
  using assms by (cases m; cases "fst m") (auto simp: keeps_def)

lemma keeps_onOk [keep_intros]:
  assumes "I s" and "\<And>x. r = Ok x \<Longrightarrow> keeps I (k x)"
  shows "keeps I (onOk r s k)"
  using assms by (cases r) (auto simp: keeps_def)

lemma keeps_if [keep_intros]:
  "(b \<Longrightarrow> keeps I x) \<Longrightarrow> (\<not> b \<Longrightarrow> keeps I y) \<Longrightarrow> keeps I (if b then x else y)"
  by simp

lemma keeps_case_option [keep_intros]:
  "(v = None \<Longrightarrow> keeps I x) \<Longrightarrow> (\<And>y. v = Some y \<Longrightarrow> keeps I (f y))
    \<Longrightarrow> keeps I (case v of None \<Rightarrow> x | Some y \<Rightarrow> f y)"
  by (cases v) simp_all

lemma keeps_case_prod [keep_intros]:
  "(\<And>a b. v = (a, b) \<Longrightarrow> keeps I (f a b)) \<Longrightarrow> keeps I (case v of (a, b) \<Rightarrow> f a b)"
  by (cases v) simp

lemma keeps_Let [keep_intros]: "keeps I (f v) \<Longrightarrow> keeps I (Let v f)"
  by simp

text \<open>A state bound by \<^verbatim>\<open>let\<close> may be forgotten once it is known to satisfy the invariant.\<close>

lemma keeps_Let_state: "I v \<Longrightarrow> (\<And>s. I s \<Longrightarrow> keeps I (f s)) \<Longrightarrow> keeps I (Let v f)"
  by simp

lemma holds_return [hold_intros]: "I s \<Longrightarrow> holds I (Ok x, s)" "I s \<Longrightarrow> holds I (Err e, s)"
  by (simp_all add: holds_def)

lemma holds_andThen [hold_intros]:
  assumes "holds I m" and "\<And>x s. m = (Ok x, s) \<Longrightarrow> I s \<Longrightarrow> holds I (k x s)"
  shows "holds I (andThen m k)"
  using assms by (cases m; cases "fst m") (auto simp: holds_def)

lemma holds_onOk [hold_intros]:
  assumes "\<not> crashed r" and "I s" and "\<And>x. r = Ok x \<Longrightarrow> holds I (k x)"
  shows "holds I (onOk r s k)"
  using assms by (cases r) (auto simp: holds_def)

lemma holds_if [hold_intros]:
  "(b \<Longrightarrow> holds I x) \<Longrightarrow> (\<not> b \<Longrightarrow> holds I y) \<Longrightarrow> holds I (if b then x else y)"
  by simp

lemma holds_case_option [hold_intros]:
  "(v = None \<Longrightarrow> holds I x) \<Longrightarrow> (\<And>y. v = Some y \<Longrightarrow> holds I (f y))
    \<Longrightarrow> holds I (case v of None \<Rightarrow> x | Some y \<Rightarrow> f y)"
  by (cases v) simp_all

lemma holds_case_prod [hold_intros]:
  "(\<And>a b. v = (a, b) \<Longrightarrow> holds I (f a b)) \<Longrightarrow> holds I (case v of (a, b) \<Rightarrow> f a b)"
  by (cases v) simp

lemma holds_Let [hold_intros]: "holds I (f v) \<Longrightarrow> holds I (Let v f)"
  by simp

lemma holds_Let_state: "I v \<Longrightarrow> (\<And>s. I s \<Longrightarrow> holds I (f s)) \<Longrightarrow> holds I (Let v f)"
  by simp

text \<open>The same for a stronger intermediate condition \<open>J\<close>.\<close>

lemma holds_andThen_from:
  assumes "holds J m" and "\<And>s. J s \<Longrightarrow> I s" and "\<And>x s. m = (Ok x, s) \<Longrightarrow> J s \<Longrightarrow> holds I (k x s)"
  shows "holds I (andThen m k)"
  using assms by (cases m; cases "fst m") (auto simp: holds_def)

lemma holds_Let_from: "J v \<Longrightarrow> (\<And>s. J s \<Longrightarrow> holds I (f s)) \<Longrightarrow> holds I (Let v f)"
  by simp

lemma holds_mono: "holds I m \<Longrightarrow> (\<And>s. I s \<Longrightarrow> J s) \<Longrightarrow> holds J m"
  by (simp add: holds_def)

lemma holds_keeps: "holds I m \<Longrightarrow> keeps J m \<Longrightarrow> holds (\<lambda>s. I s \<and> J s) m"
  by (simp add: holds_def keeps_def)

section \<open>Lemmas on bytes\<close>

lemma unat_u8 [simp]: "unat (b :: byte) < 256"
  using unsigned_less [of b, where 'a = nat] by simp

lemma unat_u16 [simp]: "unat (w :: u16) < 65536"
  using unsigned_less [of w, where 'a = nat] by simp

lemma unat_u32 [simp]: "unat (w :: u32) < 4294967296"
  using unsigned_less [of w, where 'a = nat] by simp

lemma unat_u64 [simp]: "unat (w :: u64) < 18446744073709551616"
  using unsigned_less [of w, where 'a = nat] by simp

lemma unat_of_nat_u8: "n < 256 \<Longrightarrow> unat (of_nat n :: byte) = n"
  by (simp add: unat_of_nat)

lemma unat_of_nat_u32: "n < 2 ^ 32 \<Longrightarrow> unat (of_nat n :: u32) = n"
  by (simp add: unat_of_nat)

lemma unat_of_nat_u64: "n < 2 ^ 64 \<Longrightarrow> unat (of_nat n :: u64) = n"
  by (simp add: unat_of_nat)

lemma length_str [simp]: "length (str s) = length s"
  by (simp add: str_def)

lemma length_be_bytes [simp]: "length (be_bytes n x) = n"
  by (induction n arbitrary: x) simp_all

lemma be_val_Nil [simp]: "be_val [] = 0"
  by (simp add: be_val_def)

lemma be_val_snoc [simp]: "be_val (bs @ [b]) = be_val bs * 256 + unat b"
  by (simp add: be_val_def)

lemma be_val_bound: "be_val bs < 256 ^ length bs"
proof (induction bs rule: rev_induct)
  case (snoc b bs)
  have "unat b < 256" by simp
  with snoc show ?case by (simp del: unat_u8)
qed simp

lemma be_val_be_bytes: "be_val (be_bytes n x) = x mod 256 ^ n"
proof (induction n arbitrary: x)
  case (Suc n)
  have "unat (of_nat x :: byte) = x mod 256" by (simp add: unat_of_nat)
  with Suc show ?case by (simp add: mod_mult2_eq [of x 256 "256 ^ n", simplified] mult.commute)
qed simp

lemma be_bytes_be_val: "be_bytes (length bs) (be_val bs) = bs"
proof (induction bs rule: rev_induct)
  case (snoc b bs)
  have b: "unat b < 256" by simp
  then have "(be_val bs * 256 + unat b) div 256 = be_val bs" by simp
  moreover have "(of_nat (be_val bs * 256 + unat b) :: byte) = b"
  proof -
    have "(of_nat (be_val bs * 256 + unat b) :: byte) = of_nat (be_val bs) * of_nat 256 + b"
      by simp
    also have "(of_nat 256 :: byte) = 0" by simp
    finally show ?thesis by simp
  qed
  ultimately show ?case using snoc by simp
qed simp

lemma length_u32_be [simp]: "length (u32_be v) = 4"
  by (simp add: u32_be_def)

lemma length_u64_be [simp]: "length (u64_be v) = 8"
  by (simp add: u64_be_def)

lemma be_val_u32_be [simp]: "be_val (u32_be v) = unat v"
  by (simp add: u32_be_def be_val_be_bytes)

lemma be_val_u64_be [simp]: "be_val (u64_be v) = unat v"
  by (simp add: u64_be_def be_val_be_bytes)

lemma u32_be_of_be_val: "length bs = 4 \<Longrightarrow> u32_be (of_nat (be_val bs)) = bs"
  using be_val_bound [of bs] be_bytes_be_val [of bs]
  by (simp add: u32_be_def unat_of_nat)

lemma u64_be_of_be_val: "length bs = 8 \<Longrightarrow> u64_be (of_nat (be_val bs)) = bs"
  using be_val_bound [of bs] be_bytes_be_val [of bs]
  by (simp add: u64_be_def unat_of_nat)

lemma unat_sat_add: "unat (sat_add a b) = min (unat a + unat b) (2 ^ LENGTH('a) - 1)"
  for a b :: "'a::len word"
proof (cases "unat a + unat b < 2 ^ LENGTH('a)")
  case True
  then show ?thesis by (simp add: sat_add_def unat_word_ariths)
next
  case False
  then show ?thesis by (simp add: sat_add_def unsigned_minus_1_eq_mask mask_eq_exp_minus_1)
qed

section \<open>Lemmas on searching, splitting and UTF-8\<close>

lemma position_None: "position p xs = None \<longleftrightarrow> (\<forall>x\<in>set xs. \<not> p x)"
  by (induction xs) auto

lemma position_Some:
  "position p xs = Some i \<longleftrightarrow> i < length xs \<and> p (xs ! i) \<and> (\<forall>j<i. \<not> p (xs ! j))"
proof (induction xs arbitrary: i)
  case (Cons x xs)
  show ?case
  proof (cases i)
    case 0
    then show ?thesis by auto
  next
    case (Suc k)
    with Cons.IH [of k] show ?thesis by (auto simp: All_less_Suc2)
  qed
qed simp

lemma position_append_hit:
  "(\<forall>x\<in>set xs. \<not> p x) \<Longrightarrow> p y \<Longrightarrow> position p (xs @ y # zs) = Some (length xs)"
  by (induction xs) auto

lemma split_on_nonempty [simp]: "split_on c xs \<noteq> []"
  by (cases xs) (auto split: list.splits)

lemma split_on_clean: "c \<notin> set xs \<Longrightarrow> split_on c xs = [xs]"
  by (induction xs) auto

lemma split_on_append: "c \<notin> set xs \<Longrightarrow> split_on c (xs @ c # ys) = xs # split_on c ys"
  by (induction xs) auto

lemma split_on_join:
  "names \<noteq> [] \<Longrightarrow> \<forall>n\<in>set names. c \<notin> set n \<Longrightarrow> split_on c (join_with c names) = names"
  by (induction c names rule: join_with.induct) (auto simp: split_on_clean split_on_append)

lemma join_split_on: "join_with c (split_on c xs) = xs"
proof (induction xs)
  case (Cons x xs)
  obtain y ys where s: "split_on c xs = y # ys" by (cases "split_on c xs") auto
  with Cons show ?case by (cases ys) auto
qed simp

lemma length_split_on: "length (split_on c xs) = Suc (length (filter (\<lambda>x. x = c) xs))"
  by (induction xs) (auto split: list.splits)

lemma split_on_pieces: "\<forall>p\<in>set (split_on c xs). c \<notin> set p"
  by (induction xs) (auto split: list.splits)

lemma set_join_with: "set (join_with c names) \<subseteq> insert c (\<Union>(set ` set names))"
  by (induction c names rule: join_with.induct) auto

lemma utf8_ok_ascii: "\<forall>b\<in>set bs. b < 0x80 \<Longrightarrow> utf8_ok bs"
  by (induction bs) auto

end
