(* ===== verification/Wire.thy ===== *)
theory Wire
  imports Ssh_Prelude
begin

text \<open>
  The wire primitives of RFC 4251 (\<^verbatim>\<open>crates/ssh-transport/src/wire.rs\<close>): the cursor
  \<^verbatim>\<open>Reader\<close> over a borrowed buffer and the appending \<^verbatim>\<open>Writer\<close>, whose state is its buffer.
  The locale \<open>wire_codec\<close> states what a message parser relies on (a value written at the
  cursor is read back and the cursor moves past it) and is interpreted on every pair of
  operations; the properties are round trips, bounds on the cursor, the name-list cap and the
  canonical form of an \<^verbatim>\<open>mpint\<close>.
\<close>

section \<open>Reader\<close>

definition MAX_NAME_LIST_ENTRIES :: nat where
  "MAX_NAME_LIST_ENTRIES = 256"

record reader =
  rd_buf :: bytes
  rd_pos :: nat

definition reader_new :: "bytes \<Rightarrow> reader" where
  "reader_new buf = \<lparr>rd_buf = buf, rd_pos = 0\<rparr>"

definition r_remaining :: "reader \<Rightarrow> bytes" where
  "r_remaining r = drop (rd_pos r) (rd_buf r)"

definition r_is_empty :: "reader \<Rightarrow> bool" where
  "r_is_empty r = (rd_pos r \<ge> length (rd_buf r))"

text \<open>\<^verbatim>\<open>checked_add\<close> on \<^verbatim>\<open>usize\<close>: the sum overflows at \<open>2 ^ 64\<close>.\<close>

definition r_take :: "nat \<Rightarrow> reader \<Rightarrow> (bytes \<times> reader) result" where
  "r_take n r =
     (let end = rd_pos r + n in
      if end \<ge> 2 ^ 64 then Err (Encoding ''length overflow'')
      else if end > length (rd_buf r) then Err (Encoding ''unexpected end of buffer'')
      else Ok (take n (drop (rd_pos r) (rd_buf r)), r\<lparr>rd_pos := end\<rparr>))"

definition r_u8 :: "reader \<Rightarrow> (byte \<times> reader) result" where
  "r_u8 r = rbind (r_take 1 r) (\<lambda>(b, r). Ok (b ! 0, r))"

definition r_boolean :: "reader \<Rightarrow> (bool \<times> reader) result" where
  "r_boolean r = rbind (r_u8 r) (\<lambda>(b, r). Ok (b \<noteq> 0, r))"

definition r_u32 :: "reader \<Rightarrow> (u32 \<times> reader) result" where
  "r_u32 r = rbind (r_take 4 r) (\<lambda>(b, r). Ok (of_nat (be_val b), r))"

definition r_u64 :: "reader \<Rightarrow> (u64 \<times> reader) result" where
  "r_u64 r = rbind (r_take 8 r) (\<lambda>(b, r). Ok (of_nat (be_val b), r))"

definition r_string :: "reader \<Rightarrow> (bytes \<times> reader) result" where
  "r_string r = rbind (r_u32 r) (\<lambda>(len, r). r_take (unat len) r)"

definition r_utf8 :: "reader \<Rightarrow> (bytes \<times> reader) result" where
  "r_utf8 r = rbind (r_string r) (\<lambda>(s, r).
     if utf8_ok s then Ok (s, r) else Err (Encoding ''invalid utf-8''))"

definition r_mpint :: "reader \<Rightarrow> (bytes \<times> reader) result" where
  "r_mpint r = r_string r"

definition comma :: byte where
  "comma = of_char CHR '',''"

definition r_name_list :: "reader \<Rightarrow> (bytes list \<times> reader) result" where
  "r_name_list r = rbind (r_string r) (\<lambda>(s, r).
     if s = [] then Ok ([], r)
     else if \<not> list_all (\<lambda>b. b < 0x80) s then Err (Encoding ''non-ascii name-list'')
     else if length (filter (\<lambda>b. b = comma) s) \<ge> MAX_NAME_LIST_ENTRIES then
       Err (Encoding ''name-list too long'')
     else if \<not> utf8_ok s then Err (Encoding ''invalid name-list'')
     else Ok (split_on comma s, r))"

section \<open>Writer\<close>

definition writer_new :: bytes where
  "writer_new = []"

definition w_u8 :: "bytes \<Rightarrow> byte \<Rightarrow> bytes" where
  "w_u8 w v = w @ [v]"

definition w_boolean :: "bytes \<Rightarrow> bool \<Rightarrow> bytes" where
  "w_boolean w v = w @ [if v then 1 else 0]"

definition w_u32 :: "bytes \<Rightarrow> u32 \<Rightarrow> bytes" where
  "w_u32 w v = w @ u32_be v"

definition w_u64 :: "bytes \<Rightarrow> u64 \<Rightarrow> bytes" where
  "w_u64 w v = w @ u64_be v"

definition w_raw :: "bytes \<Rightarrow> bytes \<Rightarrow> bytes" where
  "w_raw w bs = w @ bs"

definition w_string :: "bytes \<Rightarrow> bytes \<Rightarrow> bytes" where
  "w_string w bs = w_u32 w (of_nat (length bs)) @ bs"

text \<open>The loop of \<^verbatim>\<open>name_list\<close>: a comma before every name but the first.\<close>

fun w_names :: "bytes \<Rightarrow> nat \<Rightarrow> bytes list \<Rightarrow> bytes" where
  "w_names w i [] = w"
| "w_names w i (name # names) =
     w_names ((if i > 0 then w @ [comma] else w) @ name) (Suc i) names"

definition w_name_list :: "bytes \<Rightarrow> bytes list \<Rightarrow> bytes" where
  "w_name_list w names =
     (let commas = length names - 1;
          total = sum_list (map length names) + commas
      in w_names (w_u32 w (of_nat total)) 0 names)"

definition w_mpint :: "bytes \<Rightarrow> bytes \<Rightarrow> bytes" where
  "w_mpint w magnitude =
     (case position (\<lambda>b. b \<noteq> 0) magnitude of
        None \<Rightarrow> w_u32 w 0
      | Some start \<Rightarrow>
          (let mag = drop start magnitude in
           if mag ! 0 AND 0x80 \<noteq> 0 then
             w_raw (w_u8 (w_u32 w (of_nat (length mag + 1))) 0) mag
           else w_string w mag))"

section \<open>The reader at a position of its buffer\<close>

text \<open>\<open>rd pre rest\<close> is the reader of the buffer \<open>pre @ rest\<close> that has consumed \<open>pre\<close>.\<close>

definition rd :: "bytes \<Rightarrow> bytes \<Rightarrow> reader" where
  "rd pre rest = \<lparr>rd_buf = pre @ rest, rd_pos = length pre\<rparr>"

lemma reader_new_rd [simp]: "reader_new m = rd [] m"
  by (simp add: reader_new_def rd_def)

lemma rd_remaining [simp]: "r_remaining (rd pre rest) = rest"
  by (simp add: r_remaining_def rd_def)

lemma rd_is_empty [simp]: "r_is_empty (rd pre rest) \<longleftrightarrow> rest = []"
  by (cases rest) (simp_all add: r_is_empty_def rd_def)

lemma r_take_rd [codec]:
  "length pre + length bs < 2 ^ 64 \<Longrightarrow> r_take (length bs) (rd pre (bs @ rest)) = Ok (bs, rd (pre @ bs) rest)"
  by (simp add: r_take_def rd_def Let_def)

lemma r_take_rd_exact:
  "n = length bs \<Longrightarrow> length pre + n < 2 ^ 64 \<Longrightarrow> r_take n (rd pre (bs @ rest)) = Ok (bs, rd (pre @ bs) rest)"
  using r_take_rd by blast

text \<open>Every reader whose cursor is inside its buffer has this form.\<close>

definition rd_wf :: "reader \<Rightarrow> bool" where
  "rd_wf r = (rd_pos r \<le> length (rd_buf r))"

lemma rd_wf_new [simp]: "rd_wf (reader_new buf)"
  by (simp add: rd_wf_def rd_def)

lemma rd_wf_rd [simp]: "rd_wf (rd pre rest)"
  by (simp add: rd_wf_def rd_def)

lemma r_take_Ok:
  "r_take n r = Ok (bs, r') \<longleftrightarrow>
     rd_pos r + n < 2 ^ 64 \<and> rd_pos r + n \<le> length (rd_buf r) \<and>
     bs = take n (drop (rd_pos r) (rd_buf r)) \<and> r' = r\<lparr>rd_pos := rd_pos r + n\<rparr>"
  by (auto simp: r_take_def Let_def)

lemma not_crashed_r_take [simp]: "\<not> crashed (r_take n r)"
  by (simp add: r_take_def Let_def)

section \<open>The interface of a primitive: a locale of codecs\<close>

text \<open>
  What every message parser relies on: \<open>dec\<close> at the start of an encoding \<open>enc v\<close> returns \<open>v\<close>
  and stops right behind it, whatever follows. \<open>ok\<close> bounds the values a primitive can carry
  (a length must fit its \<^verbatim>\<open>u32\<close>).
\<close>

locale wire_codec =
  fixes enc :: "'a \<Rightarrow> bytes"
    and dec :: "reader \<Rightarrow> ('a \<times> reader) result"
    and ok :: "'a \<Rightarrow> bool"
  assumes decodes: "ok v \<Longrightarrow> length pre + length (enc v) < 2 ^ 64 \<Longrightarrow>
      dec (rd pre (enc v @ rest)) = Ok (v, rd (pre @ enc v) rest)"
begin

lemma prefix_free:
  assumes "ok a" and "ok b" and "length (enc a) < 2 ^ 64" and "length (enc b) < 2 ^ 64"
    and eq: "enc a @ x = enc b @ y"
  shows "a = b \<and> x = y"
proof -
  have "dec (rd [] (enc a @ x)) = Ok (a, rd (enc a) x)"
    using decodes [OF assms(1), of "[]" x] assms(3) by simp
  moreover have "dec (rd [] (enc b @ y)) = Ok (b, rd (enc b) y)"
    using decodes [OF assms(2), of "[]" y] assms(4) by simp
  ultimately have "a = b" using eq by simp
  with eq show ?thesis by simp
qed

lemma injective: "ok a \<Longrightarrow> ok b \<Longrightarrow> length (enc a) < 2 ^ 64 \<Longrightarrow> length (enc b) < 2 ^ 64 \<Longrightarrow>
    enc a = enc b \<Longrightarrow> a = b"
  using prefix_free [of a b "[]" "[]"] by simp

end

text \<open>Two codecs in sequence are a codec: messages are built field by field.\<close>

locale wire_codec_pair =
  one: wire_codec enc1 dec1 ok1 + two: wire_codec enc2 dec2 ok2
  for enc1 :: "'a \<Rightarrow> bytes" and dec1 and ok1
    and enc2 :: "'b \<Rightarrow> bytes" and dec2 and ok2
begin

lemma pair_decodes:
  assumes "ok1 a" and "ok2 b" and "length pre + length (enc1 a) + length (enc2 b) < 2 ^ 64"
  shows "rbind (dec1 (rd pre (enc1 a @ enc2 b @ rest))) (\<lambda>(x, r). rbind (dec2 r) (\<lambda>(y, r). Ok ((x, y), r)))
    = Ok ((a, b), rd (pre @ enc1 a @ enc2 b) rest)"
  using assms one.decodes [of a pre "enc2 b @ rest"] two.decodes [of b "pre @ enc1 a" rest]
  by simp

end

sublocale wire_codec_pair \<subseteq> pair: wire_codec
  "\<lambda>(a, b). enc1 a @ enc2 b"
  "\<lambda>r. rbind (dec1 r) (\<lambda>(x, r). rbind (dec2 r) (\<lambda>(y, r). Ok ((x, y), r)))"
  "\<lambda>(a, b). ok1 a \<and> ok2 b"
  by unfold_locales (use pair_decodes in auto)

section \<open>The primitives are codecs\<close>

definition fits32 :: "bytes \<Rightarrow> bool" where
  "fits32 bs = (length bs < 2 ^ 32)"

definition string_enc :: "bytes \<Rightarrow> bytes" where
  "string_enc bs = u32_be (of_nat (length bs)) @ bs"

definition name_list_enc :: "bytes list \<Rightarrow> bytes" where
  "name_list_enc names = string_enc (join_with comma names)"

text \<open>The name-lists the writer can carry: ASCII names without commas, no more of them than the
  reader accepts, not the single empty name (which is written as the empty list).\<close>

definition name_list_ok :: "bytes list \<Rightarrow> bool" where
  "name_list_ok names =
     (names \<noteq> [[]] \<and> list_all (list_all (\<lambda>b. b < 0x80 \<and> b \<noteq> comma)) names \<and>
      length names \<le> MAX_NAME_LIST_ENTRIES \<and> fits32 (join_with comma names))"

lemma r_u8_rd [codec]:
  "length pre + 1 < 2 ^ 64 \<Longrightarrow> r_u8 (rd pre (v # rest)) = Ok (v, rd (pre @ [v]) rest)"
  using r_take_rd [of pre "[v]" rest] by (simp add: r_u8_def)

lemma r_boolean_rd [codec]:
  "length pre + 1 < 2 ^ 64 \<Longrightarrow> r_boolean (rd pre (v # rest)) = Ok (v \<noteq> 0, rd (pre @ [v]) rest)"
  by (simp add: r_boolean_def r_u8_rd)

lemma r_u32_rd [codec]:
  "length pre + 4 < 2 ^ 64 \<Longrightarrow> r_u32 (rd pre (u32_be v @ rest)) = Ok (v, rd (pre @ u32_be v) rest)"
  using r_take_rd [of pre "u32_be v" rest] by (simp add: r_u32_def)

lemma r_u64_rd [codec]:
  "length pre + 8 < 2 ^ 64 \<Longrightarrow> r_u64 (rd pre (u64_be v @ rest)) = Ok (v, rd (pre @ u64_be v) rest)"
  using r_take_rd [of pre "u64_be v" rest] by (simp add: r_u64_def)

lemma r_string_rd [codec]:
  assumes "fits32 bs" and "length pre + 4 + length bs < 2 ^ 64"
  shows "r_string (rd pre (string_enc bs @ rest)) = Ok (bs, rd (pre @ string_enc bs) rest)"
proof -
  have "unat (of_nat (length bs) :: u32) = length bs"
    using assms(1) by (simp add: fits32_def unat_of_nat)
  then show ?thesis
    using assms(2) r_take_rd [of "pre @ u32_be (of_nat (length bs))" bs rest]
    by (simp add: r_string_def string_enc_def r_u32_rd)
qed

lemma r_utf8_rd [codec]:
  assumes "fits32 bs" and "utf8_ok bs" and "length pre + 4 + length bs < 2 ^ 64"
  shows "r_utf8 (rd pre (string_enc bs @ rest)) = Ok (bs, rd (pre @ string_enc bs) rest)"
  using assms by (simp add: r_utf8_def r_string_rd)

lemma commas_join:
  "\<forall>n\<in>set names. c \<notin> set n \<Longrightarrow>
    length (filter (\<lambda>b. b = c) (join_with c names)) = length names - 1"
  by (induction c names rule: join_with.induct) (auto simp: filter_empty_conv)

lemma join_empty: "join_with c names = [] \<longleftrightarrow> names = [] \<or> names = [[]]"
  by (cases "(c, names)" rule: join_with.cases) auto

lemma comma_ascii: "comma < 0x80"
  by (simp add: comma_def)

lemma name_list_ok_clean:
  assumes "name_list_ok names"
  shows "\<forall>n\<in>set names. comma \<notin> set n"
    and "\<forall>b\<in>set (join_with comma names). b < 0x80"
proof -
  show "\<forall>n\<in>set names. comma \<notin> set n"
    using assms by (auto simp: name_list_ok_def list_all_iff)
  show "\<forall>b\<in>set (join_with comma names). b < 0x80"
    using assms set_join_with [of comma names] comma_ascii
    by (fastforce simp: name_list_ok_def list_all_iff)
qed

lemma r_name_list_rd [codec]:
  assumes ok: "name_list_ok names" and len: "length pre + 4 + length (join_with comma names) < 2 ^ 64"
  shows "r_name_list (rd pre (name_list_enc names @ rest)) = Ok (names, rd (pre @ name_list_enc names) rest)"
proof (cases "names = []")
  case True
  with len show ?thesis by (simp add: r_name_list_def name_list_enc_def r_string_rd fits32_def)
next
  case False
  let ?s = "join_with comma names"
  note clean = name_list_ok_clean [OF ok]
  have ne: "?s \<noteq> []" using False ok by (auto simp: join_empty name_list_ok_def)
  moreover have "list_all (\<lambda>b. b < 0x80) ?s" using clean(2) by (simp add: list_all_iff)
  moreover have "length (filter (\<lambda>b. b = comma) ?s) < MAX_NAME_LIST_ENTRIES"
    using commas_join [OF clean(1)] ok False
    by (cases names) (auto simp: name_list_ok_def MAX_NAME_LIST_ENTRIES_def)
  moreover have "utf8_ok ?s" using clean(2) by (rule utf8_ok_ascii)
  moreover have "split_on comma ?s = names" using False clean(1) by (simp add: split_on_join)
  moreover have "fits32 ?s" using ok by (simp add: name_list_ok_def)
  ultimately show ?thesis using len
    by (simp add: r_name_list_def name_list_enc_def r_string_rd)
qed

interpretation u8_codec: wire_codec "\<lambda>v. [v]" r_u8 "\<lambda>_. True"
  by unfold_locales (simp add: r_u8_rd)

interpretation boolean_codec: wire_codec "\<lambda>v. [if v then 1 else 0]" r_boolean "\<lambda>_. True"
  by unfold_locales (simp add: r_boolean_rd)

interpretation u32_codec: wire_codec u32_be r_u32 "\<lambda>_. True"
  by unfold_locales (simp add: r_u32_rd)

interpretation u64_codec: wire_codec u64_be r_u64 "\<lambda>_. True"
  by unfold_locales (simp add: r_u64_rd)

interpretation string_codec: wire_codec string_enc r_string fits32
  by unfold_locales (simp add: r_string_rd string_enc_def [THEN arg_cong, where f = length])

interpretation utf8_codec: wire_codec string_enc r_utf8 "\<lambda>s. fits32 s \<and> utf8_ok s"
  by unfold_locales (simp add: r_utf8_rd string_enc_def [THEN arg_cong, where f = length])

interpretation name_list_codec: wire_codec name_list_enc r_name_list name_list_ok
  by unfold_locales
    (simp add: r_name_list_rd name_list_enc_def [THEN arg_cong, where f = length]
      string_enc_def [THEN arg_cong, where f = length])

text \<open>A tagged blob (an algorithm name, then raw bytes) is how keys and signatures travel.\<close>

interpretation blob_codec: wire_codec_pair
  string_enc r_utf8 "\<lambda>s. fits32 s \<and> utf8_ok s" string_enc r_string fits32
  by unfold_locales

lemmas wire_codecs = u8_codec.wire_codec_axioms boolean_codec.wire_codec_axioms
  u32_codec.wire_codec_axioms u64_codec.wire_codec_axioms string_codec.wire_codec_axioms
  name_list_codec.wire_codec_axioms

section \<open>The writer produces these encodings\<close>

lemma length_string_enc [simp]: "length (string_enc bs) = 4 + length bs"
  by (simp add: string_enc_def)

lemma length_name_list_enc [simp]: "length (name_list_enc names) = 4 + length (join_with comma names)"
  by (simp add: name_list_enc_def)

lemma string_enc_nonempty [simp]: "string_enc bs \<noteq> []"
  using length_string_enc [of bs] by (metis add_is_0 list.size(3) zero_neq_numeral)

lemma length_join_with: "length (join_with c names) = sum_list (map length names) + (length names - 1)"
  by (induction c names rule: join_with.induct) auto

lemma w_names_join: "w_names w i names = w @ (if i > 0 \<and> names \<noteq> [] then [comma] else []) @ join_with comma names"
proof (induction w i names rule: w_names.induct)
  case (2 w i name names)
  then show ?case by (cases names) auto
qed simp

lemma w_string_enc: "w_string w bs = w @ string_enc bs"
  by (simp add: w_string_def w_u32_def string_enc_def)

lemma w_name_list_enc: "w_name_list w names = w @ name_list_enc names"
  by (simp add: w_name_list_def Let_def w_names_join w_u32_def name_list_enc_def string_enc_def
      length_join_with)

lemmas writer_simps = writer_new_def w_u8_def w_boolean_def w_u32_def w_u64_def w_raw_def
  w_string_enc w_name_list_enc

section \<open>Properties\<close>

text \<open>Name-list round trip. Whatever list of comma-free ASCII names the writer is given (up to the
  reader's cap, and not the one-element list of the empty name), the reader at the start of the
  written bytes returns exactly that list and leaves the cursor behind it, whatever follows.\<close>

theorem name_list_roundtrip:
  assumes "name_list_ok names"
  shows "r_name_list (reader_new (w_name_list writer_new names @ rest))
    = Ok (names, rd (w_name_list writer_new names) rest)"
proof -
  have "length (join_with comma names) < 2 ^ 32"
    using assms by (simp add: name_list_ok_def fits32_def)
  then show ?thesis
    using r_name_list_rd [OF assms, of "[]" rest] by (simp add: writer_simps)
qed

theorem name_list_roundtrip_witness:
  "r_name_list (reader_new (w_name_list writer_new [str ''none'', str ''zlib''] @ [7]))
    = Ok ([str ''none'', str ''zlib''], rd (w_name_list writer_new [str ''none'', str ''zlib'']) [7])"
  by (rule name_list_roundtrip)
    (simp add: name_list_ok_def str_def comma_def MAX_NAME_LIST_ENTRIES_def fits32_def)

text \<open>The bytes a successful read consumed, for every primitive that reads a length prefix.\<close>

lemma r_u32_Ok:
  "r_u32 r = Ok (v, r') \<longleftrightarrow>
     rd_pos r + 4 < 2 ^ 64 \<and> rd_pos r + 4 \<le> length (rd_buf r) \<and>
     v = of_nat (be_val (take 4 (drop (rd_pos r) (rd_buf r)))) \<and> r' = r\<lparr>rd_pos := rd_pos r + 4\<rparr>"
  by (auto simp: r_u32_def rbind_Ok_iff r_take_Ok split: prod.splits)

lemma r_string_Ok:
  assumes "r_string r = Ok (s, r')"
  shows "rd_pos r' = rd_pos r + 4 + length s" and "rd_buf r' = rd_buf r"
    and "s = take (length s) (drop (rd_pos r + 4) (rd_buf r))"
    and "rd_pos r' \<le> length (rd_buf r')"
    and "length s = be_val (take 4 (drop (rd_pos r) (rd_buf r)))"
proof -
  let ?n = "be_val (take 4 (drop (rd_pos r) (rd_buf r)))"
  from assms have a: "rd_pos r + 4 \<le> length (rd_buf r)"
    and b: "r_take (unat (of_nat ?n :: u32)) (r\<lparr>rd_pos := rd_pos r + 4\<rparr>) = Ok (s, r')"
    by (auto simp: r_string_def rbind_Ok_iff r_u32_Ok split: prod.splits)
  have "length (take 4 (drop (rd_pos r) (rd_buf r))) = 4" using a by simp
  then have "?n < 256 ^ 4" using be_val_bound [of "take 4 (drop (rd_pos r) (rd_buf r))"] by metis
  then have n: "unat (of_nat ?n :: u32) = ?n" by (simp add: unat_of_nat)
  from b show "rd_pos r' = rd_pos r + 4 + length s" "rd_buf r' = rd_buf r"
    "s = take (length s) (drop (rd_pos r + 4) (rd_buf r))" "rd_pos r' \<le> length (rd_buf r')"
    "length s = ?n"
    unfolding n r_take_Ok by auto
qed

lemma not_crashed_readers [simp]:
  "\<not> crashed (r_u8 r)" "\<not> crashed (r_boolean r)" "\<not> crashed (r_u32 r)" "\<not> crashed (r_u64 r)"
  "\<not> crashed (r_string r)" "\<not> crashed (r_utf8 r)" "\<not> crashed (r_name_list r)"
  by (auto simp: r_u8_def r_boolean_def r_u32_def r_u64_def r_string_def r_utf8_def r_name_list_def
      crashed_rbind split: prod.splits if_splits)

text \<open>Name-list cap and shape. A name-list read from any buffer, hostile or not, yields at most
  \<open>MAX_NAME_LIST_ENTRIES\<close> names, each ASCII and comma-free, and joining them with commas gives back
  exactly the bytes the length prefix covered.\<close>

theorem name_list_bounded:
  assumes "r_name_list r = Ok (names, r')"
  shows "length names \<le> MAX_NAME_LIST_ENTRIES \<and>
    list_all (list_all (\<lambda>b. b < 0x80 \<and> b \<noteq> comma)) names \<and>
    rd_pos r' = rd_pos r + 4 + length (join_with comma names) \<and>
    join_with comma names = take (length (join_with comma names)) (drop (rd_pos r + 4) (rd_buf r)) \<and>
    rd_pos r' \<le> length (rd_buf r)"
proof -
  from assms obtain s where s: "r_string r = Ok (s, r')"
    and cs: "s = [] \<and> names = [] \<or> list_all (\<lambda>b. b < 0x80) s \<and>
        length (filter (\<lambda>b. b = comma) s) < MAX_NAME_LIST_ENTRIES \<and> names = split_on comma s"
    by (auto simp: r_name_list_def rbind_Ok_iff split: prod.splits if_splits)
  have j: "join_with comma names = s" using cs by (auto simp: join_split_on)
  have "list_all (list_all (\<lambda>b. b < 0x80 \<and> b \<noteq> comma)) names"
  proof -
    have "set n \<subseteq> set (join_with comma ns)" if "n \<in> set ns" for n and ns :: "bytes list"
      using that by (induction comma ns rule: join_with.induct) auto
    then show ?thesis
      using cs split_on_pieces [of comma s] j by (fastforce simp: list_all_iff)
  qed
  moreover have "length names \<le> MAX_NAME_LIST_ENTRIES"
    using cs by (auto simp: length_split_on)
  ultimately show ?thesis using r_string_Ok [OF s] j by simp
qed

theorem name_list_bounded_witness:
  "length [str ''a'', str ''b''] \<le> MAX_NAME_LIST_ENTRIES"
proof -
  have "r_name_list (reader_new (0 # 0 # 0 # 3 # str ''a,b''))
      = Ok ([str ''a'', str ''b''], \<lparr>rd_buf = 0 # 0 # 0 # 3 # str ''a,b'', rd_pos = 7\<rparr>)"
    by (simp add: r_name_list_def r_string_def r_u32_def r_take_def rd_def str_def comma_def
        be_val_def Let_def MAX_NAME_LIST_ENTRIES_def)
  from name_list_bounded [OF this] show ?thesis by simp
qed

section \<open>Canonical mpints\<close>

text \<open>The body of an mpint (what follows the length prefix).\<close>

definition mpint_body :: "bytes \<Rightarrow> bytes" where
  "mpint_body magnitude = drop 4 (w_mpint writer_new magnitude)"

lemma be_val_append: "be_val (xs @ ys) = be_val xs * 256 ^ length ys + be_val ys"
proof (induction ys rule: rev_induct)
  case (snoc y ys)
  have "be_val (xs @ ys @ [y]) = be_val ((xs @ ys) @ [y])" by simp
  also have "\<dots> = be_val (xs @ ys) * 256 + unat y" by (rule be_val_snoc)
  finally show ?case using snoc by (simp add: algebra_simps)
qed simp

lemma be_val_zeros: "\<forall>b\<in>set bs. b = 0 \<Longrightarrow> be_val bs = 0"
proof (induction bs rule: rev_induct)
  case (snoc b bs)
  then show ?case by simp
qed simp

lemma be_val_drop_zeros:
  "position (\<lambda>b. b \<noteq> 0) bs = Some i \<Longrightarrow> be_val (drop i bs) = be_val bs"
proof -
  assume p: "position (\<lambda>b. b \<noteq> 0) bs = Some i"
  then have "\<forall>b\<in>set (take i bs). b = 0"
    by (auto simp: position_Some in_set_conv_nth)
  then have "be_val (take i bs) = 0" by (rule be_val_zeros)
  then show ?thesis using be_val_append [of "take i bs" "drop i bs"] by simp
qed

text \<open>Canonical mpints. For every magnitude shorter than \<open>2 ^ 32 - 1\<close> bytes the written mpint is a
  length prefix and a body of that length; the body has the same big-endian value, is empty for
  zero, never has its sign bit set, and starts with a zero byte only where the next byte would
  otherwise set it. So the value is never misread as negative and the encoding is the unique
  shortest one the exchange hash needs.\<close>

theorem mpint_canonical:
  assumes "length magnitude < 2 ^ 32 - 1"
  shows "w_mpint writer_new magnitude = string_enc (mpint_body magnitude) \<and>
    be_val (mpint_body magnitude) = be_val magnitude \<and>
    (be_val magnitude = 0 \<longrightarrow> mpint_body magnitude = []) \<and>
    (mpint_body magnitude \<noteq> [] \<longrightarrow> mpint_body magnitude ! 0 AND 0x80 = 0) \<and>
    (mpint_body magnitude \<noteq> [] \<and> mpint_body magnitude ! 0 = 0 \<longrightarrow>
       length (mpint_body magnitude) > 1 \<and> mpint_body magnitude ! 1 AND 0x80 \<noteq> 0)"
proof (cases "position (\<lambda>b. b \<noteq> 0) magnitude")
  case None
  then have z: "be_val magnitude = 0" by (auto simp: position_None intro: be_val_zeros)
  have w: "w_mpint writer_new magnitude = u32_be 0"
    using None by (simp add: w_mpint_def writer_simps)
  then have "mpint_body magnitude = []" by (simp add: mpint_body_def)
  with w z show ?thesis by (simp add: string_enc_def)
next
  case (Some i)
  let ?m = "drop i magnitude"
  from Some have i: "i < length magnitude" "magnitude ! i \<noteq> 0" by (auto simp: position_Some)
  then have m: "?m ! 0 \<noteq> 0" "?m \<noteq> []" by auto
  have v: "be_val ?m = be_val magnitude" using Some by (rule be_val_drop_zeros)
  have pos: "be_val magnitude > 0"
  proof -
    obtain y ys where y: "?m = y # ys" using m(2) by (cases ?m) auto
    then have "be_val ?m = unat y * 256 ^ length ys + be_val ys"
      using be_val_append [of "[y]" ys] by (simp add: be_val_def)
    moreover have "unat y > 0" using m(1) y by (simp add: unat_gt_0)
    ultimately show ?thesis using v by simp
  qed
  show ?thesis
  proof (cases "?m ! 0 AND 0x80 = 0")
    case True
    then have w: "w_mpint writer_new magnitude = string_enc ?m"
      using Some by (simp add: w_mpint_def writer_simps)
    then have "mpint_body magnitude = ?m" by (simp add: mpint_body_def string_enc_def)
    with w v pos m True show ?thesis by simp
  next
    case False
    then have w: "w_mpint writer_new magnitude = string_enc (0 # ?m)"
      using Some by (simp add: w_mpint_def writer_simps string_enc_def Let_def)
    then have b: "mpint_body magnitude = 0 # ?m" by (simp add: mpint_body_def string_enc_def)
    have "be_val (0 # ?m) = be_val ?m" by (simp add: be_val_def)
    with w b v pos m False show ?thesis by simp
  qed
qed

theorem mpint_canonical_witness:
  "mpint_body [0, 0x80] = [0, 0x80] \<and> mpint_body [0, 0x80] ! 0 AND 0x80 = 0"
proof -
  have "mpint_body [0, 0x80] = [0, 0x80]"
    by (simp add: mpint_body_def w_mpint_def writer_simps u32_be_def)
  then show ?thesis using mpint_canonical [of "[0, 0x80]"] by simp
qed

end
