(* ===== verification/Packet.thy ===== *)
theory Packet
  imports Wire
begin

text \<open>
  The Binary Packet Protocol before \<^verbatim>\<open>NEWKEYS\<close> (\<^verbatim>\<open>crates/ssh-transport/src/packet.rs\<close>) and
  the message numbers (\<^verbatim>\<open>msg.rs\<close>). The locale \<open>frame_parser\<close> is the contract the drive loop of
  the transport has with whatever cuts the next unit off its receive buffer (the identification
  line, a plaintext packet, a sealed packet): a parsed unit lies inside the buffer, and bytes that
  arrive later never change what was already decided.
\<close>

section \<open>Message numbers\<close>

definition msg_DISCONNECT :: byte where "msg_DISCONNECT = 1"
definition msg_IGNORE :: byte where "msg_IGNORE = 2"
definition msg_UNIMPLEMENTED :: byte where "msg_UNIMPLEMENTED = 3"
definition msg_DEBUG :: byte where "msg_DEBUG = 4"
definition msg_SERVICE_REQUEST :: byte where "msg_SERVICE_REQUEST = 5"
definition msg_SERVICE_ACCEPT :: byte where "msg_SERVICE_ACCEPT = 6"
definition msg_KEXINIT :: byte where "msg_KEXINIT = 20"
definition msg_NEWKEYS :: byte where "msg_NEWKEYS = 21"
definition msg_KEX_ECDH_INIT :: byte where "msg_KEX_ECDH_INIT = 30"
definition msg_KEX_ECDH_REPLY :: byte where "msg_KEX_ECDH_REPLY = 31"
definition msg_USERAUTH_REQUEST :: byte where "msg_USERAUTH_REQUEST = 50"
definition msg_USERAUTH_FAILURE :: byte where "msg_USERAUTH_FAILURE = 51"
definition msg_USERAUTH_SUCCESS :: byte where "msg_USERAUTH_SUCCESS = 52"
definition msg_USERAUTH_BANNER :: byte where "msg_USERAUTH_BANNER = 53"
definition msg_USERAUTH_PK_OK :: byte where "msg_USERAUTH_PK_OK = 60"
definition msg_CHANNEL_OPEN :: byte where "msg_CHANNEL_OPEN = 90"
definition msg_CHANNEL_OPEN_CONFIRMATION :: byte where "msg_CHANNEL_OPEN_CONFIRMATION = 91"
definition msg_CHANNEL_OPEN_FAILURE :: byte where "msg_CHANNEL_OPEN_FAILURE = 92"
definition msg_CHANNEL_WINDOW_ADJUST :: byte where "msg_CHANNEL_WINDOW_ADJUST = 93"
definition msg_CHANNEL_DATA :: byte where "msg_CHANNEL_DATA = 94"
definition msg_CHANNEL_EXTENDED_DATA :: byte where "msg_CHANNEL_EXTENDED_DATA = 95"
definition msg_CHANNEL_EOF :: byte where "msg_CHANNEL_EOF = 96"
definition msg_CHANNEL_CLOSE :: byte where "msg_CHANNEL_CLOSE = 97"
definition msg_CHANNEL_REQUEST :: byte where "msg_CHANNEL_REQUEST = 98"
definition msg_CHANNEL_SUCCESS :: byte where "msg_CHANNEL_SUCCESS = 99"
definition msg_CHANNEL_FAILURE :: byte where "msg_CHANNEL_FAILURE = 100"

definition disconnect_PROTOCOL_ERROR :: u32 where "disconnect_PROTOCOL_ERROR = 2"
definition disconnect_KEY_EXCHANGE_FAILED :: u32 where "disconnect_KEY_EXCHANGE_FAILED = 3"
definition disconnect_NO_MORE_AUTH_METHODS_AVAILABLE :: u32 where
  "disconnect_NO_MORE_AUTH_METHODS_AVAILABLE = 14"
definition extended_data_STDERR :: u32 where "extended_data_STDERR = 1"

lemmas msg_defs = msg_DISCONNECT_def msg_IGNORE_def msg_UNIMPLEMENTED_def msg_DEBUG_def
  msg_SERVICE_REQUEST_def msg_SERVICE_ACCEPT_def msg_KEXINIT_def msg_NEWKEYS_def
  msg_KEX_ECDH_INIT_def msg_KEX_ECDH_REPLY_def msg_USERAUTH_REQUEST_def msg_USERAUTH_FAILURE_def
  msg_USERAUTH_SUCCESS_def msg_USERAUTH_BANNER_def msg_USERAUTH_PK_OK_def msg_CHANNEL_OPEN_def
  msg_CHANNEL_OPEN_CONFIRMATION_def msg_CHANNEL_OPEN_FAILURE_def msg_CHANNEL_WINDOW_ADJUST_def
  msg_CHANNEL_DATA_def msg_CHANNEL_EXTENDED_DATA_def msg_CHANNEL_EOF_def msg_CHANNEL_CLOSE_def
  msg_CHANNEL_REQUEST_def msg_CHANNEL_SUCCESS_def msg_CHANNEL_FAILURE_def

section \<open>Framing\<close>

definition MIN_PADDING :: nat where "MIN_PADDING = 4"
definition MIN_PACKET :: nat where "MIN_PACKET = 16"
definition BLOCK :: nat where "BLOCK = 8"
definition MAX_PACKET_LENGTH :: nat where "MAX_PACKET_LENGTH = 1024 * 1024"

text \<open>The \<^verbatim>\<open>while\<close> loop that grows the padding to the minimum packet size. The block is at least
  \<open>BLOCK\<close> there, which is what makes it end.\<close>

function pad_to_min :: "nat \<Rightarrow> nat \<Rightarrow> nat \<Rightarrow> nat" where
  "pad_to_min payload_len block pad =
     (if 4 + 1 + payload_len + pad < MIN_PACKET
      then pad_to_min payload_len block (pad + max block BLOCK) else pad)"
  by pat_completeness auto
termination
  by (relation "measure (\<lambda>(payload_len, block, pad). MIN_PACKET - pad)")
    (auto simp: BLOCK_def MIN_PACKET_def)

declare pad_to_min.simps [simp del]

definition padding_len :: "nat \<Rightarrow> nat \<Rightarrow> nat" where
  "padding_len payload_len block =
     (let block = max block BLOCK;
          unpadded = 4 + 1 + payload_len;
          pad = block - unpadded mod block;
          pad = (if pad < MIN_PADDING then pad + block else pad)
      in pad_to_min payload_len block pad)"

definition encode_plain_into :: "bytes \<Rightarrow> bytes \<Rightarrow> bytes" where
  "encode_plain_into payload out =
     (let pad = padding_len (length payload) BLOCK;
          packet_length = 1 + length payload + pad
      in out @ u32_be (of_nat packet_length) @ [of_nat pad] @ payload @ replicate pad 0)"

definition decode_plain :: "bytes \<Rightarrow> (bytes \<times> nat) option result" where
  "decode_plain buf =
     (if length buf < 4 then Ok None
      else
        let packet_length = be_val (take 4 buf) in
        if \<not> (MIN_PACKET - 4 \<le> packet_length \<and> packet_length \<le> MAX_PACKET_LENGTH) then
          Err (BadPacket ''packet_length out of range'')
        else
          let total = 4 + packet_length in
          if length buf < total then Ok None
          else
            let padding_length = unat (buf ! 4) in
            if padding_length < MIN_PADDING \<or> padding_length + 1 > packet_length then
              Err (BadPacket ''invalid padding_length'')
            else
              let payload_len = packet_length - padding_length - 1
              in Ok (Some (take payload_len (drop 5 buf), total)))"

section \<open>The contract of a frame parser\<close>

locale frame_parser =
  fixes parse :: "bytes \<Rightarrow> ('a \<times> nat) option result"
  assumes inside: "parse buf = Ok (Some (x, n)) \<Longrightarrow> 0 < n \<and> n \<le> length buf"
    and stable: "parse buf = Ok (Some (x, n)) \<Longrightarrow> parse (buf @ ext) = Ok (Some (x, n))"
    and rejects: "parse buf = Err e \<Longrightarrow> \<exists>e'. parse (buf @ ext) = Err e'"
    and calm: "\<not> crashed (parse buf)"
begin

text \<open>A decision on a longer buffer is never contradicted by a shorter read: either the shorter
  buffer already gives it, or it asks for more bytes.\<close>

lemma shorter_agrees:
  assumes "parse (buf @ ext) = Ok (Some (x, n))"
  shows "parse buf = Ok None \<or> parse buf = Ok (Some (x, n))"
proof (cases "parse buf")
  case (Ok v)
  then show ?thesis using assms stable [of buf _ _ ext] by (cases v) auto
next
  case (Err e)
  then show ?thesis using assms rejects [of buf e ext] by auto
next
  case (Crash m)
  then show ?thesis using calm [of buf] by simp
qed

lemma need_more_short:
  assumes "parse (buf @ ext) = Ok None"
  shows "parse buf = Ok None"
proof (cases "parse buf")
  case (Ok v)
  then show ?thesis using assms stable [of buf _ _ ext] by (cases v) auto
next
  case (Err e)
  then show ?thesis using assms rejects [of buf e ext] by auto
next
  case (Crash m)
  then show ?thesis using calm [of buf] by simp
qed

end

section \<open>Lemmas\<close>

lemma pad_to_min_ge: "pad \<le> pad_to_min n block pad"
proof (induction n block pad rule: pad_to_min.induct)
  case (1 n block pad)
  then show ?case by (subst pad_to_min.simps) auto
qed

lemma pad_to_min_total: "MIN_PACKET \<le> 4 + 1 + n + pad_to_min n block pad"
proof (induction n block pad rule: pad_to_min.induct)
  case (1 n block pad)
  then show ?case by (subst pad_to_min.simps) auto
qed

lemma pad_to_min_upper: "pad_to_min n block pad \<le> max pad (MIN_PACKET + max block BLOCK)"
proof (induction n block pad rule: pad_to_min.induct)
  case (1 n block pad)
  show ?case
  proof (cases "4 + 1 + n + pad < MIN_PACKET")
    case True
    with 1 show ?thesis by (subst pad_to_min.simps) auto
  next
    case False
    then show ?thesis by (subst pad_to_min.simps) auto
  qed
qed

lemma pad_to_min_aligned:
  "(4 + 1 + n + pad) mod max block BLOCK = 0 \<Longrightarrow>
    (4 + 1 + n + pad_to_min n block pad) mod max block BLOCK = 0"
proof (induction n block pad rule: pad_to_min.induct)
  case (1 n block pad)
  show ?case
  proof (cases "4 + 1 + n + pad < MIN_PACKET")
    case True
    have "(4 + 1 + n + (pad + max block BLOCK)) mod max block BLOCK = 0"
      using 1(2) by (metis add.assoc mod_add_self2)
    with 1(1) [OF True] True show ?thesis by (subst pad_to_min.simps) auto
  next
    case False
    with 1(2) show ?thesis by (subst pad_to_min.simps) auto
  qed
qed

lemma aligned_complement: "0 < (b::nat) \<Longrightarrow> (u + (b - u mod b)) mod b = 0"
proof -
  assume "0 < b"
  then have "u mod b \<le> b" by (simp add: less_imp_le)
  moreover have "u = u div b * b + u mod b" by simp
  ultimately have "u + (b - u mod b) = u div b * b + b" by linarith
  also have "\<dots> = (u div b + 1) * b" by simp
  finally have "u + (b - u mod b) = (u div b + 1) * b" .
  then show ?thesis by simp
qed

lemma first_pad_bounds:
  fixes b u :: nat
  defines "q \<equiv> b - u mod b"
  defines "r \<equiv> if q < MIN_PADDING then q + b else q"
  assumes b: "8 \<le> b"
  shows "MIN_PADDING \<le> r" and "r \<le> 2 * b" and "(u + r) mod b = 0"
proof -
  have q: "q \<le> b" by (simp add: q_def)
  show "MIN_PADDING \<le> r" using b by (simp add: r_def MIN_PADDING_def)
  show "r \<le> 2 * b" using q by (simp add: r_def)
  have "(u + q) mod b = 0" using aligned_complement [of b u] b by (simp add: q_def)
  moreover have "(u + (q + b)) mod b = (u + q) mod b" by (metis add.assoc mod_add_self2)
  ultimately show "(u + r) mod b = 0" unfolding r_def by (cases "q < MIN_PADDING") simp_all
qed

lemma padding_len_spec:
  fixes n block
  defines "p \<equiv> padding_len n block"
  shows "(4 + 1 + n + p) mod max block BLOCK = 0" and "MIN_PADDING \<le> p"
    and "MIN_PACKET \<le> 4 + 1 + n + p" and "p \<le> MIN_PACKET + 2 * max block BLOCK"
proof -
  define b where "b = max block BLOCK"
  define q where "q = b - (4 + 1 + n) mod b"
  define r where "r = (if q < MIN_PADDING then q + b else q)"
  have b: "8 \<le> b" and m: "max b BLOCK = b" by (simp_all add: b_def BLOCK_def)
  have p: "p = pad_to_min n b r" by (simp add: p_def padding_len_def Let_def b_def q_def r_def)
  note r = first_pad_bounds [OF b, of "4 + 1 + n", folded q_def, folded r_def]
  have "(4 + 1 + n + p) mod b = 0"
    using pad_to_min_aligned [of n r b] r(3) by (simp only: p m)
  then show "(4 + 1 + n + p) mod max block BLOCK = 0" by (simp only: b_def)
  show "MIN_PADDING \<le> p" using pad_to_min_ge [of r n b] r(1) by (simp add: p)
  show "MIN_PACKET \<le> 4 + 1 + n + p" using pad_to_min_total by (simp add: p)
  have "p \<le> max r (MIN_PACKET + b)" using pad_to_min_upper [of n b r] by (simp only: p m)
  with r(2) have "p \<le> MIN_PACKET + 2 * b" by linarith
  then show "p \<le> MIN_PACKET + 2 * max block BLOCK" by (simp only: b_def)
qed

lemma padding_len_byte:
  "MIN_PADDING \<le> padding_len n BLOCK \<and> padding_len n BLOCK \<le> 32 \<and> 11 \<le> n + padding_len n BLOCK"
  using padding_len_spec(2,3,4) [of n BLOCK] by (simp add: BLOCK_def MIN_PACKET_def)

lemma length_encode_plain_into:
  "length (encode_plain_into p out) = length out + 5 + length p + padding_len (length p) BLOCK"
  by (simp add: encode_plain_into_def Let_def)

lemma encode_plain_into_append: "encode_plain_into p out = out @ encode_plain_into p []"
  by (simp add: encode_plain_into_def Let_def)

lemma decode_plain_cases:
  "decode_plain buf = Ok (Some (p, n)) \<longleftrightarrow>
     4 \<le> length buf \<and> n = 4 + be_val (take 4 buf) \<and> n \<le> length buf \<and>
     12 \<le> be_val (take 4 buf) \<and> be_val (take 4 buf) \<le> MAX_PACKET_LENGTH \<and>
     4 \<le> unat (buf ! 4) \<and> unat (buf ! 4) + 1 \<le> be_val (take 4 buf) \<and>
     p = take (be_val (take 4 buf) - unat (buf ! 4) - 1) (drop 5 buf)"
  by (auto simp: decode_plain_def Let_def MIN_PACKET_def MIN_PADDING_def)

lemma decode_plain_frame_parser: "frame_parser decode_plain"
proof
  fix buf x n ext e
  show "0 < n \<and> n \<le> length buf" if "decode_plain buf = Ok (Some (x, n))"
    using that by (auto simp: decode_plain_cases)
  show "decode_plain (buf @ ext) = Ok (Some (x, n))" if "decode_plain buf = Ok (Some (x, n))"
    using that by (auto simp: decode_plain_cases nth_append)
  show "\<exists>e'. decode_plain (buf @ ext) = Err e'" if "decode_plain buf = Err e"
    using that by (auto simp: decode_plain_def Let_def MIN_PACKET_def nth_append split: if_splits)
  show "\<not> crashed (decode_plain buf)"
    by (simp add: decode_plain_def Let_def)
qed

interpretation plain: frame_parser decode_plain
  by (rule decode_plain_frame_parser)

text \<open>The two halves of the framing round trip, shared with the ciphers.\<close>

lemma plain_head:
  assumes "1 + length payload + padding_len (length payload) BLOCK \<le> MAX_PACKET_LENGTH"
  defines "f \<equiv> encode_plain_into payload []"
  shows "be_val (take 4 f) = 1 + length payload + padding_len (length payload) BLOCK"
    and "unat (f ! 4) = padding_len (length payload) BLOCK"
    and "length f = 5 + length payload + padding_len (length payload) BLOCK"
    and "take (length payload) (drop 5 f) = payload"
proof -
  let ?pad = "padding_len (length payload) BLOCK"
  have pad: "4 \<le> ?pad" "?pad \<le> 32"
    using padding_len_byte [of "length payload"] by (auto simp: MIN_PADDING_def)
  have u: "unat (of_nat (1 + length payload + ?pad) :: u32) = 1 + length payload + ?pad"
    using assms by (intro unat_of_nat_u32) (simp add: MAX_PACKET_LENGTH_def)
  have f: "f = u32_be (of_nat (1 + length payload + ?pad)) @ of_nat ?pad # payload @ replicate ?pad 0"
    by (simp add: encode_plain_into_def Let_def f_def)
  show "be_val (take 4 f) = 1 + length payload + ?pad"
    unfolding f using u by (simp del: of_nat_add)
  show "unat (f ! 4) = ?pad" using pad by (simp add: f nth_append unat_of_nat)
  show "length f = 5 + length payload + ?pad" by (simp add: f)
  show "take (length payload) (drop 5 f) = payload" by (simp add: f)
qed

lemma decode_encode_plain:
  assumes "1 + length payload + padding_len (length payload) BLOCK \<le> MAX_PACKET_LENGTH"
  shows "decode_plain (encode_plain_into payload [] @ rest)
      = Ok (Some (payload, length (encode_plain_into payload [])))"
proof (rule plain.stable)
  note f = plain_head [OF assms]
  show "decode_plain (encode_plain_into payload []) = Ok (Some (payload, length (encode_plain_into payload [])))"
    unfolding decode_plain_cases f using assms padding_len_byte [of "length payload"]
    by (simp add: f MIN_PADDING_def)
qed

lemma decode_plain_prefix:
  assumes "1 + length payload + padding_len (length payload) BLOCK \<le> MAX_PACKET_LENGTH"
    and k: "k < length (encode_plain_into payload [])"
  shows "decode_plain (take k (encode_plain_into payload [])) = Ok None"
proof (cases "k < 4")
  case True
  then have "length (take k (encode_plain_into payload [])) < 4" by simp
  then show ?thesis unfolding decode_plain_def by (simp only: if_True)
next
  case False
  then have "take 4 (take k (encode_plain_into payload [])) = take 4 (encode_plain_into payload [])" by simp
  moreover have "4 \<le> length (take k (encode_plain_into payload []))" using False k by simp
  ultimately show ?thesis
    using plain_head [OF assms(1)] padding_len_byte [of "length payload"] assms(1) k
    by (simp add: decode_plain_def Let_def MIN_PACKET_def del: take_take)
qed

section \<open>Properties\<close>

text \<open>Plaintext framing round trip. For every payload whose frame stays within the packet limit,
  decoding the encoded frame followed by any bytes returns the payload and consumes exactly the
  frame; and every proper prefix of the frame is answered with a request for more bytes, never
  with an error or a shorter packet.\<close>

theorem plain_roundtrip:
  assumes "1 + length payload + padding_len (length payload) BLOCK \<le> MAX_PACKET_LENGTH"
  shows "decode_plain (encode_plain_into payload [] @ rest)
      = Ok (Some (payload, length (encode_plain_into payload []))) \<and>
    (k < length (encode_plain_into payload []) \<longrightarrow>
       decode_plain (take k (encode_plain_into payload [])) = Ok None)"
  using decode_encode_plain [OF assms] decode_plain_prefix [OF assms] by blast

theorem plain_roundtrip_witness:
  "decode_plain (encode_plain_into [20, 1] [] @ [9]) = Ok (Some ([20, 1], 16)) \<and>
   decode_plain (take 15 (encode_plain_into [20, 1] [])) = Ok None"
proof -
  have p: "padding_len (length [20 :: byte, 1]) BLOCK = 9"
    by (simp add: padding_len_def Let_def pad_to_min.simps BLOCK_def MIN_PADDING_def MIN_PACKET_def)
  then have l: "length (encode_plain_into [20, 1] []) = 16"
    by (simp add: length_encode_plain_into)
  have h: "1 + length [20 :: byte, 1] + padding_len (length [20 :: byte, 1]) BLOCK \<le> MAX_PACKET_LENGTH"
    unfolding p by (simp add: MAX_PACKET_LENGTH_def)
  show ?thesis
    using plain_roundtrip [OF h, of "[9]" 15] l by simp
qed

text \<open>Padding. For every payload length and cipher block size the computed padding makes the whole
  packet a multiple of the block (at least 8), is at least 4, brings the packet to at least 16
  bytes, and for blocks up to 112 bytes fits the one-byte padding field, so the cast to \<^verbatim>\<open>u8\<close>
  loses nothing.\<close>

theorem padding_len_correct:
  "(4 + 1 + n + padding_len n block) mod max block BLOCK = 0 \<and>
   MIN_PADDING \<le> padding_len n block \<and> MIN_PACKET \<le> 4 + 1 + n + padding_len n block \<and>
   (block \<le> 112 \<longrightarrow> unat (of_nat (padding_len n block) :: byte) = padding_len n block)"
proof -
  have "unat (of_nat (padding_len n block) :: byte) = padding_len n block" if "block \<le> 112"
    using padding_len_spec(4) [of n block] that
    by (simp add: unat_of_nat BLOCK_def MIN_PACKET_def max_def split: if_splits)
  then show ?thesis using padding_len_spec [of n block] by blast
qed

theorem padding_len_correct_witness:
  "unat (of_nat (padding_len 3 8) :: byte) = padding_len 3 8 \<and> padding_len 3 8 = 8"
proof
  show "unat (of_nat (padding_len 3 8) :: byte) = padding_len 3 8"
    using padding_len_correct [of 3 8] by simp
  show "padding_len 3 8 = 8"
    by (simp add: padding_len_def Let_def pad_to_min.simps BLOCK_def MIN_PADDING_def MIN_PACKET_def)
qed

text \<open>Bounded acceptance. Whatever bytes the peer sends, a plaintext packet that is accepted lies
  inside the buffer, is at most 4 bytes longer than \<open>MAX_PACKET_LENGTH\<close>, its payload is the bytes
  between the padding-length byte and at least 4 bytes of padding, and appending more input to the
  buffer does not change the verdict.\<close>

theorem decode_plain_bounded:
  assumes "decode_plain buf = Ok (Some (payload, consumed))"
  shows "consumed \<le> length buf \<and> 16 \<le> consumed \<and> consumed \<le> 4 + MAX_PACKET_LENGTH \<and>
    length payload + 5 + unat (buf ! 4) = consumed \<and> 4 \<le> unat (buf ! 4) \<and>
    payload = take (length payload) (drop 5 buf) \<and>
    decode_plain (buf @ ext) = Ok (Some (payload, consumed))"
proof -
  from assms have "unat (buf ! 4) + 1 \<le> be_val (take 4 buf)" "4 + be_val (take 4 buf) \<le> length buf"
    "payload = take (be_val (take 4 buf) - unat (buf ! 4) - 1) (drop 5 buf)"
    by (simp_all add: decode_plain_cases)
  then have "length payload + 5 + unat (buf ! 4) = 4 + be_val (take 4 buf)"
    and "payload = take (length payload) (drop 5 buf)"
    by auto
  with assms plain.stable [OF assms, of ext] show ?thesis
    unfolding decode_plain_cases [of buf] by simp
qed

theorem decode_plain_bounded_witness:
  "decode_plain ([0, 0, 0, 12, 4, 21, 0, 0, 0, 0, 0, 0, 0, 0, 0, 0] @ [5])
    = Ok (Some ([21, 0, 0, 0, 0, 0, 0], 16))"
proof -
  have "decode_plain [0, 0, 0, 12, 4, 21, 0, 0, 0, 0, 0, 0, 0, 0, 0, 0]
      = Ok (Some ([21, 0, 0, 0, 0, 0, 0], 16))"
    by (simp add: decode_plain_def Let_def be_val_def MIN_PACKET_def MAX_PACKET_LENGTH_def MIN_PADDING_def)
  from decode_plain_bounded [OF this, of "[5]"] show ?thesis by blast
qed

end
