(* ===== verification/Version.thy ===== *)
theory Version
  imports Packet
begin

text \<open>
  The identification exchange (\<^verbatim>\<open>crates/ssh-transport/src/version.rs\<close>): finding the peer's
  \<^verbatim>\<open>SSH-2.0-\<close> line in the receive buffer, past banner lines when the client asks for them. The
  scan is a frame parser in the sense of \<open>Packet\<close>.
\<close>

definition LOCAL_ID :: bytes where
  "LOCAL_ID = str ''SSH-2.0-rust_ssh_0.1.0''"

definition MAX_LINE :: nat where
  "MAX_LINE = 255"

definition LF :: byte where "LF = 10"
definition CR :: byte where "CR = 13"

definition local_id_line :: bytes where
  "local_id_line = LOCAL_ID @ [CR, LF]"

definition starts_with :: "bytes \<Rightarrow> bytes \<Rightarrow> bool" where
  "starts_with line p = (take (length p) line = p)"

text \<open>One pass of the loop per line: \<open>start\<close> is where the current line begins. A banner line moves
  it past the line feed, so it grows until it leaves the buffer.\<close>

function parse_peer_id_from :: "bytes \<Rightarrow> bool \<Rightarrow> nat \<Rightarrow> (bytes \<times> nat) option result" where
  "parse_peer_id_from buf allow_banner start =
     (case position (\<lambda>b. b = LF) (drop start buf) of
        None \<Rightarrow>
          (if length buf - start > MAX_LINE * 64 then Err (BadVersion ''banner too long'')
           else Ok None)
      | Some rel_nl \<Rightarrow>
          (let nl = start + rel_nl in
           if nl - start + 1 > MAX_LINE then Err (BadVersion ''identification line too long'')
           else
             let line_end = (if nl > start \<and> buf ! (nl - 1) = CR then nl - 1 else nl);
                 line = take (line_end - start) (drop start buf)
             in
             if starts_with line (str ''SSH-2.0-'') \<or> starts_with line (str ''SSH-1.99-'') then
               Ok (Some (line, nl + 1))
             else if \<not> allow_banner then
               Err (BadVersion ''expected SSH identification string'')
             else parse_peer_id_from buf allow_banner (nl + 1)))"
  by pat_completeness auto
termination
  by (relation "measure (\<lambda>(buf, allow_banner, start). length buf - start)")
    (auto simp: position_Some)

declare parse_peer_id_from.simps [simp del]

definition parse_peer_id :: "bytes \<Rightarrow> bool \<Rightarrow> (bytes \<times> nat) option result" where
  "parse_peer_id buf allow_banner = parse_peer_id_from buf allow_banner 0"

section \<open>The scan is a frame parser\<close>

lemma position_extend:
  "position p xs = Some i \<Longrightarrow> position p (xs @ ys) = Some i"
  by (auto simp: position_Some nth_append)

lemma position_extend_None:
  "position p xs = None \<Longrightarrow> position p (xs @ ys) = map_option (\<lambda>i. i + length xs) (position p ys)"
  by (induction xs) (auto simp: option.map_comp option.map_ident o_def split: if_splits)

lemma drop_line: "start \<le> length buf \<Longrightarrow> position p (drop start buf) = Some rel \<Longrightarrow> start + rel < length buf"
  by (auto simp: position_Some)

lemma from_inside:
  "parse_peer_id_from buf ab start = Ok (Some (x, n)) \<Longrightarrow> start \<le> length buf \<Longrightarrow>
    start < n \<and> n \<le> length buf \<and> length x < MAX_LINE \<and>
    (starts_with x (str ''SSH-2.0-'') \<or> starts_with x (str ''SSH-1.99-''))"
proof (induction buf ab start rule: parse_peer_id_from.induct)
  case (1 buf ab start)
  show ?case
  proof (cases "position (\<lambda>b. b = LF) (drop start buf)")
    case None
    with "1.prems" show ?thesis by (simp add: parse_peer_id_from.simps [of buf ab start] split: if_splits)
  next
    case (Some rel)
    have lt: "start + rel < length buf" using drop_line "1.prems"(2) Some by blast
    show ?thesis
      using "1.prems" "1.IH" [OF Some refl _ refl refl] lt Some
      by (subst (asm) parse_peer_id_from.simps)
        (force simp: Let_def split: if_splits)
  qed
qed

lemma from_stable:
  "start \<le> length buf \<Longrightarrow>
   (parse_peer_id_from buf ab start = Ok (Some (x, n)) \<longrightarrow>
      parse_peer_id_from (buf @ ext) ab start = Ok (Some (x, n))) \<and>
   (parse_peer_id_from buf ab start = Err e \<longrightarrow>
      (\<exists>e'. parse_peer_id_from (buf @ ext) ab start = Err e')) \<and>
   \<not> crashed (parse_peer_id_from buf ab start)"
proof (induction buf ab start rule: parse_peer_id_from.induct)
  case (1 buf ab start)
  note unfold = parse_peer_id_from.simps [of buf ab start] parse_peer_id_from.simps [of "buf @ ext" ab start]
  show ?case
  proof (cases "position (\<lambda>b. b = LF) (drop start buf)")
    case None
    show ?thesis
    proof (cases "length buf - start > MAX_LINE * 64")
      case True
      then have "\<exists>e'. parse_peer_id_from (buf @ ext) ab start = Err e'"
        using None "1.prems" position_extend_None [OF None, of ext]
        by (cases "position (\<lambda>b. b = LF) ext")
          (auto simp: parse_peer_id_from.simps [of "buf @ ext" ab start] Let_def MAX_LINE_def)
      with None True show ?thesis by (simp add: parse_peer_id_from.simps [of buf ab start])
    next
      case False
      with None show ?thesis by (simp add: parse_peer_id_from.simps [of buf ab start])
    qed
  next
    case (Some rel)
    have lt: "start + rel < length buf" using drop_line "1.prems" Some by blast
    have ext: "position (\<lambda>b. b = LF) (drop start (buf @ ext)) = Some rel"
      using position_extend [OF Some, of ext] "1.prems" by simp
    have prev: "start + rel > start \<Longrightarrow> (buf @ ext) ! (start + rel - 1) = buf ! (start + rel - 1)"
    proof -
      have "start + rel - 1 < length buf" using lt by simp
      then show ?thesis by (simp add: nth_append)
    qed
    let ?le = "if start + rel > start \<and> buf ! (start + rel - 1) = CR then start + rel - 1 else start + rel"
    have le: "?le - start \<le> length (drop start buf)" using lt by auto
    have line: "take (?le - start) (drop start (buf @ ext)) = take (?le - start) (drop start buf)"
      using le "1.prems" by simp
    show ?thesis
      using "1.IH" [OF Some refl _ refl refl] lt Some ext prev line
      unfolding unfold by (auto simp: Let_def)
  qed
qed

interpretation version: frame_parser "\<lambda>buf. parse_peer_id buf allow_banner" for allow_banner
proof
  fix buf x n ext e
  show "0 < n \<and> n \<le> length buf" if "parse_peer_id buf allow_banner = Ok (Some (x, n))"
    using from_inside [of buf allow_banner 0 x n] that by (simp add: parse_peer_id_def)
  show "parse_peer_id (buf @ ext) allow_banner = Ok (Some (x, n))"
    if "parse_peer_id buf allow_banner = Ok (Some (x, n))"
    using from_stable [of 0 buf allow_banner x n ext] that by (simp add: parse_peer_id_def)
  show "\<exists>e'. parse_peer_id (buf @ ext) allow_banner = Err e'"
    if "parse_peer_id buf allow_banner = Err e"
    using from_stable [of 0 buf allow_banner _ _ ext e] that by (simp add: parse_peer_id_def)
  show "\<not> crashed (parse_peer_id buf allow_banner)"
    using from_stable [of 0 buf allow_banner] by (simp add: parse_peer_id_def)
qed

section \<open>Properties\<close>

text \<open>A banner line the client has to tolerate: at most 253 bytes, no line feed inside, not an
  identification.\<close>

definition banner_line :: "bytes \<Rightarrow> bool" where
  "banner_line l = (LF \<notin> set l \<and> CR \<notin> set l \<and> length l + 2 \<le> MAX_LINE \<and>
     \<not> starts_with l (str ''SSH-2.0-'') \<and> \<not> starts_with l (str ''SSH-1.99-''))"

definition id_line :: "bytes \<Rightarrow> bool" where
  "id_line l = (LF \<notin> set l \<and> CR \<notin> set l \<and> length l + 2 \<le> MAX_LINE \<and>
     (starts_with l (str ''SSH-2.0-'') \<or> starts_with l (str ''SSH-1.99-'')))"

definition crlf_lines :: "bytes list \<Rightarrow> bytes" where
  "crlf_lines ls = concat (map (\<lambda>l. l @ [CR, LF]) ls)"

lemma scan_line:
  assumes "LF \<notin> set l" and "CR \<notin> set l" and "length l + 2 \<le> MAX_LINE"
  shows "parse_peer_id_from (pre @ l @ CR # LF # post) ab (length pre) =
    (if starts_with l (str ''SSH-2.0-'') \<or> starts_with l (str ''SSH-1.99-'') then
       Ok (Some (l, length pre + length l + 2))
     else if \<not> ab then Err (BadVersion ''expected SSH identification string'')
     else parse_peer_id_from (pre @ l @ CR # LF # post) ab (length pre + length l + 2))"
proof -
  have "position (\<lambda>b. b = LF) ((l @ [CR]) @ LF # post) = Some (length (l @ [CR]))"
    using assms by (intro position_append_hit) (auto simp: CR_def LF_def)
  then have pos: "position (\<lambda>b. b = LF) (l @ CR # LF # post) = Some (Suc (length l))"
    by simp
  have cr: "(pre @ l @ CR # LF # post) ! (length pre + length l) = CR"
    by (simp add: nth_append)
  show ?thesis
    using assms(3) by (subst parse_peer_id_from.simps) (simp add: pos cr Let_def)
qed

lemma scan_lines:
  "\<forall>l\<in>set banners. banner_line l \<Longrightarrow> id_line ident \<Longrightarrow>
   parse_peer_id_from (pre @ crlf_lines banners @ ident @ CR # LF # rest) True (length pre)
     = Ok (Some (ident, length pre + length (crlf_lines banners) + length ident + 2))"
proof (induction banners arbitrary: pre)
  case Nil
  then show ?case using scan_line [of ident pre rest True] by (simp add: id_line_def crlf_lines_def)
next
  case (Cons l ls)
  have "parse_peer_id_from (pre @ l @ CR # LF # crlf_lines ls @ ident @ CR # LF # rest) True (length pre)
      = parse_peer_id_from ((pre @ l @ [CR, LF]) @ crlf_lines ls @ ident @ CR # LF # rest) True
          (length (pre @ l @ [CR, LF]))"
    using scan_line [of l pre "crlf_lines ls @ ident @ CR # LF # rest" True] Cons.prems
    by (simp add: banner_line_def)
  also have "\<dots> = Ok (Some (ident, length (pre @ l @ [CR, LF]) + length (crlf_lines ls) + length ident + 2))"
    using Cons.prems by (intro Cons.IH) auto
  finally show ?case by (simp add: crlf_lines_def)
qed

text \<open>Identification. A client finds the server's identification behind any number of banner lines
  and consumes the buffer exactly up to the end of that line, keeping the bytes without CR LF for
  the exchange hash; a server accepts the line only as the very first one and rejects a buffer
  that starts with any other complete line.\<close>

theorem peer_id_found:
  assumes "\<forall>l\<in>set banners. banner_line l" and "id_line ident"
  shows "parse_peer_id (crlf_lines banners @ ident @ [CR, LF] @ rest) True
      = Ok (Some (ident, length (crlf_lines banners) + length ident + 2)) \<and>
    parse_peer_id (crlf_lines banners @ ident @ [CR, LF] @ rest) False
      = (if banners = [] then Ok (Some (ident, length ident + 2))
         else Err (BadVersion ''expected SSH identification string''))"
proof (cases banners)
  case Nil
  then show ?thesis
    using assms(2) scan_line [of ident "[]" rest False] scan_line [of ident "[]" rest True]
    by (simp add: parse_peer_id_def id_line_def crlf_lines_def)
next
  case (Cons l ls)
  then show ?thesis
    using scan_lines [OF assms, of "[]" rest] assms(1)
      scan_line [of l "[]" "crlf_lines ls @ ident @ CR # LF # rest" False]
    by (simp add: parse_peer_id_def banner_line_def crlf_lines_def)
qed

theorem peer_id_found_witness:
  "parse_peer_id (crlf_lines [str ''hello''] @ LOCAL_ID @ [CR, LF] @ [1]) True = Ok (Some (LOCAL_ID, 31))"
proof -
  have "\<forall>l\<in>set [str ''hello'']. banner_line l"
    by (simp add: banner_line_def str_def LF_def CR_def MAX_LINE_def starts_with_def)
  moreover have "id_line LOCAL_ID"
    by (simp add: id_line_def LOCAL_ID_def str_def LF_def CR_def MAX_LINE_def starts_with_def)
  ultimately show ?thesis
    using peer_id_found [of "[str ''hello'']" LOCAL_ID "[1]"] by (simp add: crlf_lines_def LOCAL_ID_def)
qed

text \<open>Bounded identification. Whatever the buffer holds, an accepted identification is a line of
  fewer than 255 bytes that starts with \<^verbatim>\<open>SSH-2.0-\<close> or \<^verbatim>\<open>SSH-1.99-\<close> and lies inside the buffer,
  later bytes never change it, and the scan always returns (it neither panics nor loops).\<close>

theorem peer_id_bounded:
  "\<not> crashed (parse_peer_id buf ab) \<and>
   (parse_peer_id buf ab = Ok (Some (ident, n)) \<longrightarrow>
      0 < n \<and> n \<le> length buf \<and> length ident < MAX_LINE \<and>
      (starts_with ident (str ''SSH-2.0-'') \<or> starts_with ident (str ''SSH-1.99-'')) \<and>
      parse_peer_id (buf @ ext) ab = Ok (Some (ident, n)))"
  using version.calm [of buf ab] version.inside [of buf ab] version.stable [of buf ab ident n ext]
    from_inside [of buf ab 0 ident n]
  by (auto simp: parse_peer_id_def)

theorem peer_id_bounded_witness:
  "parse_peer_id (local_id_line @ [42]) False = Ok (Some (LOCAL_ID, 24))"
proof -
  have "id_line LOCAL_ID"
    by (simp add: id_line_def LOCAL_ID_def str_def LF_def CR_def MAX_LINE_def starts_with_def)
  then have "parse_peer_id local_id_line False = Ok (Some (LOCAL_ID, 24))"
    using scan_line [of LOCAL_ID "[]" "[]" False]
    by (simp add: parse_peer_id_def local_id_line_def id_line_def) (simp add: LOCAL_ID_def)
  then show ?thesis using peer_id_bounded [of local_id_line False LOCAL_ID 24 "[42]"] by blast
qed

end
