(* ===== verification/Algo.thy ===== *)
theory Algo
  imports Version
begin

text \<open>
  Algorithm negotiation and the KEXINIT message (\<^verbatim>\<open>crates/ssh-transport/src/algo.rs\<close>). The cargo
  feature \<^verbatim>\<open>sntrup761\<close> that adds a key-exchange name is the boolean argument \<open>sntrup\<close>; the cookie
  (SHAKE-128 of an RNG draw, both outside the repository) is the argument \<open>cookie\<close> of \<open>ours_with\<close>,
  computed by the transport.
\<close>

definition KEX_CURVE25519 :: bytes where "KEX_CURVE25519 = str ''curve25519-sha256''"
definition KEX_CURVE25519_LIBSSH :: bytes where
  "KEX_CURVE25519_LIBSSH = str ''curve25519-sha256@libssh.org''"
definition KEX_MLKEM768_X25519 :: bytes where
  "KEX_MLKEM768_X25519 = str ''mlkem768x25519-sha256''"
definition KEX_SNTRUP761_X25519 :: bytes where
  "KEX_SNTRUP761_X25519 = str ''sntrup761x25519-sha512@openssh.com''"
definition HOSTKEY_ED25519 :: bytes where "HOSTKEY_ED25519 = str ''ssh-ed25519''"
definition CIPHER_CHACHA20_POLY1305 :: bytes where
  "CIPHER_CHACHA20_POLY1305 = str ''chacha20-poly1305@openssh.com''"
definition CIPHER_AES256_GCM :: bytes where "CIPHER_AES256_GCM = str ''aes256-gcm@openssh.com''"
definition COMPRESSION_NONE :: bytes where "COMPRESSION_NONE = str ''none''"
definition COMPRESSION_ZLIB_OPENSSH :: bytes where
  "COMPRESSION_ZLIB_OPENSSH = str ''zlib@openssh.com''"
definition KEX_STRICT_CLIENT :: bytes where
  "KEX_STRICT_CLIENT = str ''kex-strict-c-v00@openssh.com''"
definition KEX_STRICT_SERVER :: bytes where
  "KEX_STRICT_SERVER = str ''kex-strict-s-v00@openssh.com''"

definition KEX_ALGORITHMS :: "bool \<Rightarrow> bytes list" where
  "KEX_ALGORITHMS sntrup =
     (if sntrup then
        [KEX_MLKEM768_X25519, KEX_SNTRUP761_X25519, KEX_CURVE25519, KEX_CURVE25519_LIBSSH]
      else [KEX_MLKEM768_X25519, KEX_CURVE25519, KEX_CURVE25519_LIBSSH])"

definition HOSTKEY_ALGORITHMS :: "bytes list" where "HOSTKEY_ALGORITHMS = [HOSTKEY_ED25519]"
definition CIPHERS :: "bytes list" where
  "CIPHERS = [CIPHER_CHACHA20_POLY1305, CIPHER_AES256_GCM]"
definition MACS :: "bytes list" where "MACS = [str ''hmac-sha2-256'']"
definition COMPRESSIONS :: "bytes list" where
  "COMPRESSIONS = [COMPRESSION_NONE, COMPRESSION_ZLIB_OPENSSH]"

lemmas algo_names = KEX_CURVE25519_def KEX_CURVE25519_LIBSSH_def KEX_MLKEM768_X25519_def
  KEX_SNTRUP761_X25519_def HOSTKEY_ED25519_def CIPHER_CHACHA20_POLY1305_def CIPHER_AES256_GCM_def
  COMPRESSION_NONE_def COMPRESSION_ZLIB_OPENSSH_def KEX_STRICT_CLIENT_def KEX_STRICT_SERVER_def

record kexinit =
  ki_payload :: bytes
  ki_kex :: "bytes list"
  ki_host_key :: "bytes list"
  ki_cipher_c2s :: "bytes list"
  ki_cipher_s2c :: "bytes list"
  ki_comp_c2s :: "bytes list"
  ki_comp_s2c :: "bytes list"
  ki_first_kex_packet_follows :: bool

record negotiated =
  n_kex :: bytes
  n_host_key :: bytes
  n_cipher_c2s :: bytes
  n_cipher_s2c :: bytes
  n_comp_c2s :: bytes
  n_comp_s2c :: bytes

definition ours_with :: "bool \<Rightarrow> bytes \<Rightarrow> bool \<Rightarrow> bytes list \<Rightarrow> bytes list \<Rightarrow> kexinit" where
  "ours_with sntrup cookie is_server ciphers compressions =
     (let kex_algorithms = KEX_ALGORITHMS sntrup @ [if is_server then KEX_STRICT_SERVER else KEX_STRICT_CLIENT];
          w = writer_new;
          w = w_u8 w msg_KEXINIT;
          w = w_raw w cookie;
          w = w_name_list w kex_algorithms;
          w = w_name_list w HOSTKEY_ALGORITHMS;
          w = w_name_list w ciphers;
          w = w_name_list w ciphers;
          w = w_name_list w MACS;
          w = w_name_list w MACS;
          w = w_name_list w compressions;
          w = w_name_list w compressions;
          w = w_name_list w [];
          w = w_name_list w [];
          w = w_boolean w False;
          w = w_u32 w 0
      in \<lparr>ki_payload = w, ki_kex = kex_algorithms, ki_host_key = HOSTKEY_ALGORITHMS,
          ki_cipher_c2s = ciphers, ki_cipher_s2c = ciphers,
          ki_comp_c2s = compressions, ki_comp_s2c = compressions,
          ki_first_kex_packet_follows = False\<rparr>)"

fun r_take_cookie :: "nat \<Rightarrow> reader \<Rightarrow> (bytes \<times> reader) result" where
  "r_take_cookie 0 r = Ok ([], r)"
| "r_take_cookie (Suc n) r =
     rbind (r_u8 r) (\<lambda>(b, r). rbind (r_take_cookie n r) (\<lambda>(bs, r). Ok (b # bs, r)))"

definition r_take16 :: "reader \<Rightarrow> (bytes \<times> reader) result" where
  "r_take16 r = r_take_cookie 16 r"

definition kexinit_parse :: "bytes \<Rightarrow> kexinit result" where
  "kexinit_parse payload =
     rbind (r_u8 (reader_new payload)) (\<lambda>(id, r).
     if id \<noteq> msg_KEXINIT then Err (Protocol ''expected SSH_MSG_KEXINIT'')
     else
       rbind (r_take16 r) (\<lambda>(_, r).
       rbind (r_name_list r) (\<lambda>(kex, r).
       rbind (r_name_list r) (\<lambda>(host_key, r).
       rbind (r_name_list r) (\<lambda>(cipher_c2s, r).
       rbind (r_name_list r) (\<lambda>(cipher_s2c, r).
       rbind (r_name_list r) (\<lambda>(_, r).
       rbind (r_name_list r) (\<lambda>(_, r).
       rbind (r_name_list r) (\<lambda>(comp_c2s, r).
       rbind (r_name_list r) (\<lambda>(comp_s2c, r).
       rbind (r_name_list r) (\<lambda>(_, r).
       rbind (r_name_list r) (\<lambda>(_, r).
       rbind (r_boolean r) (\<lambda>(follows, r).
       rbind (r_u32 r) (\<lambda>(_, r).
         Ok \<lparr>ki_payload = payload, ki_kex = kex, ki_host_key = host_key,
             ki_cipher_c2s = cipher_c2s, ki_cipher_s2c = cipher_s2c,
             ki_comp_c2s = comp_c2s, ki_comp_s2c = comp_s2c,
             ki_first_kex_packet_follows = follows\<rparr>))))))))))))))"

definition pick :: "bytes list \<Rightarrow> bytes list \<Rightarrow> string \<Rightarrow> bytes result" where
  "pick client server slot =
     ok_or (find (\<lambda>c. list_ex (\<lambda>s. s = c) server) client) (NoCommonAlgorithm slot)"

definition negotiate :: "kexinit \<Rightarrow> kexinit \<Rightarrow> negotiated result" where
  "negotiate client server =
     rbind (pick (ki_kex client) (ki_kex server) ''kex'') (\<lambda>kex.
     rbind (pick (ki_host_key client) (ki_host_key server) ''host key'') (\<lambda>host_key.
     rbind (pick (ki_cipher_c2s client) (ki_cipher_c2s server) ''cipher c2s'') (\<lambda>cipher_c2s.
     rbind (pick (ki_cipher_s2c client) (ki_cipher_s2c server) ''cipher s2c'') (\<lambda>cipher_s2c.
     rbind (pick (ki_comp_c2s client) (ki_comp_c2s server) ''compression c2s'') (\<lambda>comp_c2s.
     rbind (pick (ki_comp_s2c client) (ki_comp_s2c server) ''compression s2c'') (\<lambda>comp_s2c.
       Ok \<lparr>n_kex = kex, n_host_key = host_key, n_cipher_c2s = cipher_c2s,
           n_cipher_s2c = cipher_s2c, n_comp_c2s = comp_c2s, n_comp_s2c = comp_s2c\<rparr>))))))"

section \<open>Lemmas\<close>

lemma r_take_cookie_rd [codec]:
  "length pre + length c < 2 ^ 64 \<Longrightarrow>
    r_take_cookie (length c) (rd pre (c @ rest)) = Ok (c, rd (pre @ c) rest)"
proof (induction c arbitrary: pre)
  case (Cons x xs)
  then show ?case using Cons.IH [of "pre @ [x]"] by (simp add: r_u8_rd)
qed simp

lemma not_crashed_r_take_cookie [simp]: "\<not> crashed (r_take_cookie n r)"
  by (induction n arbitrary: r) (auto simp: crashed_rbind split: prod.splits)

lemma not_crashed_kexinit_parse [simp]: "\<not> crashed (kexinit_parse payload)"
  unfolding kexinit_parse_def r_take16_def
  by (simp add: crashed_rbind split_def)

text \<open>\<open>first_common client server c\<close>: \<open>c\<close> is the first name of the client's list that the server's
  list also has (RFC 4253, section 7.1).\<close>

definition first_common :: "bytes list \<Rightarrow> bytes list \<Rightarrow> bytes \<Rightarrow> bool" where
  "first_common client server c =
     (\<exists>i<length client. client ! i = c \<and> c \<in> set server \<and> (\<forall>j<i. client ! j \<notin> set server))"

lemma pick_Ok: "pick client server slot = Ok c \<longleftrightarrow> first_common client server c"
proof -
  have "pick client server slot = Ok c \<longleftrightarrow> find (\<lambda>c. list_ex (\<lambda>s. s = c) server) client = Some c"
    by (simp add: pick_def ok_or_def split: option.splits)
  then show ?thesis
    by (auto simp: find_Some_iff list_ex_iff first_common_def)
qed

lemma pick_Err:
  "pick client server slot = Err e \<longleftrightarrow> set client \<inter> set server = {} \<and> e = NoCommonAlgorithm slot"
  unfolding pick_def
  by (auto simp: ok_or_def find_None_iff find_Some_iff list_ex_iff split: option.splits) force+

lemma not_crashed_pick [simp]: "\<not> crashed (pick client server slot)"
  by (simp add: pick_def)

lemma not_crashed_negotiate [simp]: "\<not> crashed (negotiate client server)"
  by (simp add: negotiate_def crashed_rbind)

lemma first_common_total: "(\<exists>c. first_common client server c) \<longleftrightarrow> set client \<inter> set server \<noteq> {}"
  unfolding pick_Ok [symmetric, where slot = "[]"]
  using pick_Err [of client server "[]"] not_crashed_pick [of client server "[]"]
  by (cases "pick client server []") (auto simp: crashed_def)

lemma cookie_read [codec]:
  "length pre + 16 < 2 ^ 64 \<Longrightarrow> length c = 16 \<Longrightarrow> r_take16 (rd pre (c @ rest)) = Ok (c, rd (pre @ c) rest)"
  using r_take_cookie_rd [of pre c rest] by (simp add: r_take16_def)

lemma kexinit_lists_ok [simp]:
  "name_list_ok (KEX_ALGORITHMS sntrup @ [KEX_STRICT_SERVER])"
  "name_list_ok (KEX_ALGORITHMS sntrup @ [KEX_STRICT_CLIENT])"
  "name_list_ok HOSTKEY_ALGORITHMS" "name_list_ok MACS" "name_list_ok []"
  "name_list_ok CIPHERS" "name_list_ok COMPRESSIONS"
  by (simp_all add: name_list_ok_def KEX_ALGORITHMS_def HOSTKEY_ALGORITHMS_def MACS_def CIPHERS_def
      COMPRESSIONS_def algo_names str_def comma_def MAX_NAME_LIST_ENTRIES_def fits32_def)

lemma kexinit_lists_short:
  "length (join_with comma (KEX_ALGORITHMS sntrup @ [KEX_STRICT_SERVER])) < 200"
  "length (join_with comma (KEX_ALGORITHMS sntrup @ [KEX_STRICT_CLIENT])) < 200"
  "length (join_with comma HOSTKEY_ALGORITHMS) < 200" "length (join_with comma MACS) < 200"
  by (simp_all add: length_join_with KEX_ALGORITHMS_def HOSTKEY_ALGORITHMS_def MACS_def algo_names)

lemma ours_with_lists [simp]:
  "ki_kex (ours_with sntrup cookie is_server ciphers compressions) =
     KEX_ALGORITHMS sntrup @ [if is_server then KEX_STRICT_SERVER else KEX_STRICT_CLIENT]"
  "ki_host_key (ours_with sntrup cookie is_server ciphers compressions) = HOSTKEY_ALGORITHMS"
  "ki_cipher_c2s (ours_with sntrup cookie is_server ciphers compressions) = ciphers"
  "ki_cipher_s2c (ours_with sntrup cookie is_server ciphers compressions) = ciphers"
  "ki_comp_c2s (ours_with sntrup cookie is_server ciphers compressions) = compressions"
  "ki_comp_s2c (ours_with sntrup cookie is_server ciphers compressions) = compressions"
  "ki_first_kex_packet_follows (ours_with sntrup cookie is_server ciphers compressions) = False"
  by (simp_all add: ours_with_def Let_def)

lemma kexinit_payload:
  "ki_payload (ours_with sntrup cookie is_server ciphers compressions) =
     msg_KEXINIT # cookie
     @ name_list_enc (KEX_ALGORITHMS sntrup @ [if is_server then KEX_STRICT_SERVER else KEX_STRICT_CLIENT])
     @ name_list_enc HOSTKEY_ALGORITHMS @ name_list_enc ciphers @ name_list_enc ciphers
     @ name_list_enc MACS @ name_list_enc MACS
     @ name_list_enc compressions @ name_list_enc compressions
     @ name_list_enc [] @ name_list_enc [] @ 0 # u32_be 0"
  by (simp add: ours_with_def Let_def writer_simps)

section \<open>Properties\<close>

text \<open>KEXINIT round trip. The KEXINIT either role builds, with any 16-byte cookie and any offer the
  wire format can carry, parses at the peer to exactly the lists it was built from, and the parsed
  message keeps the payload bytes verbatim, as the exchange hash needs.\<close>

theorem kexinit_roundtrip:
  assumes "length cookie = 16" and ok: "name_list_ok ciphers" "name_list_ok compressions"
  shows "kexinit_parse (ki_payload (ours_with sntrup cookie is_server ciphers compressions))
    = Ok (ours_with sntrup cookie is_server ciphers compressions)"
proof -
  let ?k = "ours_with sntrup cookie is_server ciphers compressions"
  define kex where "kex = KEX_ALGORITHMS sntrup @ [if is_server then KEX_STRICT_SERVER else KEX_STRICT_CLIENT]"
  have kex: "name_list_ok kex" "length (join_with comma kex) < 200" by (simp_all add: kex_def kexinit_lists_short)
  have short: "length (join_with comma ciphers) < 2 ^ 32" "length (join_with comma compressions) < 2 ^ 32"
    using ok by (simp_all add: name_list_ok_def fits32_def)
  have k: "?k = \<lparr>ki_payload = ki_payload ?k, ki_kex = kex, ki_host_key = HOSTKEY_ALGORITHMS,
      ki_cipher_c2s = ciphers, ki_cipher_s2c = ciphers, ki_comp_c2s = compressions,
      ki_comp_s2c = compressions, ki_first_kex_packet_follows = False\<rparr>"
    by (simp add: ours_with_def Let_def kex_def)
  note payload = kexinit_payload [of sntrup cookie is_server ciphers compressions, folded kex_def]
  have "kexinit_parse (ki_payload ?k) = Ok \<lparr>ki_payload = ki_payload ?k, ki_kex = kex,
      ki_host_key = HOSTKEY_ALGORITHMS, ki_cipher_c2s = ciphers, ki_cipher_s2c = ciphers,
      ki_comp_c2s = compressions, ki_comp_s2c = compressions, ki_first_kex_packet_follows = False\<rparr>"
    unfolding kexinit_parse_def payload
    using assms kex short kexinit_lists_short(3,4)
    by (simp add: codec r_u32_rd [where rest = "[]", simplified])
  then show ?thesis using k by simp
qed

theorem kexinit_roundtrip_witness:
  "kexinit_parse (ki_payload (ours_with False (replicate 16 7) True CIPHERS COMPRESSIONS))
    = Ok (ours_with False (replicate 16 7) True CIPHERS COMPRESSIONS)"
  by (rule kexinit_roundtrip) simp_all

text \<open>Negotiation. It succeeds exactly when the two offers share a name in each of the six slots,
  each selected name is the first one of the client's list that the server also offers, and a slot
  without a common name is an error, never a panic.\<close>

theorem negotiate_correct:
  "(negotiate client server = Ok n \<longleftrightarrow>
      first_common (ki_kex client) (ki_kex server) (n_kex n) \<and>
      first_common (ki_host_key client) (ki_host_key server) (n_host_key n) \<and>
      first_common (ki_cipher_c2s client) (ki_cipher_c2s server) (n_cipher_c2s n) \<and>
      first_common (ki_cipher_s2c client) (ki_cipher_s2c server) (n_cipher_s2c n) \<and>
      first_common (ki_comp_c2s client) (ki_comp_c2s server) (n_comp_c2s n) \<and>
      first_common (ki_comp_s2c client) (ki_comp_s2c server) (n_comp_s2c n)) \<and>
   ((\<exists>n. negotiate client server = Ok n) \<longleftrightarrow>
      set (ki_kex client) \<inter> set (ki_kex server) \<noteq> {} \<and>
      set (ki_host_key client) \<inter> set (ki_host_key server) \<noteq> {} \<and>
      set (ki_cipher_c2s client) \<inter> set (ki_cipher_c2s server) \<noteq> {} \<and>
      set (ki_cipher_s2c client) \<inter> set (ki_cipher_s2c server) \<noteq> {} \<and>
      set (ki_comp_c2s client) \<inter> set (ki_comp_c2s server) \<noteq> {} \<and>
      set (ki_comp_s2c client) \<inter> set (ki_comp_s2c server) \<noteq> {}) \<and>
   \<not> crashed (negotiate client server)"
proof (intro conjI)
  have iff: "negotiate client server = Ok n \<longleftrightarrow>
      pick (ki_kex client) (ki_kex server) ''kex'' = Ok (n_kex n) \<and>
      pick (ki_host_key client) (ki_host_key server) ''host key'' = Ok (n_host_key n) \<and>
      pick (ki_cipher_c2s client) (ki_cipher_c2s server) ''cipher c2s'' = Ok (n_cipher_c2s n) \<and>
      pick (ki_cipher_s2c client) (ki_cipher_s2c server) ''cipher s2c'' = Ok (n_cipher_s2c n) \<and>
      pick (ki_comp_c2s client) (ki_comp_c2s server) ''compression c2s'' = Ok (n_comp_c2s n) \<and>
      pick (ki_comp_s2c client) (ki_comp_s2c server) ''compression s2c'' = Ok (n_comp_s2c n)" for n
    unfolding negotiate_def rbind_Ok_iff by (cases n) auto
  show "negotiate client server = Ok n \<longleftrightarrow>
      first_common (ki_kex client) (ki_kex server) (n_kex n) \<and>
      first_common (ki_host_key client) (ki_host_key server) (n_host_key n) \<and>
      first_common (ki_cipher_c2s client) (ki_cipher_c2s server) (n_cipher_c2s n) \<and>
      first_common (ki_cipher_s2c client) (ki_cipher_s2c server) (n_cipher_s2c n) \<and>
      first_common (ki_comp_c2s client) (ki_comp_c2s server) (n_comp_c2s n) \<and>
      first_common (ki_comp_s2c client) (ki_comp_s2c server) (n_comp_s2c n)"
    unfolding iff pick_Ok ..
  show "(\<exists>n. negotiate client server = Ok n) \<longleftrightarrow>
      set (ki_kex client) \<inter> set (ki_kex server) \<noteq> {} \<and>
      set (ki_host_key client) \<inter> set (ki_host_key server) \<noteq> {} \<and>
      set (ki_cipher_c2s client) \<inter> set (ki_cipher_c2s server) \<noteq> {} \<and>
      set (ki_cipher_s2c client) \<inter> set (ki_cipher_s2c server) \<noteq> {} \<and>
      set (ki_comp_c2s client) \<inter> set (ki_comp_c2s server) \<noteq> {} \<and>
      set (ki_comp_s2c client) \<inter> set (ki_comp_s2c server) \<noteq> {}"
    unfolding negotiate_def rbind_Ok_iff pick_Ok first_common_total [symmetric] by blast
  show "\<not> crashed (negotiate client server)" by simp
qed

end
