(* ===== verification/Crypto.thy ===== *)
theory Crypto
  imports Algo
begin

text \<open>
  The code outside the repository the protocol engine calls: the random generator, the digests, the
  two packet ciphers' primitives, X25519, ed25519, ML-KEM-768, sntrup761 and zlib. Each is a field of
  the record \<open>prims\<close>, an argument \<open>P\<close> of every definition that uses one; \<open>'r\<close> is the generator's
  state and \<open>'z\<close> the state of a zlib stream. What the engine relies on is stated as named predicates
  (\<open>sizes_ok\<close>: the fixed sizes the crates' array types enforce, and so on), which are hypotheses of
  the theorems that need them. \<open>sample_prims\<close> is a concrete record that satisfies them all.
\<close>

datatype zstatus = ZOk | ZBufError | ZStreamEnd

record ('r, 'z) prims =
  feature_sntrup761 :: bool
  fill_bytes :: "nat \<Rightarrow> 'r \<Rightarrow> bytes \<times> 'r"
  next_u32 :: "'r \<Rightarrow> u32 \<times> 'r"
  sha256 :: "bytes \<Rightarrow> bytes"
  sha512 :: "bytes \<Rightarrow> bytes"
  shake128 :: "bytes \<Rightarrow> nat \<Rightarrow> bytes"
  chacha20 :: "bytes \<Rightarrow> bytes \<Rightarrow> nat \<Rightarrow> byte"
  poly1305 :: "bytes \<Rightarrow> bytes \<Rightarrow> bytes"
  gcm_encrypt :: "bytes \<Rightarrow> bytes \<Rightarrow> bytes \<Rightarrow> bytes \<Rightarrow> (bytes \<times> bytes) option"
  gcm_decrypt :: "bytes \<Rightarrow> bytes \<Rightarrow> bytes \<Rightarrow> bytes \<Rightarrow> bytes \<Rightarrow> bytes option"
  x25519_random :: "'r \<Rightarrow> bytes \<times> 'r"
  x25519_public :: "bytes \<Rightarrow> bytes"
  x25519_dh :: "bytes \<Rightarrow> bytes \<Rightarrow> bytes"
  x25519_contributory :: "bytes \<Rightarrow> bool"
  ed25519_generate :: "'r \<Rightarrow> bytes \<times> 'r"
  ed25519_public :: "bytes \<Rightarrow> bytes"
  ed25519_valid :: "bytes \<Rightarrow> bool"
  ed25519_sign :: "bytes \<Rightarrow> bytes \<Rightarrow> bytes"
  ed25519_verify_strict :: "bytes \<Rightarrow> bytes \<Rightarrow> bytes \<Rightarrow> bool"
  mlkem_from_seed :: "bytes \<Rightarrow> bytes"
  mlkem_encapsulation_key :: "bytes \<Rightarrow> bytes"
  mlkem_ek_valid :: "bytes \<Rightarrow> bool"
  mlkem_encapsulate :: "bytes \<Rightarrow> bytes \<Rightarrow> bytes \<times> bytes"
  mlkem_decapsulate :: "bytes \<Rightarrow> bytes \<Rightarrow> bytes"
  sntrup_keypair :: "bytes \<Rightarrow> bytes \<times> bytes"
  sntrup_encapsulate :: "bytes \<Rightarrow> bytes \<Rightarrow> bytes \<times> bytes"
  sntrup_decapsulate :: "bytes \<Rightarrow> bytes \<Rightarrow> bytes"
  deflate_new :: 'z
  inflate_new :: 'z
  total_in :: "'z \<Rightarrow> nat"
  total_out :: "'z \<Rightarrow> nat"
  deflate :: "'z \<Rightarrow> bytes \<Rightarrow> nat \<Rightarrow> (bytes \<times> 'z) option"
  inflate :: "'z \<Rightarrow> bytes \<Rightarrow> nat \<Rightarrow> (zstatus \<times> bytes \<times> 'z) option"

text \<open>
  \<open>chacha20 key nonce i\<close> is byte \<open>i\<close> of the keystream (ChaCha20 with a 64-bit nonce).
  \<open>gcm_encrypt key iv aad plain\<close> gives the ciphertext and the tag, \<open>gcm_decrypt key iv aad ct tag\<close>
  the plaintext. \<open>x25519_random\<close> draws an ephemeral secret. \<open>deflate z input room\<close> and
  \<open>inflate z input room\<close> are one call with a sync flush and \<open>room\<close> bytes of spare output: the bytes
  appended and the new stream (\<^verbatim>\<open>None\<close> is the error the crate returns).
\<close>

section \<open>What the engine relies on\<close>

definition sizes_ok :: "('r, 'z) prims \<Rightarrow> bool" where
  "sizes_ok P \<longleftrightarrow>
     (\<forall>n r. length (fst (fill_bytes P n r)) = n) \<and>
     (\<forall>bs. length (sha256 P bs) = 32) \<and> (\<forall>bs. length (sha512 P bs) = 64) \<and>
     (\<forall>bs n. length (shake128 P bs n) = n) \<and>
     (\<forall>k bs. length (poly1305 P k bs) = 16) \<and>
     (\<forall>k iv aad m c t. gcm_encrypt P k iv aad m = Some (c, t) \<longrightarrow> length c = length m \<and> length t = 16) \<and>
     (\<forall>k iv aad c t m. gcm_decrypt P k iv aad c t = Some m \<longrightarrow> length m = length c) \<and>
     (\<forall>s. length (x25519_public P s) = 32) \<and> (\<forall>s q. length (x25519_dh P s q) = 32) \<and>
     (\<forall>sk. length (ed25519_public P sk) = 32) \<and> (\<forall>sk m. length (ed25519_sign P sk m) = 64) \<and>
     (\<forall>s. length (mlkem_encapsulation_key P (mlkem_from_seed P s)) = 1184) \<and>
     (\<forall>ek m. length (fst (mlkem_encapsulate P ek m)) = 1088) \<and>
     (\<forall>s. length (fst (sntrup_keypair P s)) = 1158) \<and>
     (\<forall>ek s. length (fst (sntrup_encapsulate P ek s)) = 1039)"

text \<open>AES-GCM encrypts every message below \<open>2 ^ 36 - 32\<close> bytes (NIST SP 800-38D), which a packet always is.\<close>

definition gcm_total :: "('r, 'z) prims \<Rightarrow> bool" where
  "gcm_total P \<longleftrightarrow> (\<forall>k iv aad m. length m < 2 ^ 36 \<longrightarrow> gcm_encrypt P k iv aad m \<noteq> None)"

text \<open>Decrypting with the same key, nonce and associated data gives back what was encrypted.\<close>

definition gcm_correct :: "('r, 'z) prims \<Rightarrow> bool" where
  "gcm_correct P \<longleftrightarrow>
     (\<forall>k iv aad m c t. gcm_encrypt P k iv aad m = Some (c, t) \<longrightarrow> gcm_decrypt P k iv aad c t = Some m)"

definition dh_correct :: "('r, 'z) prims \<Rightarrow> bool" where
  "dh_correct P \<longleftrightarrow>
     (\<forall>a b. x25519_dh P a (x25519_public P b) = x25519_dh P b (x25519_public P a))"

definition ed25519_correct :: "('r, 'z) prims \<Rightarrow> bool" where
  "ed25519_correct P \<longleftrightarrow>
     (\<forall>sk. ed25519_valid P (ed25519_public P sk)) \<and>
     (\<forall>sk m. ed25519_verify_strict P (ed25519_public P sk) m (ed25519_sign P sk m))"

definition kem_correct :: "('r, 'z) prims \<Rightarrow> bool" where
  "kem_correct P \<longleftrightarrow>
     (\<forall>s. mlkem_ek_valid P (mlkem_encapsulation_key P (mlkem_from_seed P s))) \<and>
     (\<forall>s m. mlkem_decapsulate P (mlkem_from_seed P s)
         (fst (mlkem_encapsulate P (mlkem_encapsulation_key P (mlkem_from_seed P s)) m))
       = snd (mlkem_encapsulate P (mlkem_encapsulation_key P (mlkem_from_seed P s)) m)) \<and>
     (\<forall>s e. sntrup_decapsulate P (snd (sntrup_keypair P s))
         (fst (sntrup_encapsulate P (fst (sntrup_keypair P s)) e))
       = snd (sntrup_encapsulate P (fst (sntrup_keypair P s)) e))"

text \<open>
  One zlib call: it consumes a prefix of its input, writes at most the room it was given, and its
  running totals count both. Inflate with input and room left makes progress, ends the stream or
  fails. Deflate never fails on memory buffers, and calling it again while it fills all its room or
  leaves input (as its documentation asks for) completes the flush: the output of one message stays
  within twice its size and the megabyte that bounds zlib's internal buffers.
\<close>

definition zlib_counts :: "('r, 'z) prims \<Rightarrow> bool" where
  "zlib_counts P \<longleftrightarrow>
     (\<forall>z input room out z'. deflate P z input room = Some (out, z') \<longrightarrow>
        length out \<le> room \<and> total_out P z' = total_out P z + length out \<and>
        total_in P z \<le> total_in P z' \<and> total_in P z' \<le> total_in P z + length input) \<and>
     (\<forall>z input room st out z'. inflate P z input room = Some (st, out, z') \<longrightarrow>
        length out \<le> room \<and> total_out P z' = total_out P z + length out \<and>
        total_in P z \<le> total_in P z' \<and> total_in P z' \<le> total_in P z + length input)"

definition inflate_progress :: "('r, 'z) prims \<Rightarrow> bool" where
  "inflate_progress P \<longleftrightarrow>
     (\<forall>z input room st out z'. inflate P z input room = Some (st, out, z') \<longrightarrow>
        input \<noteq> [] \<longrightarrow> room > 0 \<longrightarrow> st \<noteq> ZStreamEnd \<longrightarrow>
        out \<noteq> [] \<or> total_in P z' \<noteq> total_in P z)"

definition deflate_total :: "('r, 'z) prims \<Rightarrow> bool" where
  "deflate_total P \<longleftrightarrow> (\<forall>z input room. deflate P z input room \<noteq> None)"

text \<open>\<open>deflate_run P z input out z'\<close>: unfinished calls of \<open>deflate\<close> on what is left of \<open>input\<close> lead from
  \<open>z\<close> to \<open>z'\<close> and append \<open>out\<close> in all.\<close>

inductive deflate_run :: "('r, 'z) prims \<Rightarrow> 'z \<Rightarrow> bytes \<Rightarrow> bytes \<Rightarrow> 'z \<Rightarrow> bool"
  for P :: "('r, 'z) prims" where
  run_stop: "deflate_run P z input [] z"
| run_step: "deflate P z input room = Some (out, z') \<Longrightarrow>
    length out = room \<or> total_in P z' < total_in P z + length input \<Longrightarrow>
    deflate_run P z' (drop (total_in P z' - total_in P z) input) rest z'' \<Longrightarrow>
    deflate_run P z input (out @ rest) z''"

definition deflate_bounded :: "('r, 'z) prims \<Rightarrow> bool" where
  "deflate_bounded P \<longleftrightarrow>
     (\<forall>z input out z'. deflate_run P z input out z' \<longrightarrow> length out \<le> 2 * length input + 2 ^ 20)"

text \<open>The laws the transport needs to run without a panic, and those for two peers to agree.\<close>

definition prims_safe :: "('r, 'z) prims \<Rightarrow> bool" where
  "prims_safe P \<longleftrightarrow> sizes_ok P \<and> gcm_total P \<and> zlib_counts P \<and> inflate_progress P \<and>
     deflate_total P \<and> deflate_bounded P"

definition prims_correct :: "('r, 'z) prims \<Rightarrow> bool" where
  "prims_correct P \<longleftrightarrow> sizes_ok P \<and> gcm_correct P \<and> dh_correct P \<and> ed25519_correct P \<and> kem_correct P"

section \<open>A concrete instance\<close>

definition padded :: "nat \<Rightarrow> bytes \<Rightarrow> bytes" where
  "padded n bs = take n bs @ replicate (n - length bs) 0"

definition sample_prims :: "(nat, nat) prims" where
  "sample_prims = \<lparr>
     feature_sntrup761 = True,
     fill_bytes = (\<lambda>n r. (replicate n (of_nat r), Suc r)),
     next_u32 = (\<lambda>r. (of_nat r, Suc r)),
     sha256 = padded 32,
     sha512 = padded 64,
     shake128 = (\<lambda>bs n. padded n bs),
     chacha20 = (\<lambda>k n i. (if k = [] then 0 else hd k) + of_nat i),
     poly1305 = (\<lambda>k bs. padded 16 (k @ bs)),
     gcm_encrypt = (\<lambda>k iv aad m. Some (m, padded 16 iv)),
     gcm_decrypt = (\<lambda>k iv aad c t. if t = padded 16 iv then Some c else None),
     x25519_random = (\<lambda>r. (replicate 32 (of_nat r), Suc r)),
     x25519_public = padded 32,
     x25519_dh = (\<lambda>s q. map2 (+) (padded 32 s) (padded 32 q)),
     x25519_contributory = (\<lambda>k. True),
     ed25519_generate = (\<lambda>r. (replicate 32 (of_nat r), Suc r)),
     ed25519_public = padded 32,
     ed25519_valid = (\<lambda>k. True),
     ed25519_sign = (\<lambda>sk m. padded 64 (padded 32 sk @ m)),
     ed25519_verify_strict = (\<lambda>pk m s. s = padded 64 (pk @ m)),
     mlkem_from_seed = padded 32,
     mlkem_encapsulation_key = padded 1184,
     mlkem_ek_valid = (\<lambda>ek. True),
     mlkem_encapsulate = (\<lambda>ek m. (padded 1088 m, padded 32 m)),
     mlkem_decapsulate = (\<lambda>dk c. padded 32 c),
     sntrup_keypair = (\<lambda>s. (padded 1158 s, s)),
     sntrup_encapsulate = (\<lambda>ek s. (padded 1039 s, padded 32 s)),
     sntrup_decapsulate = (\<lambda>dk c. padded 32 c),
     deflate_new = 0,
     inflate_new = 0,
     total_in = (\<lambda>z. z),
     total_out = (\<lambda>z. z),
     deflate = (\<lambda>z input room. Some (take room input, z + length (take room input))),
     inflate = (\<lambda>z input room. Some (ZOk, take room input, z + length (take room input)))\<rparr>"

lemma length_padded [simp]: "length (padded n bs) = n"
  by (simp add: padded_def)

lemma padded_padded: "m \<le> n \<Longrightarrow> padded m (padded n bs) = padded m bs"
  unfolding padded_def
  by (cases "length bs \<le> m"; cases "length bs \<le> n") (auto simp: min_def replicate_add [symmetric])

lemma padded_id [simp]: "length bs = n \<Longrightarrow> padded n bs = bs"
  by (simp add: padded_def)

lemma map2_add_commute: "map2 (+) xs ys = map2 (+) ys (xs :: 'a::ab_semigroup_add list)"
  by (induction xs ys rule: list_induct2') (simp_all add: add.commute)

lemma sample_run_prefix: "deflate_run sample_prims z input out z' \<Longrightarrow> length out \<le> length input"
  by (induction rule: deflate_run.induct) (auto simp: sample_prims_def)

lemma sample_safe: "prims_safe sample_prims"
proof -
  have "deflate_bounded sample_prims"
    unfolding deflate_bounded_def using sample_run_prefix by (metis le_add1 le_trans mult_2)
  moreover have "sizes_ok sample_prims" "gcm_total sample_prims" "zlib_counts sample_prims"
    "inflate_progress sample_prims" "deflate_total sample_prims"
    by (auto simp: sizes_ok_def gcm_total_def zlib_counts_def inflate_progress_def deflate_total_def
        sample_prims_def)
  ultimately show ?thesis by (simp add: prims_safe_def)
qed

lemma sample_correct: "prims_correct sample_prims"
  using sample_safe
  by (auto simp: prims_correct_def prims_safe_def gcm_correct_def dh_correct_def ed25519_correct_def
      kem_correct_def padded_padded sample_prims_def map2_add_commute)

section \<open>Lemmas on the laws\<close>

lemma prims_safe_laws:
  assumes "prims_safe P"
  shows "sizes_ok P" "gcm_total P" "zlib_counts P" "inflate_progress P" "deflate_total P"
    "deflate_bounded P"
  using assms by (simp_all add: prims_safe_def)

lemma prims_correct_laws:
  assumes "prims_correct P"
  shows "sizes_ok P" "gcm_correct P" "dh_correct P" "ed25519_correct P" "kem_correct P"
  using assms by (simp_all add: prims_correct_def)

lemma sizes:
  assumes "sizes_ok P"
  shows "length (fst (fill_bytes P n r)) = n"
    and "length (sha256 P bs) = 32" and "length (sha512 P bs) = 64"
    and "length (shake128 P bs n) = n"
    and "length (poly1305 P k bs) = 16"
    and "gcm_encrypt P k iv aad m = Some (c, t) \<Longrightarrow> length c = length m \<and> length t = 16"
    and "gcm_decrypt P k iv aad c t = Some m \<Longrightarrow> length m = length c"
    and "length (x25519_public P s) = 32" and "length (x25519_dh P s q) = 32"
    and "length (ed25519_public P sk) = 32" and "length (ed25519_sign P sk msg) = 64"
    and "length (mlkem_encapsulation_key P (mlkem_from_seed P s)) = 1184"
    and "length (fst (mlkem_encapsulate P ek m)) = 1088"
    and "length (fst (sntrup_keypair P s)) = 1158"
    and "length (fst (sntrup_encapsulate P ek s)) = 1039"
  using assms unfolding sizes_ok_def by auto

lemma fill_bytes_length: "sizes_ok P \<Longrightarrow> fill_bytes P n r = (bs, r') \<Longrightarrow> length bs = n"
  using sizes(1) [of P n r] by simp

lemma kem_lengths:
  assumes "sizes_ok P"
  shows "mlkem_encapsulate P ek m = (ct, k) \<Longrightarrow> length ct = 1088"
    and "sntrup_keypair P s = (pk, dk) \<Longrightarrow> length pk = 1158"
    and "sntrup_encapsulate P ek s = (ct, k) \<Longrightarrow> length ct = 1039"
  using sizes(13) [OF assms, of ek m] sizes(14) [OF assms, of s] sizes(15) [OF assms, of ek s] by simp_all

end
