(* ===== verification/Kdf.thy ===== *)
theory Kdf
  imports Crypto
begin

text \<open>
  Exchange hash and key derivation (\<^verbatim>\<open>crates/ssh-transport/src/kdf.rs\<close>). The exchange hash is the
  digest of \<open>transcript\<close>; that the transcript determines every component is what makes the signature
  over it bind the whole handshake. The derivation loop is \<open>derive_more\<close>, which returns for every
  digest of a fixed positive length.
\<close>

datatype kex_hash = Sha256 | Sha512

datatype shared_secret = SecretMpint bytes | SecretString bytes

fun encode_secret :: "shared_secret \<Rightarrow> bytes" where
  "encode_secret (SecretMpint magnitude) = w_mpint writer_new magnitude"
| "encode_secret (SecretString bytes) = w_string writer_new bytes"

record exchange_hash_input =
  xh_client_id :: bytes
  xh_server_id :: bytes
  xh_client_kexinit :: bytes
  xh_server_kexinit :: bytes
  xh_host_key_blob :: bytes
  xh_client_ephemeral :: bytes
  xh_server_ephemeral :: bytes
  xh_shared_secret :: shared_secret

fun kdf_digest :: "('r, 'z) prims \<Rightarrow> kex_hash \<Rightarrow> bytes \<Rightarrow> bytes" where
  "kdf_digest P Sha256 = sha256 P"
| "kdf_digest P Sha512 = sha512 P"

definition transcript :: "exchange_hash_input \<Rightarrow> bytes" where
  "transcript input =
     (let w = writer_new;
          w = w_string w (xh_client_id input);
          w = w_string w (xh_server_id input);
          w = w_string w (xh_client_kexinit input);
          w = w_string w (xh_server_kexinit input);
          w = w_string w (xh_host_key_blob input);
          w = w_string w (xh_client_ephemeral input);
          w = w_string w (xh_server_ephemeral input)
      in w_raw w (encode_secret (xh_shared_secret input)))"

definition exchange_hash :: "('r, 'z) prims \<Rightarrow> exchange_hash_input \<Rightarrow> kex_hash \<Rightarrow> bytes" where
  "exchange_hash P input hash = kdf_digest P hash (transcript input)"

record keys =
  iv_c2s :: bytes
  iv_s2c :: bytes
  enc_c2s :: bytes
  enc_s2c :: bytes

partial_function (option) derive_more ::
    "(bytes \<Rightarrow> bytes) \<Rightarrow> bytes \<Rightarrow> bytes \<Rightarrow> bytes \<Rightarrow> nat \<Rightarrow> bytes option" where
  "derive_more D k_enc h out out_len =
     (if length out < out_len then derive_more D k_enc h (out @ D (k_enc @ h @ out)) out_len
      else Some out)"

definition derive_key_with ::
    "(bytes \<Rightarrow> bytes) \<Rightarrow> bytes \<Rightarrow> bytes \<Rightarrow> byte \<Rightarrow> bytes \<Rightarrow> nat \<Rightarrow> bytes option" where
  "derive_key_with D k_enc h letter session_id out_len =
     map_option (take out_len)
       (derive_more D k_enc h (D (k_enc @ h @ [letter] @ session_id)) out_len)"

definition derive_key ::
    "('r, 'z) prims \<Rightarrow> bytes \<Rightarrow> bytes \<Rightarrow> byte \<Rightarrow> bytes \<Rightarrow> nat \<Rightarrow> kex_hash \<Rightarrow> bytes result" where
  "derive_key P k_enc h letter session_id out_len hash =
     unwrap (derive_key_with (kdf_digest P hash) k_enc h letter session_id out_len)"

definition keys_derive ::
    "('r, 'z) prims \<Rightarrow> shared_secret \<Rightarrow> bytes \<Rightarrow> bytes \<Rightarrow> nat \<Rightarrow> nat \<Rightarrow> kex_hash \<Rightarrow> keys result" where
  "keys_derive P secret h session_id key_len iv_len hash =
     (let k_enc = encode_secret secret in
      rbind (derive_key P k_enc h 0x41 session_id iv_len hash) (\<lambda>a.
      rbind (derive_key P k_enc h 0x42 session_id iv_len hash) (\<lambda>b.
      rbind (derive_key P k_enc h 0x43 session_id key_len hash) (\<lambda>c.
      rbind (derive_key P k_enc h 0x44 session_id key_len hash) (\<lambda>d.
        Ok \<lparr>iv_c2s = a, iv_s2c = b, enc_c2s = c, enc_s2c = d\<rparr>)))))"

section \<open>The derivation of RFC 4253, section 7.2\<close>

text \<open>\<open>K1 || .. || Kn\<close> as the RFC writes it, for any number of blocks.\<close>

primrec kdf_blocks :: "(bytes \<Rightarrow> bytes) \<Rightarrow> bytes \<Rightarrow> bytes \<Rightarrow> byte \<Rightarrow> bytes \<Rightarrow> nat \<Rightarrow> bytes" where
  "kdf_blocks D k h x sid 0 = D (k @ h @ [x] @ sid)"
| "kdf_blocks D k h x sid (Suc n) =
     kdf_blocks D k h x sid n @ D (k @ h @ kdf_blocks D k h x sid n)"

lemma length_kdf_blocks:
  "(\<And>bs. length (D bs) = m) \<Longrightarrow> length (kdf_blocks D k h x sid n) = m * Suc n"
  by (induction n) simp_all

lemma kdf_blocks_prefix: "n \<le> n' \<Longrightarrow> \<exists>rest. kdf_blocks D k h x sid n' = kdf_blocks D k h x sid n @ rest"
proof (induction n')
  case (Suc n')
  then show ?case by (cases "n = Suc n'") (auto simp: le_Suc_eq)
qed simp

lemma derive_more_blocks:
  assumes m: "\<And>bs. length (D bs) = m" "m > 0"
  shows "\<exists>j\<ge>n. derive_more D k h (kdf_blocks D k h x sid n) out_len = Some (kdf_blocks D k h x sid j) \<and>
    out_len \<le> length (kdf_blocks D k h x sid j)"
proof (induction "out_len - length (kdf_blocks D k h x sid n)" arbitrary: n rule: less_induct)
  case less
  show ?case
  proof (cases "length (kdf_blocks D k h x sid n) < out_len")
    case True
    have "out_len - length (kdf_blocks D k h x sid (Suc n)) < out_len - length (kdf_blocks D k h x sid n)"
      using True m by simp
    from less.hyps [OF this] obtain j where j: "j \<ge> Suc n"
      "derive_more D k h (kdf_blocks D k h x sid (Suc n)) out_len = Some (kdf_blocks D k h x sid j)"
      "out_len \<le> length (kdf_blocks D k h x sid j)" by blast
    then have "derive_more D k h (kdf_blocks D k h x sid n) out_len = Some (kdf_blocks D k h x sid j)"
      using True by (subst derive_more.simps) simp
    with j show ?thesis using Suc_leD by blast
  next
    case False
    then show ?thesis by (subst derive_more.simps) auto
  qed
qed

lemma derive_key_with_blocks:
  assumes m: "\<And>bs. length (D bs) = m" "m > 0" and n: "out_len \<le> m * Suc n"
  shows "derive_key_with D k h x sid out_len = Some (take out_len (kdf_blocks D k h x sid n))"
proof -
  obtain j where j: "derive_more D k h (kdf_blocks D k h x sid 0) out_len = Some (kdf_blocks D k h x sid j)"
    "out_len \<le> length (kdf_blocks D k h x sid j)"
    using derive_more_blocks [of D m 0 k h x sid out_len] m by blast
  have n': "out_len \<le> length (kdf_blocks D k h x sid n)" using n m by (simp add: length_kdf_blocks)
  have "take out_len (kdf_blocks D k h x sid j) = take out_len (kdf_blocks D k h x sid n)"
  proof (cases "j \<le> n")
    case True
    then obtain rest where "kdf_blocks D k h x sid n = kdf_blocks D k h x sid j @ rest"
      using kdf_blocks_prefix by blast
    then show ?thesis using j(2) by simp
  next
    case False
    then obtain rest where "kdf_blocks D k h x sid j = kdf_blocks D k h x sid n @ rest"
      using kdf_blocks_prefix [of n j] by (metis nat_le_linear)
    then show ?thesis using n' by simp
  qed
  with j(1) show ?thesis by (simp add: derive_key_with_def)
qed

definition digest_len :: "kex_hash \<Rightarrow> nat" where
  "digest_len hash = (case hash of Sha256 \<Rightarrow> 32 | Sha512 \<Rightarrow> 64)"

lemma length_kdf_digest: "sizes_ok P \<Longrightarrow> length (kdf_digest P hash bs) = digest_len hash"
  by (cases hash) (simp_all add: digest_len_def sizes)

lemma digest_len_pos [simp]: "digest_len hash > 0"
  by (cases hash) (simp_all add: digest_len_def)

lemma derive_key_Ok:
  assumes "sizes_ok P"
  shows "derive_key P k h x sid out_len hash = Ok (take out_len (kdf_blocks (kdf_digest P hash) k h x sid out_len))"
proof -
  have "out_len \<le> digest_len hash * Suc out_len"
    using mult_le_mono1 [of 1 "digest_len hash" "Suc out_len"] digest_len_pos [of hash] by simp
  from derive_key_with_blocks [OF length_kdf_digest [OF assms] digest_len_pos this]
  show ?thesis by (simp add: derive_key_def)
qed

lemma keys_derive_Ok:
  assumes "sizes_ok P"
  obtains ks where "keys_derive P secret h sid key_len iv_len hash = Ok ks"
    and "length (enc_c2s ks) = key_len" "length (enc_s2c ks) = key_len"
    and "length (iv_c2s ks) = iv_len" "length (iv_s2c ks) = iv_len"
proof -
  have len: "length (take n (kdf_blocks (kdf_digest P hash) k h x sid n)) = n" for n k x
    using length_kdf_blocks [of "kdf_digest P hash" "digest_len hash" k h x sid n]
      length_kdf_digest [OF assms] mult_le_mono1 [of 1 "digest_len hash" "Suc n"]
      digest_len_pos [of hash] by (simp del: digest_len_pos)
  show ?thesis
    by (rule that; (simp add: keys_derive_def derive_key_Ok [OF assms] Let_def)?) (simp_all only: keys.simps len)
qed

lemma string_enc_eq:
  "fits32 a \<Longrightarrow> fits32 b \<Longrightarrow> string_enc a @ x = string_enc b @ y \<longleftrightarrow> a = b \<and> x = y"
  using string_codec.prefix_free [of a b x y] by (auto simp: fits32_def)

lemma transcript_enc:
  "transcript i = string_enc (xh_client_id i) @ string_enc (xh_server_id i) @
     string_enc (xh_client_kexinit i) @ string_enc (xh_server_kexinit i) @
     string_enc (xh_host_key_blob i) @ string_enc (xh_client_ephemeral i) @
     string_enc (xh_server_ephemeral i) @ encode_secret (xh_shared_secret i)"
  by (simp add: transcript_def Let_def writer_simps)

text \<open>The components fit the \<^verbatim>\<open>u32\<close> length prefixes.\<close>

definition xh_fits :: "exchange_hash_input \<Rightarrow> bool" where
  "xh_fits i = (fits32 (xh_client_id i) \<and> fits32 (xh_server_id i) \<and> fits32 (xh_client_kexinit i) \<and>
     fits32 (xh_server_kexinit i) \<and> fits32 (xh_host_key_blob i) \<and> fits32 (xh_client_ephemeral i) \<and>
     fits32 (xh_server_ephemeral i))"

section \<open>Properties\<close>

text \<open>The exchange hash input binds the handshake. Two transcripts of components that fit their
  length prefixes are equal only if all seven components and the encoded shared secret are: no byte
  can move from one component to its neighbour. So for a collision-free digest the host key's
  signature covers both identifications, both KEXINIT payloads, the host key, both ephemerals and
  the secret.\<close>

theorem transcript_binds:
  assumes "xh_fits a" and "xh_fits b" and "transcript a = transcript b"
  shows "xh_client_id a = xh_client_id b \<and> xh_server_id a = xh_server_id b \<and>
    xh_client_kexinit a = xh_client_kexinit b \<and> xh_server_kexinit a = xh_server_kexinit b \<and>
    xh_host_key_blob a = xh_host_key_blob b \<and> xh_client_ephemeral a = xh_client_ephemeral b \<and>
    xh_server_ephemeral a = xh_server_ephemeral b \<and>
    encode_secret (xh_shared_secret a) = encode_secret (xh_shared_secret b)"
  using assms by (simp add: transcript_enc xh_fits_def string_enc_eq)

theorem transcript_binds_witness:
  "\<exists>i. xh_fits i \<and> xh_client_id i = str ''SSH-2.0-a'' \<and>
     (\<forall>j. xh_fits j \<and> transcript j = transcript i \<longrightarrow> xh_client_id j = str ''SSH-2.0-a'')"
proof -
  let ?i = "\<lparr>xh_client_id = str ''SSH-2.0-a'', xh_server_id = str ''SSH-2.0-b'',
    xh_client_kexinit = [20], xh_server_kexinit = [20], xh_host_key_blob = [1],
    xh_client_ephemeral = [2], xh_server_ephemeral = [3], xh_shared_secret = SecretString [4]\<rparr>"
  have i: "xh_fits ?i" by (simp add: xh_fits_def fits32_def)
  moreover have "xh_client_id j = str ''SSH-2.0-a''" if "xh_fits j" "transcript j = transcript ?i" for j
    using transcript_binds [OF that(1) i that(2)] by simp
  ultimately show ?thesis by force
qed

text \<open>C39: Key derivation. For digests of their fixed sizes the derivation loop always returns, and each
  of the four keys is the prefix of requested length of the RFC 4253 stream \<open>K1 || K2 || ..\<close> for its
  letter (\<open>A\<close>, \<open>B\<close> the IVs, \<open>C\<close>, \<open>D\<close> the encryption keys), whatever number of blocks is unrolled.\<close>

theorem keys_derive_correct:
  assumes "sizes_ok P" and "key_len \<le> digest_len hash * Suc n" and "iv_len \<le> digest_len hash * Suc n"
  shows "keys_derive P secret h sid key_len iv_len hash =
    (let K = (\<lambda>letter len. take len (kdf_blocks (kdf_digest P hash) (encode_secret secret) h letter sid n))
     in Ok \<lparr>iv_c2s = K 0x41 iv_len, iv_s2c = K 0x42 iv_len, enc_c2s = K 0x43 key_len, enc_s2c = K 0x44 key_len\<rparr>)"
proof -
  have "derive_key P k h x sid len hash = Ok (take len (kdf_blocks (kdf_digest P hash) k h x sid n))"
    if "len \<le> digest_len hash * Suc n" for k x len
    using derive_key_with_blocks [OF length_kdf_digest [OF assms(1)] digest_len_pos that]
    by (simp add: derive_key_def)
  with assms show ?thesis by (simp add: keys_derive_def Let_def)
qed

theorem keys_derive_correct_witness:
  "\<exists>ks. keys_derive sample_prims (SecretString [1]) [2] [3] 64 12 Sha256 = Ok ks \<and> length (enc_c2s ks) = 64"
proof -
  have "sizes_ok sample_prims" using sample_safe by (simp add: prims_safe_def)
  from keys_derive_correct [OF this, of 64 Sha256 1 12 "SecretString [1]" "[2]" "[3]"]
  show ?thesis by (simp add: digest_len_def Let_def sample_prims_def)
qed

end
