(* ===== verification/Hostkey.thy ===== *)
theory Hostkey
  imports Crypto
begin

text \<open>
  \<^verbatim>\<open>ssh-ed25519\<close> host keys (\<^verbatim>\<open>crates/ssh-transport/src/hostkey.rs\<close>): the wire blobs, signing and
  verifying the exchange hash. A private host key is its 32-byte seed, a public one its 32 bytes.
  The OpenSSH PEM file format and the fingerprint text come from the \<^verbatim>\<open>ssh-key\<close> crate and are not
  represented.
\<close>

record host_key =
  hk_signing :: bytes

record host_public_key =
  hp_verifying :: bytes

definition host_key_from_seed :: "bytes \<Rightarrow> host_key" where
  "host_key_from_seed seed = \<lparr>hk_signing = seed\<rparr>"

definition host_key_generate :: "('r, 'z) prims \<Rightarrow> 'r \<Rightarrow> host_key \<times> 'r" where
  "host_key_generate P r = (let (sk, r) = ed25519_generate P r in (\<lparr>hk_signing = sk\<rparr>, r))"

definition vk_blob :: "bytes \<Rightarrow> bytes" where
  "vk_blob vk = (let w = writer_new; w = w_string w HOSTKEY_ED25519; w = w_string w vk in w)"

definition host_public_blob :: "('r, 'z) prims \<Rightarrow> host_key \<Rightarrow> bytes" where
  "host_public_blob P k = vk_blob (ed25519_public P (hk_signing k))"

definition host_public :: "('r, 'z) prims \<Rightarrow> host_key \<Rightarrow> host_public_key" where
  "host_public P k = \<lparr>hp_verifying = ed25519_public P (hk_signing k)\<rparr>"

definition sign_exchange_hash :: "('r, 'z) prims \<Rightarrow> host_key \<Rightarrow> bytes \<Rightarrow> bytes" where
  "sign_exchange_hash P k h =
     (let sig = ed25519_sign P (hk_signing k) h;
          w = writer_new;
          w = w_string w HOSTKEY_ED25519;
          w = w_string w sig
      in w)"

definition host_parse_blob :: "('r, 'z) prims \<Rightarrow> bytes \<Rightarrow> host_public_key result" where
  "host_parse_blob P blob =
     rbind (r_utf8 (reader_new blob)) (\<lambda>(alg, r).
     if alg \<noteq> HOSTKEY_ED25519 then Err (Kex ''unsupported host key algorithm'')
     else
       rbind (r_string r) (\<lambda>(key, r).
       if length key \<noteq> 32 then Err (Kex ''ed25519 key is not 32 bytes'')
       else if \<not> ed25519_valid P key then Err (Kex ''invalid ed25519 key'')
       else Ok \<lparr>hp_verifying = key\<rparr>))"

definition host_from_ed25519_bytes :: "('r, 'z) prims \<Rightarrow> bytes \<Rightarrow> host_public_key result" where
  "host_from_ed25519_bytes P bs =
     (if ed25519_valid P bs then Ok \<lparr>hp_verifying = bs\<rparr> else Err (Kex ''invalid ed25519 key''))"

definition host_blob :: "host_public_key \<Rightarrow> bytes" where
  "host_blob k = vk_blob (hp_verifying k)"

definition host_verify :: "('r, 'z) prims \<Rightarrow> host_public_key \<Rightarrow> bytes \<Rightarrow> bytes \<Rightarrow> unit result" where
  "host_verify P k h sig_blob =
     rbind (r_utf8 (reader_new sig_blob)) (\<lambda>(alg, r).
     if alg \<noteq> HOSTKEY_ED25519 then Err (Kex ''unsupported signature algorithm'')
     else
       rbind (r_string r) (\<lambda>(sig, r).
       if length sig \<noteq> 64 then Err (Kex ''ed25519 signature is not 64 bytes'')
       else if ed25519_verify_strict P (hp_verifying k) h sig then Ok ()
       else Err (Kex ''host key signature verification failed'')))"

section \<open>Lemmas\<close>

lemma hostkey_name [simp]: "fits32 HOSTKEY_ED25519" "utf8_ok HOSTKEY_ED25519" "length HOSTKEY_ED25519 = 11"
  by (simp_all add: HOSTKEY_ED25519_def fits32_def str_def)

lemma vk_blob_enc: "vk_blob vk = string_enc HOSTKEY_ED25519 @ string_enc vk"
  by (simp add: vk_blob_def Let_def writer_simps)

lemma not_crashed_host [simp]:
  "\<not> crashed (host_parse_blob P blob)" "\<not> crashed (host_verify P k h s)"
  by (simp_all add: host_parse_blob_def host_verify_def crashed_rbind split_def)

lemma blob_read:
  assumes "length b < 2 ^ 32"
  shows "r_utf8 (rd [] (string_enc HOSTKEY_ED25519 @ string_enc b))
      = Ok (HOSTKEY_ED25519, rd (string_enc HOSTKEY_ED25519) (string_enc b))"
    and "r_string (rd (string_enc HOSTKEY_ED25519) (string_enc b))
      = Ok (b, rd (string_enc HOSTKEY_ED25519 @ string_enc b) [])"
  using assms r_utf8_rd [of HOSTKEY_ED25519 "[]" "string_enc b"]
    r_string_rd [of b "string_enc HOSTKEY_ED25519" "[]"]
  by (simp_all add: fits32_def)

lemma host_parse_blob_own:
  assumes "length vk = 32" and "ed25519_valid P vk"
  shows "host_parse_blob P (vk_blob vk) = Ok \<lparr>hp_verifying = vk\<rparr>"
  using assms by (simp add: host_parse_blob_def vk_blob_enc blob_read)

lemma host_verify_own:
  assumes "sizes_ok P" and "ed25519_correct P"
  shows "host_verify P (host_public P k) h (sign_exchange_hash P k h) = Ok ()"
  using assms sizes(11) [OF assms(1), of "hk_signing k" h]
  by (simp add: host_verify_def sign_exchange_hash_def host_public_def Let_def writer_simps
      blob_read ed25519_correct_def)

lemma r_utf8_string: "r_utf8 r = Ok (s, r') \<Longrightarrow> r_string r = Ok (s, r')"
  by (auto simp: r_utf8_def rbind_Ok_iff split: prod.splits if_splits)

lemma r_string_split:
  assumes "r_string (rd pre rest) = Ok (s, r')"
  obtains rest' where "rest = string_enc s @ rest'" and "r' = rd (pre @ string_enc s) rest'"
    and "length s < 2 ^ 32"
proof -
  note f = r_string_Ok [OF assms]
  have p: "rd_pos (rd pre rest) = length pre" "rd_buf (rd pre rest) = pre @ rest"
    by (simp_all add: rd_def)
  have s: "s = take (length s) (drop 4 rest)" using f(3) p by simp
  have l4: "length (take 4 rest) = 4" and lt: "4 + length s \<le> length rest"
    using f(1,2,4) p by auto
  have n: "length s = be_val (take 4 rest)" using f(5) p by simp
  then have small: "length s < 2 ^ 32" using be_val_bound [of "take 4 rest"] l4 by simp
  have "u32_be (of_nat (length s)) = take 4 rest" using u32_be_of_be_val [OF l4] n by simp
  then have "rest = string_enc s @ drop (4 + length s) rest"
    using s by (metis append.assoc append_take_drop_id drop_drop add.commute string_enc_def)
  moreover from this have "r' = rd (pre @ string_enc s) (drop (4 + length s) rest)"
    using f(1,2) p by (cases r') (auto simp: rd_def)
  ultimately show thesis using that small by blast
qed

section \<open>Properties\<close>

text \<open>Host key blobs. The blob of a valid 32-byte key parses back to that key; and whatever bytes
  parse as a host key are the canonical blob of the returned key (followed by ignored bytes), with a
  32-byte key that the ed25519 crate accepts. So the key shown to the known-hosts policy determines
  the blob that is hashed, up to trailing bytes.\<close>

theorem host_blob_roundtrip:
  "(length vk = 32 \<and> ed25519_valid P vk \<longrightarrow> host_parse_blob P (vk_blob vk) = Ok \<lparr>hp_verifying = vk\<rparr>) \<and>
   (host_parse_blob P blob = Ok k \<longrightarrow>
      length (hp_verifying k) = 32 \<and> ed25519_valid P (hp_verifying k) \<and>
      (\<exists>rest. blob = host_blob k @ rest))"
proof (intro conjI impI)
  show "host_parse_blob P (vk_blob vk) = Ok \<lparr>hp_verifying = vk\<rparr>" if "length vk = 32 \<and> ed25519_valid P vk"
    using that by (simp add: host_parse_blob_own)
  assume "host_parse_blob P blob = Ok k"
  then obtain r r' where u: "r_utf8 (rd [] blob) = Ok (HOSTKEY_ED25519, r)"
    and s: "r_string r = Ok (hp_verifying k, r')"
    and k: "length (hp_verifying k) = 32" "ed25519_valid P (hp_verifying k)"
    by (auto simp: host_parse_blob_def rbind_Ok_iff split: prod.splits if_splits)
  then show "length (hp_verifying k) = 32" "ed25519_valid P (hp_verifying k)" by simp_all
  obtain rest where b: "blob = string_enc HOSTKEY_ED25519 @ rest" and r: "r = rd (string_enc HOSTKEY_ED25519) rest"
    using r_string_split [OF r_utf8_string [OF u]] by auto
  obtain rest' where "rest = string_enc (hp_verifying k) @ rest'"
    using r_string_split [OF s [unfolded r]] by auto
  with b show "\<exists>rest. blob = host_blob k @ rest" by (simp add: host_blob_def vk_blob_enc)
qed

theorem host_blob_roundtrip_witness:
  "host_parse_blob sample_prims (vk_blob (replicate 32 5)) = Ok \<lparr>hp_verifying = replicate 32 5\<rparr>"
  using host_blob_roundtrip [of "replicate 32 5" sample_prims] by (simp add: sample_prims_def)

end
