(* ===== verification/Kex.thy ===== *)
theory Kex
  imports Kdf
begin

text \<open>
  The key-exchange methods: \<^verbatim>\<open>curve25519-sha256\<close> (\<^verbatim>\<open>kex.rs\<close>) and the two hybrids
  \<^verbatim>\<open>mlkem768x25519-sha256\<close> (\<^verbatim>\<open>mlkem.rs\<close>) and \<^verbatim>\<open>sntrup761x25519-sha512@openssh.com\<close> (\<^verbatim>\<open>sntrup.rs\<close>).
  The server functions return the generator's state as well, which advances also when the exchange
  fails later. The contract the transport relies on is the locale \<open>kex_method\<close>: whatever the client
  generated, the server's reply leads it to the server's secret.
\<close>

section \<open>X25519\<close>

record ecdh_keypair =
  kp_secret :: bytes
  kp_public :: bytes

definition ecdh_generate :: "('r, 'z) prims \<Rightarrow> 'r \<Rightarrow> ecdh_keypair \<times> 'r" where
  "ecdh_generate P r =
     (let (secret, r) = x25519_random P r
      in (\<lparr>kp_secret = secret, kp_public = x25519_public P secret\<rparr>, r))"

definition ecdh_agree :: "('r, 'z) prims \<Rightarrow> ecdh_keypair \<Rightarrow> bytes \<Rightarrow> bytes result" where
  "ecdh_agree P kp peer_public =
     (if length peer_public \<noteq> 32 then Err (Kex ''peer public key is not 32 bytes'')
      else
        let shared = x25519_dh P (kp_secret kp) peer_public in
        if \<not> x25519_contributory P shared then Err (Kex ''non-contributory key exchange'')
        else Ok shared)"

section \<open>ML-KEM-768 with X25519\<close>

definition MLKEM_EK_LEN :: nat where "MLKEM_EK_LEN = 1184"
definition MLKEM_CT_LEN :: nat where "MLKEM_CT_LEN = 1088"
definition X25519_LEN :: nat where "X25519_LEN = 32"
definition MLKEM_CLIENT_INIT_LEN :: nat where "MLKEM_CLIENT_INIT_LEN = MLKEM_EK_LEN + X25519_LEN"
definition MLKEM_SERVER_REPLY_LEN :: nat where "MLKEM_SERVER_REPLY_LEN = MLKEM_CT_LEN + X25519_LEN"

definition mlkem_combine :: "('r, 'z) prims \<Rightarrow> bytes \<Rightarrow> bytes \<Rightarrow> bytes" where
  "mlkem_combine P k_pq k_x25519 = sha256 P (k_pq @ k_x25519)"

record hybrid_client =
  hc_decap :: bytes
  hc_x25519 :: ecdh_keypair
  hc_init :: bytes

definition mlkem_generate :: "('r, 'z) prims \<Rightarrow> 'r \<Rightarrow> hybrid_client \<times> 'r" where
  "mlkem_generate P r =
     (let (seed, r) = fill_bytes P 64 r;
          decap = mlkem_from_seed P seed;
          ek = mlkem_encapsulation_key P decap;
          (x25519, r) = ecdh_generate P r
      in (\<lparr>hc_decap = decap, hc_x25519 = x25519, hc_init = ek @ kp_public x25519\<rparr>, r))"

definition mlkem_agree :: "('r, 'z) prims \<Rightarrow> hybrid_client \<Rightarrow> bytes \<Rightarrow> bytes result" where
  "mlkem_agree P hc server_reply =
     (if length server_reply \<noteq> MLKEM_SERVER_REPLY_LEN then
        Err (Kex ''mlkem768x25519 server reply has wrong length'')
      else
        let ciphertext = take MLKEM_CT_LEN server_reply;
            server_x = drop MLKEM_CT_LEN server_reply;
            k_pq = mlkem_decapsulate P (hc_decap hc) ciphertext
        in rbind (ecdh_agree P (hc_x25519 hc) server_x) (\<lambda>k_x25519.
             Ok (mlkem_combine P k_pq k_x25519)))"

definition mlkem_server_respond :: "('r, 'z) prims \<Rightarrow> 'r \<Rightarrow> bytes \<Rightarrow> ('r, bytes \<times> bytes) outcome" where
  "mlkem_server_respond P r client_init =
     (if length client_init \<noteq> MLKEM_CLIENT_INIT_LEN then
        (Err (Kex ''mlkem768x25519 client init has wrong length''), r)
      else
        let ek = take MLKEM_EK_LEN client_init;
            client_x = drop MLKEM_EK_LEN client_init
        in
        if \<not> mlkem_ek_valid P ek then (Err (Kex ''invalid mlkem768 encapsulation key''), r)
        else
          let (m, r) = fill_bytes P 32 r;
              (ciphertext, k_pq) = mlkem_encapsulate P ek m;
              (server_x, r) = ecdh_generate P r;
              server_x_pub = kp_public server_x
          in onOk (ecdh_agree P server_x client_x) r (\<lambda>k_x25519.
               (Ok (ciphertext @ server_x_pub, mlkem_combine P k_pq k_x25519), r)))"

section \<open>sntrup761 with X25519\<close>

definition SNTRUP_PK_LEN :: nat where "SNTRUP_PK_LEN = 1158"
definition SNTRUP_CT_LEN :: nat where "SNTRUP_CT_LEN = 1039"
definition SNTRUP_CLIENT_INIT_LEN :: nat where "SNTRUP_CLIENT_INIT_LEN = SNTRUP_PK_LEN + X25519_LEN"
definition SNTRUP_SERVER_REPLY_LEN :: nat where "SNTRUP_SERVER_REPLY_LEN = SNTRUP_CT_LEN + X25519_LEN"

definition sntrup_combine :: "('r, 'z) prims \<Rightarrow> bytes \<Rightarrow> bytes \<Rightarrow> bytes" where
  "sntrup_combine P k_pq k_x25519 = sha512 P (k_pq @ k_x25519)"

definition sntrup_generate :: "('r, 'z) prims \<Rightarrow> 'r \<Rightarrow> hybrid_client \<times> 'r" where
  "sntrup_generate P r =
     (let (seed, r) = fill_bytes P 32 r;
          (ek, decap) = sntrup_keypair P seed;
          (x25519, r) = ecdh_generate P r
      in (\<lparr>hc_decap = decap, hc_x25519 = x25519, hc_init = ek @ kp_public x25519\<rparr>, r))"

definition sntrup_agree :: "('r, 'z) prims \<Rightarrow> hybrid_client \<Rightarrow> bytes \<Rightarrow> bytes result" where
  "sntrup_agree P hc server_reply =
     (if length server_reply \<noteq> SNTRUP_SERVER_REPLY_LEN then
        Err (Kex ''sntrup761x25519 server reply has wrong length'')
      else
        let ciphertext = take SNTRUP_CT_LEN server_reply;
            server_x = drop SNTRUP_CT_LEN server_reply;
            k_pq = sntrup_decapsulate P (hc_decap hc) ciphertext
        in rbind (ecdh_agree P (hc_x25519 hc) server_x) (\<lambda>k_x25519.
             Ok (sntrup_combine P k_pq k_x25519)))"

definition sntrup_server_respond :: "('r, 'z) prims \<Rightarrow> 'r \<Rightarrow> bytes \<Rightarrow> ('r, bytes \<times> bytes) outcome" where
  "sntrup_server_respond P r client_init =
     (if length client_init \<noteq> SNTRUP_CLIENT_INIT_LEN then
        (Err (Kex ''sntrup761x25519 client init has wrong length''), r)
      else
        let ek = take SNTRUP_PK_LEN client_init;
            client_x = drop SNTRUP_PK_LEN client_init;
            (seed, r) = fill_bytes P 32 r;
            (ciphertext, k_pq) = sntrup_encapsulate P ek seed;
            (server_x, r) = ecdh_generate P r;
            server_x_pub = kp_public server_x
        in onOk (ecdh_agree P server_x client_x) r (\<lambda>k_x25519.
             (Ok (ciphertext @ server_x_pub, sntrup_combine P k_pq k_x25519), r)))"

text \<open>The classical method in the same shape: what \<^verbatim>\<open>on_ecdh_init\<close> does inline for it.\<close>

definition classical_server_respond :: "('r, 'z) prims \<Rightarrow> 'r \<Rightarrow> bytes \<Rightarrow> ('r, bytes \<times> bytes) outcome" where
  "classical_server_respond P r q_c =
     (let (server_kp, r) = ecdh_generate P r; q_s = kp_public server_kp
      in onOk (ecdh_agree P server_kp q_c) r (\<lambda>shared. (Ok (q_s, shared), r)))"

lemmas kex_lens = MLKEM_EK_LEN_def MLKEM_CT_LEN_def X25519_LEN_def MLKEM_CLIENT_INIT_LEN_def
  MLKEM_SERVER_REPLY_LEN_def SNTRUP_PK_LEN_def SNTRUP_CT_LEN_def SNTRUP_CLIENT_INIT_LEN_def
  SNTRUP_SERVER_REPLY_LEN_def

section \<open>The contract of a method\<close>

text \<open>
  \<open>gen\<close> draws the client's ephemeral, \<open>init\<close> is the blob it sends, \<open>respond\<close> runs on the server and
  \<open>agree\<close> completes on the client. Under the laws of the primitives a server that succeeds hands out
  a reply on which the client computes the same secret, and no input makes either side panic.
\<close>

locale kex_method =
  fixes gen :: "('r, 'z) prims \<Rightarrow> 'r \<Rightarrow> 'c \<times> 'r"
    and init :: "'c \<Rightarrow> bytes"
    and respond :: "('r, 'z) prims \<Rightarrow> 'r \<Rightarrow> bytes \<Rightarrow> ('r, bytes \<times> bytes) outcome"
    and agree :: "('r, 'z) prims \<Rightarrow> 'c \<Rightarrow> bytes \<Rightarrow> bytes result"
  assumes agreement: "prims_correct P \<Longrightarrow> gen P r = (c, r') \<Longrightarrow>
      respond P s (init c) = (Ok (reply, k), s') \<Longrightarrow> agree P c reply = Ok k"
    and respond_calm: "\<not> crashed (fst (respond P s blob))"
    and agree_calm: "\<not> crashed (agree P c blob)"
begin

lemma client_reaches_server_secret:
  assumes "prims_correct P" and "respond P s (init (fst (gen P r))) = (Ok (reply, k), s')"
  shows "agree P (fst (gen P r)) reply = Ok k"
  using agreement [OF assms(1) _ assms(2), of r "snd (gen P r)"] by simp

end

section \<open>The three methods meet it\<close>

lemma not_crashed_ecdh_agree [simp]: "\<not> crashed (ecdh_agree P kp q)"
  by (simp add: ecdh_agree_def Let_def)

lemma ecdh_generated:
  "ecdh_generate P r = (kp, r') \<Longrightarrow> kp_public kp = x25519_public P (kp_secret kp)"
  by (auto simp: ecdh_generate_def split: prod.splits)

lemma ecdh_symmetric:
  assumes "prims_correct P" and "ecdh_generate P r = (a, r')" and "ecdh_generate P s = (b, s')"
  shows "ecdh_agree P a (kp_public b) = ecdh_agree P b (kp_public a)"
  using assms(1) [THEN prims_correct_laws(1)] assms(1) [THEN prims_correct_laws(3)]
    ecdh_generated [OF assms(2)] ecdh_generated [OF assms(3)]
  by (simp add: ecdh_agree_def dh_correct_def sizes(8))

lemma kp_public_length: "sizes_ok P \<Longrightarrow> ecdh_generate P r = (kp, r') \<Longrightarrow> length (kp_public kp) = 32"
  by (simp add: ecdh_generated sizes(8))

interpretation classical: kex_method ecdh_generate kp_public classical_server_respond ecdh_agree
proof
  fix P :: "('r, 'z) prims" and r s c r' reply k s'
  assume "prims_correct P" "ecdh_generate P r = (c, r')"
    "classical_server_respond P s (kp_public c) = (Ok (reply, k), s')"
  then show "ecdh_agree P c reply = Ok k"
    by (auto simp: classical_server_respond_def onOk_def ecdh_symmetric split: prod.splits result.splits)
next
  fix P :: "('r, 'z) prims" and s blob and c :: ecdh_keypair
  show "\<not> crashed (fst (classical_server_respond P s blob))"
    by (auto simp: classical_server_respond_def crashed_onOk split: prod.splits)
  show "\<not> crashed (ecdh_agree P c blob)" by simp
qed

interpretation mlkem: kex_method mlkem_generate hc_init mlkem_server_respond mlkem_agree
proof
  fix P :: "('r, 'z) prims" and r s c r' reply k s'
  assume P: "prims_correct P" and g: "mlkem_generate P r = (c, r')"
    and res: "mlkem_server_respond P s (hc_init c) = (Ok (reply, k), s')"
  note sz = prims_correct_laws(1) [OF P]
  from g obtain seed r1 x where seed: "fill_bytes P 64 r = (seed, r1)" and x: "ecdh_generate P r1 = (x, r')"
    and c: "c = \<lparr>hc_decap = mlkem_from_seed P seed, hc_x25519 = x,
      hc_init = mlkem_encapsulation_key P (mlkem_from_seed P seed) @ kp_public x\<rparr>"
    by (auto simp: mlkem_generate_def Let_def split: prod.splits)
  let ?ek = "mlkem_encapsulation_key P (mlkem_from_seed P seed)"
  have tk: "take MLKEM_EK_LEN (hc_init c) = ?ek" "drop MLKEM_EK_LEN (hc_init c) = kp_public x"
    using sz by (simp_all add: c kex_lens sizes(12))
  from res obtain m s1 kp k2 where m: "fill_bytes P 32 s = (m, s1)" and kp: "ecdh_generate P s1 = (kp, s')"
    and k2: "ecdh_agree P kp (kp_public x) = Ok k2"
    and rep: "reply = fst (mlkem_encapsulate P ?ek m) @ kp_public kp"
      "k = mlkem_combine P (snd (mlkem_encapsulate P ?ek m)) k2"
    by (auto simp: mlkem_server_respond_def Let_def tk onOk_def split: prod.splits result.splits if_splits)
  have len: "length (fst (mlkem_encapsulate P ?ek m)) = MLKEM_CT_LEN" "length (kp_public kp) = 32"
    using sz kp_public_length [OF sz kp] by (simp_all add: sizes(13) kex_lens)
  have "ecdh_agree P x (kp_public kp) = Ok k2"
    using ecdh_symmetric [OF P x kp] k2 by simp
  moreover have "mlkem_decapsulate P (mlkem_from_seed P seed) (fst (mlkem_encapsulate P ?ek m))
      = snd (mlkem_encapsulate P ?ek m)"
    using prims_correct_laws(5) [OF P] by (simp add: kem_correct_def)
  ultimately show "mlkem_agree P c reply = Ok k"
    using len by (simp add: mlkem_agree_def rep c MLKEM_SERVER_REPLY_LEN_def X25519_LEN_def)
next
  fix P :: "('r, 'z) prims" and s blob c
  show "\<not> crashed (fst (mlkem_server_respond P s blob))"
    by (auto simp: mlkem_server_respond_def Let_def crashed_onOk split: prod.splits)
  show "\<not> crashed (mlkem_agree P c blob)" by (simp add: mlkem_agree_def Let_def crashed_rbind)
qed

interpretation sntrup: kex_method sntrup_generate hc_init sntrup_server_respond sntrup_agree
proof
  fix P :: "('r, 'z) prims" and r s c r' reply k s'
  assume P: "prims_correct P" and g: "sntrup_generate P r = (c, r')"
    and res: "sntrup_server_respond P s (hc_init c) = (Ok (reply, k), s')"
  note sz = prims_correct_laws(1) [OF P]
  from g obtain seed r1 x where seed: "fill_bytes P 32 r = (seed, r1)" and x: "ecdh_generate P r1 = (x, r')"
    and c: "c = \<lparr>hc_decap = snd (sntrup_keypair P seed), hc_x25519 = x,
      hc_init = fst (sntrup_keypair P seed) @ kp_public x\<rparr>"
    by (auto simp: sntrup_generate_def Let_def split: prod.splits)
  let ?ek = "fst (sntrup_keypair P seed)"
  have tk: "take SNTRUP_PK_LEN (hc_init c) = ?ek" "drop SNTRUP_PK_LEN (hc_init c) = kp_public x"
    using sz by (simp_all add: c kex_lens sizes(14))
  from res obtain m s1 kp k2 where m: "fill_bytes P 32 s = (m, s1)" and kp: "ecdh_generate P s1 = (kp, s')"
    and k2: "ecdh_agree P kp (kp_public x) = Ok k2"
    and rep: "reply = fst (sntrup_encapsulate P ?ek m) @ kp_public kp"
      "k = sntrup_combine P (snd (sntrup_encapsulate P ?ek m)) k2"
    by (auto simp: sntrup_server_respond_def Let_def tk onOk_def split: prod.splits result.splits if_splits)
  have len: "length (fst (sntrup_encapsulate P ?ek m)) = SNTRUP_CT_LEN" "length (kp_public kp) = 32"
    using sz kp_public_length [OF sz kp] by (simp_all add: sizes(15) kex_lens)
  have "ecdh_agree P x (kp_public kp) = Ok k2"
    using ecdh_symmetric [OF P x kp] k2 by simp
  moreover have "sntrup_decapsulate P (snd (sntrup_keypair P seed)) (fst (sntrup_encapsulate P ?ek m))
      = snd (sntrup_encapsulate P ?ek m)"
    using prims_correct_laws(5) [OF P] by (simp add: kem_correct_def)
  ultimately show "sntrup_agree P c reply = Ok k"
    using len by (simp add: sntrup_agree_def rep c SNTRUP_SERVER_REPLY_LEN_def X25519_LEN_def)
next
  fix P :: "('r, 'z) prims" and s blob c
  show "\<not> crashed (fst (sntrup_server_respond P s blob))"
    by (auto simp: sntrup_server_respond_def Let_def crashed_onOk split: prod.splits)
  show "\<not> crashed (sntrup_agree P c blob)" by (simp add: sntrup_agree_def Let_def crashed_rbind)
qed

section \<open>Properties\<close>

text \<open>Hybrid key agreement. When the server accepts the blob a client generated and computes a
  secret, the client that receives the reply computes exactly that secret, for the ML-KEM hybrid,
  the sntrup761 hybrid and the classical method.\<close>

theorem kex_agreement:
  assumes "prims_correct P"
  shows "(mlkem_server_respond P s (hc_init (fst (mlkem_generate P r))) = (Ok (q, k), s') \<longrightarrow>
      mlkem_agree P (fst (mlkem_generate P r)) q = Ok k) \<and>
    (sntrup_server_respond P s (hc_init (fst (sntrup_generate P r))) = (Ok (q, k), s') \<longrightarrow>
      sntrup_agree P (fst (sntrup_generate P r)) q = Ok k) \<and>
    (classical_server_respond P s (kp_public (fst (ecdh_generate P r))) = (Ok (q, k), s') \<longrightarrow>
      ecdh_agree P (fst (ecdh_generate P r)) q = Ok k)"
  by (intro conjI impI)
    (erule mlkem.client_reaches_server_secret [OF assms] sntrup.client_reaches_server_secret [OF assms]
      classical.client_reaches_server_secret [OF assms])+

theorem kex_agreement_witness:
  "\<exists>q k s'. mlkem_server_respond sample_prims 5 (hc_init (fst (mlkem_generate sample_prims 7))) = (Ok (q, k), s') \<and>
     mlkem_agree sample_prims (fst (mlkem_generate sample_prims 7)) q = Ok k"
proof -
  have "\<exists>q k s'. mlkem_server_respond sample_prims 5 (hc_init (fst (mlkem_generate sample_prims 7))) = (Ok (q, k), s')"
    by (simp add: mlkem_server_respond_def mlkem_generate_def ecdh_generate_def ecdh_agree_def
        sample_prims_def kex_lens Let_def)
  then show ?thesis using kex_agreement [OF sample_correct] by blast
qed

end
