(* ===== verification/Cipher.thy ===== *)
theory Cipher
  imports Crypto
begin

text \<open>
  Packet ciphers (\<^verbatim>\<open>crates/ssh-transport/src/cipher.rs\<close>): plaintext framing before NEWKEYS, then
  \<^verbatim>\<open>chacha20-poly1305@openssh.com\<close> or \<^verbatim>\<open>aes256-gcm@openssh.com\<close>. Sealing appends a frame to the output
  buffer and gives the cipher and generator state it leaves; opening cuts one packet off the front of
  the receive buffer, and advances the GCM invocation counter also where the padding is then
  rejected. Opening meets the contract \<open>frame_parser\<close> of the drive loop.
\<close>

definition TAG_LEN :: nat where "TAG_LEN = 16"
definition CHACHA_BLOCK :: nat where "CHACHA_BLOCK = 8"
definition GCM_BLOCK :: nat where "GCM_BLOCK = 16"

definition aead_padding_len :: "nat \<Rightarrow> nat \<Rightarrow> nat" where
  "aead_padding_len payload_len block =
     (let unpadded = 1 + payload_len;
          pad = block - unpadded mod block
      in if pad < MIN_PADDING then pad + block else pad)"

datatype cipher =
    CNone
  | ChaCha20Poly1305 bytes bytes
  | Aes256Gcm bytes bytes

definition cipher_key_len :: "bytes \<Rightarrow> nat result" where
  "cipher_key_len name =
     (if name = CIPHER_CHACHA20_POLY1305 then Ok 64
      else if name = CIPHER_AES256_GCM then Ok 32
      else Err (NoCommonAlgorithm ''cipher''))"

definition cipher_iv_len :: "bytes \<Rightarrow> nat result" where
  "cipher_iv_len name =
     (if name = CIPHER_CHACHA20_POLY1305 then Ok 0
      else if name = CIPHER_AES256_GCM then Ok 12
      else Err (NoCommonAlgorithm ''cipher''))"

definition cipher_new :: "bytes \<Rightarrow> bytes \<Rightarrow> bytes \<Rightarrow> cipher result" where
  "cipher_new name key iv =
     (if name = CIPHER_CHACHA20_POLY1305 then
        (if length key \<noteq> 64 then Err (Kex ''chacha20-poly1305 needs 64 key bytes'')
         else Ok (ChaCha20Poly1305 (take 32 key) (take 32 (drop 32 key))))
      else if name = CIPHER_AES256_GCM then
        (if length key \<noteq> 32 \<or> length iv \<noteq> 12 then Err (Kex ''aes256-gcm needs 32 key + 12 IV bytes'')
         else Ok (Aes256Gcm key iv))
      else Err (NoCommonAlgorithm ''cipher''))"

section \<open>Stream, MAC and nonce\<close>

text \<open>XOR with the keystream from byte position \<open>i\<close> on (\<^verbatim>\<open>apply_keystream\<close>).\<close>

fun apply_keystream :: "(nat \<Rightarrow> byte) \<Rightarrow> nat \<Rightarrow> bytes \<Rightarrow> bytes" where
  "apply_keystream ks i [] = []"
| "apply_keystream ks i (b # bs) = (b XOR ks i) # apply_keystream ks (Suc i) bs"

definition cipher_nonce :: "u32 \<Rightarrow> bytes" where
  "cipher_nonce seqnr = u64_be (ucast seqnr)"

definition length_cipher :: "('r, 'z) prims \<Rightarrow> bytes \<Rightarrow> u32 \<Rightarrow> nat \<Rightarrow> byte" where
  "length_cipher P k1 seqnr = chacha20 P k1 (cipher_nonce seqnr)"

text \<open>The Poly1305 key (block 0 of the keystream) and the payload stream, read from byte 64.\<close>

definition payload_cipher :: "('r, 'z) prims \<Rightarrow> bytes \<Rightarrow> u32 \<Rightarrow> bytes \<times> (bytes \<Rightarrow> bytes)" where
  "payload_cipher P k2 seqnr =
     (let ks = chacha20 P k2 (cipher_nonce seqnr)
      in (apply_keystream ks 0 (replicate 32 0), apply_keystream ks 64))"

definition poly1305_tag :: "('r, 'z) prims \<Rightarrow> bytes \<Rightarrow> bytes \<Rightarrow> bytes" where
  "poly1305_tag P key data = poly1305 P key data"

definition gcm_increment :: "bytes \<Rightarrow> bytes" where
  "gcm_increment iv =
     (let counter = (of_nat (be_val (take 8 (drop 4 iv))) :: u64) + 1
      in take 4 iv @ u64_be counter)"

text \<open>The random padding: two draws absorbed by SHAKE-128.\<close>

definition random_padding :: "('r, 'z) prims \<Rightarrow> nat \<Rightarrow> 'r \<Rightarrow> bytes \<times> 'r" where
  "random_padding P pad r =
     (let (a, r) = fill_bytes P pad r;
          (b, r) = fill_bytes P pad r
      in (shake128 P (a @ b) pad, r))"

section \<open>Sealing\<close>

definition gcm_seal_into ::
    "('r, 'z) prims \<Rightarrow> bytes \<Rightarrow> bytes \<Rightarrow> bytes \<Rightarrow> 'r \<Rightarrow> bytes \<Rightarrow> (cipher \<times> 'r \<times> bytes) result" where
  "gcm_seal_into P key iv payload r out =
     (let pad = aead_padding_len (length payload) GCM_BLOCK;
          packet_length = (of_nat (1 + length payload + pad) :: u32);
          aad = u32_be packet_length;
          (padding, r) = random_padding P pad r;
          region = [of_nat pad] @ payload @ padding
      in case gcm_encrypt P key iv aad region of
           None \<Rightarrow> Crash ''aes-gcm encryption''
         | Some (ct, tag) \<Rightarrow> Ok (Aes256Gcm key (gcm_increment iv), r, out @ aad @ ct @ tag))"

definition chacha_seal_into ::
    "('r, 'z) prims \<Rightarrow> bytes \<Rightarrow> bytes \<Rightarrow> u32 \<Rightarrow> bytes \<Rightarrow> 'r \<Rightarrow> bytes \<Rightarrow> 'r \<times> bytes" where
  "chacha_seal_into P k2 k1 seqnr payload r out =
     (let pad = aead_padding_len (length payload) CHACHA_BLOCK;
          packet_length = (of_nat (1 + length payload + pad) :: u32);
          len_bytes = apply_keystream (length_cipher P k1 seqnr) 0 (u32_be packet_length);
          (padding, r) = random_padding P pad r;
          region = [of_nat pad] @ payload @ padding;
          (poly_key, main) = payload_cipher P k2 seqnr;
          sealed = len_bytes @ main region;
          tag = poly1305_tag P poly_key sealed
      in (r, out @ sealed @ tag))"

definition seal_into ::
    "('r, 'z) prims \<Rightarrow> cipher \<Rightarrow> u32 \<Rightarrow> bytes \<Rightarrow> 'r \<Rightarrow> bytes \<Rightarrow> (cipher \<times> 'r \<times> bytes) result" where
  "seal_into P c seqnr payload r out =
     (case c of
        CNone \<Rightarrow> Ok (CNone, r, encode_plain_into payload out)
      | Aes256Gcm key iv \<Rightarrow> gcm_seal_into P key iv payload r out
      | ChaCha20Poly1305 k2 k1 \<Rightarrow>
          let (r, out) = chacha_seal_into P k2 k1 seqnr payload r out
          in Ok (ChaCha20Poly1305 k2 k1, r, out))"

section \<open>Opening\<close>

definition gcm_open ::
    "('r, 'z) prims \<Rightarrow> bytes \<Rightarrow> bytes \<Rightarrow> bytes \<Rightarrow> (cipher, (bytes \<times> nat) option) outcome" where
  "gcm_open P key iv buf =
     (if length buf < 4 then (Ok None, Aes256Gcm key iv)
      else
        let packet_length = be_val (take 4 buf) in
        if packet_length < GCM_BLOCK \<or> packet_length mod GCM_BLOCK \<noteq> 0 \<or> packet_length > MAX_PACKET_LENGTH then
          (Err (BadPacket ''packet_length out of range''), Aes256Gcm key iv)
        else
          let total = 4 + packet_length + TAG_LEN in
          if length buf < total then (Ok None, Aes256Gcm key iv)
          else
            let aad = take 4 buf;
                region = take packet_length (drop 4 buf);
                tag = take TAG_LEN (drop (4 + packet_length) buf)
            in case gcm_decrypt P key iv aad region tag of
                 None \<Rightarrow> (Err Integrity, Aes256Gcm key iv)
               | Some region \<Rightarrow>
                   let iv = gcm_increment iv; padding_length = unat (region ! 0) in
                   if padding_length < MIN_PADDING \<or> padding_length + 1 > packet_length then
                     (Err (BadPacket ''invalid padding_length''), Aes256Gcm key iv)
                   else
                     (Ok (Some (drop 1 (take (packet_length - padding_length) region), total)),
                      Aes256Gcm key iv))"

definition chacha_open ::
    "('r, 'z) prims \<Rightarrow> bytes \<Rightarrow> bytes \<Rightarrow> u32 \<Rightarrow> bytes \<Rightarrow> (bytes \<times> nat) option result" where
  "chacha_open P k2 k1 seqnr buf =
     (if length buf < 4 then Ok None
      else
        let packet_length = be_val (apply_keystream (length_cipher P k1 seqnr) 0 (take 4 buf)) in
        if packet_length < CHACHA_BLOCK \<or> packet_length mod CHACHA_BLOCK \<noteq> 0 \<or> packet_length > MAX_PACKET_LENGTH then
          Err (BadPacket ''packet_length out of range'')
        else
          let total = 4 + packet_length + TAG_LEN in
          if length buf < total then Ok None
          else
            let (poly_key, main) = payload_cipher P k2 seqnr;
                tag = poly1305_tag P poly_key (take (4 + packet_length) buf);
                received = take TAG_LEN (drop (4 + packet_length) buf)
            in
            if tag \<noteq> received then Err Integrity
            else
              let region = main (take packet_length (drop 4 buf));
                  padding_length = unat (region ! 0)
              in
              if padding_length < MIN_PADDING \<or> padding_length + 1 > packet_length then
                Err (BadPacket ''invalid padding_length'')
              else Ok (Some (drop 1 (take (packet_length - padding_length) region), total)))"

definition cipher_open ::
    "('r, 'z) prims \<Rightarrow> cipher \<Rightarrow> u32 \<Rightarrow> bytes \<Rightarrow> (cipher, (bytes \<times> nat) option) outcome" where
  "cipher_open P c seqnr buf =
     (case c of
        CNone \<Rightarrow> (decode_plain buf, CNone)
      | Aes256Gcm key iv \<Rightarrow> gcm_open P key iv buf
      | ChaCha20Poly1305 k2 k1 \<Rightarrow> (chacha_open P k2 k1 seqnr buf, ChaCha20Poly1305 k2 k1))"

section \<open>Lemmas\<close>

lemma length_apply_keystream [simp]: "length (apply_keystream ks i bs) = length bs"
  by (induction bs arbitrary: i) simp_all

lemma xor_xor_byte [simp]: "(b XOR k) XOR k = (b :: byte)"
  by (simp add: xor.assoc)

lemma apply_keystream_involution [simp]: "apply_keystream ks i (apply_keystream ks i bs) = bs"
  by (induction bs arbitrary: i) simp_all

lemma apply_keystream_append:
  "apply_keystream ks i (xs @ ys) = apply_keystream ks i xs @ apply_keystream ks (i + length xs) ys"
  by (induction xs arbitrary: i) simp_all

lemma aead_padding_spec:
  assumes "8 \<le> block"
  shows "(1 + n + aead_padding_len n block) mod block = 0" and "4 \<le> aead_padding_len n block"
    and "aead_padding_len n block \<le> 2 * block" and "block \<le> 1 + n + aead_padding_len n block"
proof -
  note f = first_pad_bounds [OF assms, of "1 + n"]
  show a: "(1 + n + aead_padding_len n block) mod block = 0"
    using f(3) by (simp only: aead_padding_len_def Let_def)
  show "4 \<le> aead_padding_len n block"
    using f(1) by (simp only: aead_padding_len_def Let_def MIN_PADDING_def)
  show "aead_padding_len n block \<le> 2 * block"
    using f(2) by (simp only: aead_padding_len_def Let_def)
  show "block \<le> 1 + n + aead_padding_len n block"
    using a assms by (metis One_nat_def add_gr_0 dvd_imp_le mod_0_imp_dvd zero_less_Suc)
qed

lemma length_random_padding: "sizes_ok P \<Longrightarrow> length (fst (random_padding P pad r)) = pad"
  by (simp add: random_padding_def sizes split: prod.splits)

fun cipher_wf :: "cipher \<Rightarrow> bool" where
  "cipher_wf CNone = True"
| "cipher_wf (ChaCha20Poly1305 k2 k1) = (length k2 = 32 \<and> length k1 = 32)"
| "cipher_wf (Aes256Gcm key iv) = (length key = 32 \<and> length iv = 12)"

lemma cipher_new_wf: "cipher_new name key iv = Ok c \<Longrightarrow> cipher_wf c \<and> c \<noteq> CNone"
  by (auto simp: cipher_new_def split: if_splits)

lemma not_crashed_cipher_new [simp]:
  "\<not> crashed (cipher_new name key iv)" "\<not> crashed (cipher_key_len name)" "\<not> crashed (cipher_iv_len name)"
  by (simp_all add: cipher_new_def cipher_key_len_def cipher_iv_len_def)

lemma cipher_new_Ok:
  assumes "cipher_key_len name = Ok kl" "cipher_iv_len name = Ok il" "length key = kl" "length iv = il"
  shows "\<exists>c. cipher_new name key iv = Ok c"
  using assms by (auto simp: cipher_new_def cipher_key_len_def cipher_iv_len_def split: if_splits)

text \<open>The invocation counter of an IV.\<close>

definition gcm_counter :: "bytes \<Rightarrow> u64" where
  "gcm_counter iv = of_nat (be_val (take 8 (drop 4 iv)))"

lemma gcm_increment_counter:
  "length iv = 12 \<Longrightarrow> gcm_counter (gcm_increment iv) = gcm_counter iv + 1"
  "length iv = 12 \<Longrightarrow> length (gcm_increment iv) = 12"
  "length iv = 12 \<Longrightarrow> take 4 (gcm_increment iv) = take 4 iv"
  by (simp_all add: gcm_increment_def gcm_counter_def Let_def)

lemma gcm_counter_funpow:
  "length iv = 12 \<Longrightarrow> length ((gcm_increment ^^ n) iv) = 12 \<and>
     gcm_counter ((gcm_increment ^^ n) iv) = gcm_counter iv + of_nat n"
  by (induction n) (auto simp: gcm_increment_counter)

lemma cipher_open_frame_parser: "frame_parser (\<lambda>buf. fst (cipher_open P c seqnr buf))"
proof (cases c)
  case CNone
  then show ?thesis using decode_plain_frame_parser by (simp add: cipher_open_def)
next
  case (ChaCha20Poly1305 k2 k1)
  show ?thesis
    unfolding cipher_open_def ChaCha20Poly1305 cipher.case fst_conv
    by unfold_locales (auto simp: chacha_open_def Let_def split_def split: if_splits)
next
  case (Aes256Gcm key iv)
  show ?thesis
    unfolding cipher_open_def Aes256Gcm cipher.case
    by unfold_locales (auto simp: gcm_open_def Let_def split: if_splits option.splits)
qed

interpretation sealed: frame_parser "\<lambda>buf. fst (cipher_open P c seqnr buf)" for P c seqnr
  by (rule cipher_open_frame_parser)

lemma cipher_open_short:
  assumes "cipher_open P c seqnr buf = (Ok (Some (p, n)), c')"
  shows "length p \<le> MAX_PACKET_LENGTH"
proof (cases c)
  case CNone
  with assms show ?thesis by (auto simp: cipher_open_def decode_plain_cases)
next
  case (ChaCha20Poly1305 k2 k1)
  with assms show ?thesis
    by (auto simp: cipher_open_def chacha_open_def Let_def split_def split: if_splits)
next
  case (Aes256Gcm key iv)
  with assms show ?thesis
    by (auto simp: cipher_open_def gcm_open_def Let_def split: if_splits option.splits)
qed

lemma cipher_open_wf: "cipher_wf c \<Longrightarrow> cipher_wf (snd (cipher_open P c seqnr buf))"
  by (cases c) (auto simp: cipher_open_def gcm_open_def Let_def gcm_increment_counter split: option.splits)

lemma cipher_open_kind: "snd (cipher_open P c seqnr buf) = CNone \<longleftrightarrow> c = CNone"
  by (cases c) (auto simp: cipher_open_def gcm_open_def Let_def split: option.splits)

text \<open>The frame a cipher appends does not depend on what the buffer already holds.\<close>

lemma seal_into_append:
  "seal_into P c seqnr p r out =
     rbind (seal_into P c seqnr p r []) (\<lambda>(c', r', f). Ok (c', r', out @ f))"
  by (cases c)
    (auto simp: seal_into_def gcm_seal_into_def chacha_seal_into_def Let_def
      encode_plain_into_append [of p out] split: prod.splits option.splits)

definition sealable :: "cipher \<Rightarrow> nat \<Rightarrow> bool" where
  "sealable c n =
     (case c of
        CNone \<Rightarrow> 1 + n + padding_len n BLOCK \<le> MAX_PACKET_LENGTH
      | ChaCha20Poly1305 _ _ \<Rightarrow> 1 + n + aead_padding_len n CHACHA_BLOCK \<le> MAX_PACKET_LENGTH
      | Aes256Gcm _ _ \<Rightarrow> 1 + n + aead_padding_len n GCM_BLOCK \<le> MAX_PACKET_LENGTH)"

lemma sealable_le: "n + 64 \<le> MAX_PACKET_LENGTH \<Longrightarrow> sealable c n"
  using padding_len_byte [of n] aead_padding_spec(3) [of 8 n] aead_padding_spec(3) [of 16 n]
  by (simp add: sealable_def CHACHA_BLOCK_def GCM_BLOCK_def split: cipher.splits)

lemma chacha_roundtrip:
  assumes P: "sizes_ok P" and n: "sealable (ChaCha20Poly1305 k2 k1) (length p)"
    and f: "chacha_seal_into P k2 k1 seqnr p r [] = (r', f)"
  shows "chacha_open P k2 k1 seqnr (f @ rest) = Ok (Some (p, length f))"
proof -
  define pad where "pad = aead_padding_len (length p) CHACHA_BLOCK"
  define pl where "pl = 1 + length p + pad"
  define ks where "ks = chacha20 P k2 (cipher_nonce seqnr)"
  define padding where "padding = fst (random_padding P pad r)"
  define region where "region = of_nat pad # p @ padding"
  define lenb where "lenb = apply_keystream (length_cipher P k1 seqnr) 0 (u32_be (of_nat pl))"
  define body where "body = lenb @ apply_keystream ks 64 region"
  define tag where "tag = poly1305 P (apply_keystream ks 0 (replicate 32 0)) body"
  have pad: "(1 + length p + pad) mod 8 = 0" "4 \<le> pad" "pad \<le> 16" "8 \<le> pl"
    using aead_padding_spec [of 8 "length p"] by (simp_all add: pad_def pl_def CHACHA_BLOCK_def)
  have pl: "pl \<le> MAX_PACKET_LENGTH" using n by (simp add: sealable_def pl_def pad_def)
  have region: "length region = pl" "unat (region ! 0) = pad"
    using pad length_random_padding [OF P, of pad r]
    by (simp_all add: region_def padding_def pl_def unat_of_nat)
  have len: "length lenb = 4" "length body = 4 + pl" "length tag = 16"
    using region(1) P by (simp_all add: lenb_def body_def tag_def sizes)
  have pv: "be_val (apply_keystream (length_cipher P k1 seqnr) 0 lenb) = pl"
    using pl by (simp add: lenb_def unat_of_nat_u32 MAX_PACKET_LENGTH_def)
  have ff: "f = body @ tag"
    using f by (simp add: chacha_seal_into_def payload_cipher_def poly1305_tag_def Let_def split_def
        body_def tag_def lenb_def pl_def region_def padding_def pad_def ks_def)
  define buf where "buf = f @ rest"
  have tk: "take 4 buf = lenb" "take (4 + pl) buf = body"
    "take pl (drop 4 buf) = apply_keystream ks 64 region"
    "take TAG_LEN (drop (4 + pl) buf) = tag" "\<not> length buf < 4 + pl + TAG_LEN" "\<not> length buf < 4"
    using len region(1) by (simp_all add: buf_def ff body_def TAG_LEN_def)
  have out: "drop 1 (take (pl - pad) region) = p"
    by (simp add: region_def pl_def)
  have m: "pl mod CHACHA_BLOCK = 0" "\<not> pl < CHACHA_BLOCK" "\<not> pl > MAX_PACKET_LENGTH"
    "\<not> pad < MIN_PADDING" "\<not> pad + 1 > pl"
    using pad pl by (simp_all add: pl_def CHACHA_BLOCK_def MIN_PADDING_def)
  have "chacha_open P k2 k1 seqnr buf = Ok (Some (p, 4 + pl + TAG_LEN))"
    unfolding chacha_open_def payload_cipher_def tk(1) pv Let_def prod.case ks_def [symmetric]
      poly1305_tag_def tk(2-4) tag_def [symmetric] apply_keystream_involution region(2) out
    using tk(5,6) m by simp
  then show ?thesis using len by (simp add: buf_def ff TAG_LEN_def)
qed

lemma gcm_roundtrip:
  assumes P: "sizes_ok P" "gcm_correct P" and n: "sealable (Aes256Gcm key iv) (length p)"
    and f: "gcm_seal_into P key iv p r [] = Ok (c', r', f)"
  shows "gcm_open P key iv (f @ rest) = (Ok (Some (p, length f)), c')"
proof -
  define pad where "pad = aead_padding_len (length p) GCM_BLOCK"
  define pl where "pl = 1 + length p + pad"
  define padding where "padding = fst (random_padding P pad r)"
  define region where "region = of_nat pad # p @ padding"
  define aad where "aad = u32_be (of_nat pl)"
  have pad: "(1 + length p + pad) mod 16 = 0" "4 \<le> pad" "pad \<le> 32" "16 \<le> pl"
    using aead_padding_spec [of 16 "length p"] by (simp_all add: pad_def pl_def GCM_BLOCK_def)
  have pl: "pl \<le> MAX_PACKET_LENGTH" using n by (simp add: sealable_def pl_def pad_def)
  have region: "length region = pl" "unat (region ! 0) = pad"
    using pad length_random_padding [OF P(1), of pad r]
    by (simp_all add: region_def padding_def pl_def unat_of_nat)
  have pv: "be_val aad = pl" "length aad = 4"
    using pl by (simp_all add: aad_def unat_of_nat_u32 MAX_PACKET_LENGTH_def)
  from f obtain ct tag where e: "gcm_encrypt P key iv aad region = Some (ct, tag)"
    and ff: "f = aad @ ct @ tag" and c': "c' = Aes256Gcm key (gcm_increment iv)"
    by (auto simp: gcm_seal_into_def Let_def split_def region_def aad_def pl_def pad_def padding_def
        split: option.splits)
  have len: "length ct = pl" "length tag = TAG_LEN"
    using sizes(6) [OF P(1) e] region(1) by (simp_all add: TAG_LEN_def)
  define buf where "buf = f @ rest"
  have tk: "take 4 buf = aad" "take pl (drop 4 buf) = ct"
    "take TAG_LEN (drop (4 + pl) buf) = tag" "\<not> length buf < 4 + pl + TAG_LEN" "\<not> length buf < 4"
    using len pv(2) by (simp_all add: buf_def ff)
  have d: "gcm_decrypt P key iv aad ct tag = Some region"
    using P(2) e unfolding gcm_correct_def by blast
  have out: "drop 1 (take (pl - pad) region) = p"
    by (simp add: region_def pl_def)
  have m: "pl mod GCM_BLOCK = 0" "\<not> pl < GCM_BLOCK" "\<not> pl > MAX_PACKET_LENGTH"
    "\<not> pad < MIN_PADDING" "\<not> pad + 1 > pl"
    using pad pl by (simp_all add: pl_def GCM_BLOCK_def MIN_PADDING_def)
  have "gcm_open P key iv buf = (Ok (Some (p, 4 + pl + TAG_LEN)), c')"
    unfolding gcm_open_def tk(1) pv Let_def tk(2-3) d option.case region(2) out c'
    using tk(4,5) m by simp
  then show ?thesis using len pv(2) by (simp add: buf_def ff)
qed

lemma cipher_open_seal:
  assumes P: "prims_correct P" and n: "sealable c (length p)"
    and f: "seal_into P c seqnr p r [] = Ok (c', r', f)"
  shows "cipher_open P c seqnr (f @ rest) = (Ok (Some (p, length f)), c')"
proof (cases c)
  case CNone
  then show ?thesis using n f by (auto simp: cipher_open_def seal_into_def sealable_def decode_encode_plain)
next
  case (ChaCha20Poly1305 k2 k1)
  with f obtain g where g: "chacha_seal_into P k2 k1 seqnr p r [] = (r', g)" and "f = g" "c' = c"
    by (auto simp: seal_into_def split: prod.splits)
  then show ?thesis using chacha_roundtrip [OF prims_correct_laws(1) [OF P] _ g] n ChaCha20Poly1305
    by (simp add: cipher_open_def)
next
  case (Aes256Gcm key iv)
  with f have "gcm_seal_into P key iv p r [] = Ok (c', r', f)" by (simp add: seal_into_def)
  then show ?thesis
    using gcm_roundtrip [OF prims_correct_laws(1,2) [OF P] _, of key iv p r c' r' f] n Aes256Gcm
    by (simp add: cipher_open_def)
qed

lemma not_crashed_seal:
  assumes "sizes_ok P" and "gcm_total P" and "length p < 2 ^ 35"
  shows "\<exists>c' r' f. seal_into P c seqnr p r out = Ok (c', r', out @ f) \<and> (cipher_wf c \<longrightarrow> cipher_wf c')
    \<and> (c' = CNone \<longleftrightarrow> c = CNone)"
proof (cases c)
  case CNone
  then show ?thesis using encode_plain_into_append [of p out] by (auto simp: seal_into_def)
next
  case (ChaCha20Poly1305 k2 k1)
  then show ?thesis by (auto simp: seal_into_def chacha_seal_into_def Let_def split: prod.splits)
next
  case (Aes256Gcm key iv)
  let ?pad = "aead_padding_len (length p) GCM_BLOCK"
  have "length (of_nat ?pad # p @ fst (random_padding P ?pad r)) < 2 ^ 36"
    using assms(3) aead_padding_spec(3) [of 16 "length p"] length_random_padding [OF assms(1), of ?pad r]
    by (simp add: GCM_BLOCK_def)
  then have "gcm_encrypt P key iv aad (of_nat ?pad # p @ fst (random_padding P ?pad r)) \<noteq> None" for aad
    using assms(2) by (simp add: gcm_total_def del: length_append)
  then show ?thesis
    using Aes256Gcm
    by (fastforce simp: seal_into_def gcm_seal_into_def Let_def split_def gcm_increment_counter
        split: option.splits)
qed

section \<open>Properties\<close>

text \<open>Sealing and opening are inverse. For each of the three ciphers, every payload whose padded
  region stays within the packet limit, every sequence number and every generator state: opening the
  sealed frame (whatever follows it) with the same key and sequence number returns the payload,
  consumes exactly the frame, and leaves the receiver's cipher in the state the sender's is in, so
  that the next packet again opens.\<close>

theorem cipher_roundtrip:
  assumes "prims_correct P" and "sealable c (length p)"
    and "seal_into P c seqnr p r out = Ok (c', r', out')"
  shows "\<exists>f. out' = out @ f \<and> cipher_open P c seqnr (f @ rest) = (Ok (Some (p, length f)), c')"
proof -
  from assms(3) obtain f where "seal_into P c seqnr p r [] = Ok (c', r', f)" "out' = out @ f"
    unfolding seal_into_append [of P c seqnr p r out] by (auto simp: rbind_Ok_iff)
  with cipher_open_seal [OF assms(1,2)] show ?thesis by blast
qed

theorem cipher_roundtrip_witness:
  "\<exists>f. cipher_open sample_prims (ChaCha20Poly1305 (replicate 32 1) (replicate 32 2)) 9 (f @ [5])
     = (Ok (Some ([94, 1, 2], length f)), ChaCha20Poly1305 (replicate 32 1) (replicate 32 2))"
proof -
  let ?c = "ChaCha20Poly1305 (replicate 32 1) (replicate 32 2)"
  obtain r' out' where s: "seal_into sample_prims ?c 9 [94, 1, 2] (0 :: nat) [] = Ok (?c, r', out')"
    by (cases "chacha_seal_into sample_prims (replicate 32 1) (replicate 32 2) 9 [94, 1, 2] 0 []")
      (simp add: seal_into_def)
  have "sealable ?c (length [94 :: byte, 1, 2])"
    by (simp add: sealable_def aead_padding_len_def CHACHA_BLOCK_def MIN_PADDING_def MAX_PACKET_LENGTH_def Let_def)
  from cipher_roundtrip [OF sample_correct this s, of "[5]"] show ?thesis by blast
qed

text \<open>C38: Nothing unauthenticated is accepted. A packet that \<open>chacha20-poly1305\<close> opens lies inside the
  buffer within the size limit, its length is the decrypted one and a positive multiple of the block,
  and the 16 bytes behind it are the Poly1305 tag of everything before, under the key of this
  sequence number; otherwise the answer is an error or a request for more bytes. Bytes that arrive
  later never change the answer.\<close>

theorem chacha_open_authentic:
  assumes "cipher_open P (ChaCha20Poly1305 k2 k1) seqnr buf = (Ok (Some (p, n)), c')"
  shows "20 < n \<and> n \<le> length buf \<and> n \<le> 4 + MAX_PACKET_LENGTH + TAG_LEN \<and> length p + 25 \<le> n \<and>
    be_val (apply_keystream (length_cipher P k1 seqnr) 0 (take 4 buf)) + 20 = n \<and> (n - 20) mod 8 = 0 \<and>
    take 16 (drop (n - 16) buf) = poly1305_tag P (fst (payload_cipher P k2 seqnr)) (take (n - 16) buf) \<and>
    c' = ChaCha20Poly1305 k2 k1 \<and>
    fst (cipher_open P (ChaCha20Poly1305 k2 k1) seqnr (buf @ ext)) = Ok (Some (p, n))"
proof -
  have st: "fst (cipher_open P (ChaCha20Poly1305 k2 k1) seqnr (buf @ ext)) = Ok (Some (p, n))"
    using sealed.stable [of P "ChaCha20Poly1305 k2 k1" seqnr buf p n ext] assms by simp
  define pl where "pl = be_val (apply_keystream (length_cipher P k1 seqnr) 0 (take 4 buf))"
  from assms have c': "c' = ChaCha20Poly1305 k2 k1" and o: "chacha_open P k2 k1 seqnr buf = Ok (Some (p, n))"
    by (simp_all add: cipher_open_def)
  from o have "n = 4 + pl + 16" "8 \<le> pl" "pl mod 8 = 0" "pl \<le> MAX_PACKET_LENGTH" "n \<le> length buf"
    "take 16 (drop (4 + pl) buf) = poly1305_tag P (fst (payload_cipher P k2 seqnr)) (take (4 + pl) buf)"
    "length p + 5 \<le> pl"
    unfolding chacha_open_def pl_def [symmetric]
    by (auto simp: Let_def split_def CHACHA_BLOCK_def TAG_LEN_def MIN_PADDING_def split: if_splits)
  with st c' show ?thesis unfolding pl_def [symmetric] by (simp add: TAG_LEN_def)
qed

theorem chacha_open_authentic_witness:
  "\<exists>f c'. cipher_open sample_prims (ChaCha20Poly1305 (replicate 32 1) (replicate 32 2)) 9 f
     = (Ok (Some ([94, 1, 2], length f)), c') \<and> 20 < length f"
proof -
  let ?c = "ChaCha20Poly1305 (replicate 32 1) (replicate 32 2)"
  obtain r' f where s: "seal_into sample_prims ?c 9 [94, 1, 2] (0 :: nat) [] = Ok (?c, r', f)"
    by (cases "chacha_seal_into sample_prims (replicate 32 1) (replicate 32 2) 9 [94, 1, 2] 0 []")
      (simp add: seal_into_def)
  have "sealable ?c (length [94 :: byte, 1, 2])"
    by (simp add: sealable_def aead_padding_len_def CHACHA_BLOCK_def MIN_PADDING_def MAX_PACKET_LENGTH_def Let_def)
  from cipher_open_seal [OF sample_correct this s, of "[]"]
  have "cipher_open sample_prims ?c 9 f = (Ok (Some ([94, 1, 2], length f)), ?c)" by simp
  with chacha_open_authentic [OF this] show ?thesis by blast
qed

text \<open>AEAD nonces. Distinct sequence numbers give distinct ChaCha20 nonces, and the GCM nonce does
  not repeat within \<open>2 ^ 64\<close> packets of one key: the IV after \<open>i\<close> and after \<open>j\<close> packets is the same only
  if \<open>i\<close> and \<open>j\<close> agree modulo \<open>2 ^ 64\<close>, and the fixed field of the IV never changes.\<close>

theorem aead_nonces_distinct:
  "(cipher_nonce a = cipher_nonce b \<longrightarrow> a = b) \<and>
   (length iv = 12 \<longrightarrow> (gcm_increment ^^ i) iv = (gcm_increment ^^ j) iv \<longrightarrow>
      i mod 2 ^ 64 = j mod 2 ^ 64) \<and>
   (length iv = 12 \<longrightarrow> take 4 ((gcm_increment ^^ i) iv) = take 4 iv)"
proof (intro conjI impI)
  assume "cipher_nonce a = cipher_nonce b"
  then have "unat (ucast a :: u64) = unat (ucast b :: u64)"
    unfolding cipher_nonce_def using be_val_u64_be by metis
  moreover have "unat (ucast x :: u64) = unat x" for x :: u32
    using unat_u32 [of x] by (simp add: unsigned_ucast_eq take_bit_nat_eq_self del: unat_u32)
  ultimately show "a = b" by (simp add: word_unat_eq_iff)
next
  assume iv: "length iv = 12" and "(gcm_increment ^^ i) iv = (gcm_increment ^^ j) iv"
  then have "gcm_counter iv + of_nat i = gcm_counter iv + (of_nat j :: u64)"
    using gcm_counter_funpow [OF iv] by metis
  then have "unat (of_nat i :: u64) = unat (of_nat j :: u64)" by simp
  then show "i mod 2 ^ 64 = j mod 2 ^ 64" by (simp add: unat_of_nat)
next
  assume iv: "length iv = 12"
  show "take 4 ((gcm_increment ^^ i) iv) = take 4 iv"
    using gcm_counter_funpow [OF iv] by (induction i) (auto simp: gcm_increment_counter)
qed

theorem aead_nonces_distinct_witness:
  "(gcm_increment ^^ 3) (replicate 12 255) \<noteq> (gcm_increment ^^ 4) (replicate 12 255)"
  using aead_nonces_distinct [of 0 0 "replicate 12 255" 3 4] by (intro notI) simp

end
