(* ===== verification/Compress.thy ===== *)
theory Compress
  imports Crypto
begin

text \<open>
  Payload compression (\<^verbatim>\<open>crates/ssh-transport/src/compress.rs\<close>): the two loops that call zlib until a
  payload is deflated or inflated. A \<^verbatim>\<open>Vec\<close> is its bytes and its capacity, which the loops grow when it
  is full. Both loops are \<^theory_text>\<open>partial_function\<close>s; not returning is \<open>Crash\<close> in the methods built on
  them, and the theorems show that neither happens under the documented behaviour of zlib.
\<close>

datatype 'z compressor = CompNone | CompZlib 'z

datatype 'z decompressor = DecompNone | DecompZlib 'z

definition compressor_new :: "('r, 'z) prims \<Rightarrow> bytes \<Rightarrow> 'z compressor" where
  "compressor_new P name =
     (if name = COMPRESSION_ZLIB_OPENSSH then CompZlib (deflate_new P) else CompNone)"

definition decompressor_new :: "('r, 'z) prims \<Rightarrow> bytes \<Rightarrow> 'z decompressor" where
  "decompressor_new P name =
     (if name = COMPRESSION_ZLIB_OPENSSH then DecompZlib (inflate_new P) else DecompNone)"

text \<open>\<^verbatim>\<open>if out.len() == out.capacity() { reserve_zeroizing(&mut out, capacity.max(least)) }\<close>\<close>

definition grown_cap :: "bytes \<Rightarrow> nat \<Rightarrow> nat \<Rightarrow> nat" where
  "grown_cap out cap least = (if length out = cap then length out + max cap least else cap)"

partial_function (option) compress_loop ::
    "('r, 'z) prims \<Rightarrow> bytes \<Rightarrow> nat \<Rightarrow> 'z \<Rightarrow> bytes \<Rightarrow> nat \<Rightarrow> (bytes \<times> 'z) result option" where
  "compress_loop P payload start_in c out cap =
     (let cap = grown_cap out cap 128;
          in_before = total_in P c;
          out_before = total_out P c;
          consumed = in_before - start_in
      in
      if consumed > length payload then Some (Crash ''slice index out of range'')
      else case deflate P c (drop consumed payload) (cap - length out) of
        None \<Rightarrow> Some (Crash ''zlib compress'')
      | Some (chunk, c') \<Rightarrow>
          let out = out @ chunk;
              consumed_all = (total_in P c' - start_in = length payload);
              no_progress = (total_in P c' = in_before \<and> total_out P c' = out_before)
          in
          if (consumed_all \<and> length out < cap) \<or> no_progress then Some (Ok (out, c'))
          else compress_loop P payload start_in c' out cap)"

definition compress :: "('r, 'z) prims \<Rightarrow> 'z compressor \<Rightarrow> bytes \<Rightarrow> (bytes \<times> 'z compressor) result" where
  "compress P cz payload =
     (case cz of
        CompNone \<Rightarrow> Ok (payload, CompNone)
      | CompZlib c \<Rightarrow>
          (case compress_loop P payload (total_in P c) c [] (64 + length payload) of
             None \<Rightarrow> Crash ''compress does not return''
           | Some r \<Rightarrow> rbind r (\<lambda>(out, c'). Ok (out, CompZlib c'))))"

partial_function (option) decompress_loop ::
    "('r, 'z) prims \<Rightarrow> bytes \<Rightarrow> nat \<Rightarrow> 'z \<Rightarrow> bytes \<Rightarrow> nat \<Rightarrow> ('z, bytes) outcome option" where
  "decompress_loop P payload start_in d out cap =
     (let cap = grown_cap out cap 64;
          out_before = total_out P d;
          consumed = total_in P d - start_in
      in
      if consumed > length payload then Some (Crash ''slice index out of range'', d)
      else case inflate P d (drop consumed payload) (cap - length out) of
        None \<Rightarrow> Some (Err (Compression ''malformed compressed payload''), d)
      | Some (status, chunk, d') \<Rightarrow>
          let out = out @ chunk in
          if length out > MAX_PACKET_LENGTH then
            Some (Err (Compression ''decompressed payload too large''), d')
          else
            let consumed_all = (total_in P d' - start_in = length payload);
                produced = total_out P d' - out_before
            in
            if status = ZStreamEnd \<or> (consumed_all \<and> produced = 0) then Some (Ok out, d')
            else decompress_loop P payload start_in d' out cap)"

definition decompress ::
    "('r, 'z) prims \<Rightarrow> 'z decompressor \<Rightarrow> bytes \<Rightarrow> ('z decompressor, bytes) outcome" where
  "decompress P dec payload =
     (case dec of
        DecompNone \<Rightarrow> (Ok payload, DecompNone)
      | DecompZlib d \<Rightarrow>
          (case decompress_loop P payload (total_in P d) d [] (64 + length payload * 2) of
             None \<Rightarrow> (Crash ''decompress does not return'', DecompZlib d)
           | Some (r, d') \<Rightarrow> (r, DecompZlib d')))"

section \<open>The loops return\<close>

lemma grown_cap_room: "length out \<le> cap \<Longrightarrow> least > 0 \<Longrightarrow> length out < grown_cap out cap least"
  by (auto simp: grown_cap_def max_def)

lemma zlib_counts_inflate:
  assumes "zlib_counts P" and "inflate P d input room = Some (st, o', d')"
  shows "length o' \<le> room" "total_out P d' = total_out P d + length o'"
    "total_in P d \<le> total_in P d'" "total_in P d' \<le> total_in P d + length input"
  using assms unfolding zlib_counts_def by blast+

lemma zlib_counts_deflate:
  assumes "zlib_counts P" and "deflate P c input room = Some (o', c')"
  shows "length o' \<le> room" "total_out P c' = total_out P c + length o'"
    "total_in P c \<le> total_in P c'" "total_in P c' \<le> total_in P c + length input"
  using assms unfolding zlib_counts_def by blast+

lemma decompress_loop_returns:
  assumes P: "zlib_counts P" "inflate_progress P"
  shows "start \<le> total_in P d \<Longrightarrow> total_in P d \<le> start + length payload \<Longrightarrow> length out \<le> cap \<Longrightarrow>
    length out \<le> MAX_PACKET_LENGTH \<Longrightarrow>
    \<exists>r d'. decompress_loop P payload start d out cap = Some (r, d') \<and> \<not> crashed r \<and>
      (\<forall>bs. r = Ok bs \<longrightarrow> length bs \<le> MAX_PACKET_LENGTH)"
proof (induction "(MAX_PACKET_LENGTH - length out) + (start + length payload - total_in P d)"
    arbitrary: d out cap rule: less_induct)
  case less
  define cap' where "cap' = grown_cap out cap 64"
  define input where "input = drop (total_in P d - start) payload"
  have room: "length out < cap'" using less.prems by (simp add: cap'_def grown_cap_room)
  have c: "\<not> total_in P d - start > length payload" using less.prems by simp
  note step = decompress_loop.simps [of P payload start d out cap]
  show ?case
  proof (cases "inflate P d input (cap' - length out)")
    case None
    then show ?thesis using c by (subst step) (simp add: Let_def cap'_def input_def)
  next
    case (Some res)
    obtain st o' d' where res: "res = (st, o', d')" by (cases res) auto
    note i = Some [unfolded res]
    note k = zlib_counts_inflate [OF P(1) i]
    have li: "length input = start + length payload - total_in P d"
      using less.prems by (simp add: input_def)
    have t: "start \<le> total_in P d'" "total_in P d' \<le> start + length payload"
      using k(3,4) li less.prems by auto
    show ?thesis
    proof (cases "length (out @ o') > MAX_PACKET_LENGTH \<or> st = ZStreamEnd \<or>
        (total_in P d' - start = length payload \<and> o' = [])")
      case True
      then show ?thesis
        using c i k(2) by (subst step) (auto simp: Let_def cap'_def [symmetric] input_def [symmetric])
    next
      case False
      have prog: "o' \<noteq> [] \<or> total_in P d' \<noteq> total_in P d"
      proof (cases "input = []")
        case True
        then show ?thesis using False li t k(3) by auto
      next
        case False': False
        then show ?thesis using P(2) i room False unfolding inflate_progress_def by (metis zero_less_diff)
      qed
      have small: "length (out @ o') \<le> MAX_PACKET_LENGTH" "length (out @ o') \<le> cap'"
        using False k(1) room by auto
      have "(MAX_PACKET_LENGTH - length (out @ o')) + (start + length payload - total_in P d')
          < (MAX_PACKET_LENGTH - length out) + (start + length payload - total_in P d)"
        using prog small(1) t k(3) by (cases o') auto
      from less.hyps [OF this t small(2,1)] obtain r d'' where
        "decompress_loop P payload start d' (out @ o') cap' = Some (r, d'')" "\<not> crashed r"
        "\<forall>bs. r = Ok bs \<longrightarrow> length bs \<le> MAX_PACKET_LENGTH" by blast
      then show ?thesis
        using c i k(2) False
        by (subst step) (auto simp: Let_def cap'_def [symmetric] input_def [symmetric])
    qed
  qed
qed

lemma decompress_safe:
  assumes "prims_safe P"
  shows "\<not> crashed (fst (decompress P dec payload))"
proof (cases dec)
  case (DecompZlib d)
  from decompress_loop_returns [OF prims_safe_laws(3,4) [OF assms], of "total_in P d" d payload "[]" "64 + length payload * 2"]
  show ?thesis using DecompZlib by (auto simp: decompress_def)
qed (simp add: decompress_def)

lemma deflate_run_snoc:
  assumes P: "zlib_counts P"
  shows "deflate_run P z input out z' \<Longrightarrow> total_in P z \<le> total_in P z' \<and>
    (\<forall>room o' z''. deflate P z' (drop (total_in P z' - total_in P z) input) room = Some (o', z'') \<longrightarrow>
      length o' = room \<or> total_in P z'' < total_in P z' + length (drop (total_in P z' - total_in P z) input) \<longrightarrow>
      deflate_run P z input (out @ o') z'')"
proof (induction rule: deflate_run.induct)
  case (run_stop z input)
  then show ?case using deflate_run.run_step [OF _ _ deflate_run.run_stop] by fastforce
next
  case (run_step z input room out z' rest z'')
  note k = zlib_counts_deflate(3) [OF P run_step(1)]
  have m: "total_in P z \<le> total_in P z''" using k run_step.IH by simp
  have d: "drop (total_in P z'' - total_in P z) input
      = drop (total_in P z'' - total_in P z') (drop (total_in P z' - total_in P z) input)"
    using k run_step.IH by simp
  show ?case
    using m run_step.IH deflate_run.run_step [OF run_step(1,2)] unfolding d by auto
qed

lemma compress_loop_returns:
  assumes P: "zlib_counts P" "deflate_total P"
    and bound: "\<And>out z'. deflate_run P z payload out z' \<Longrightarrow> length out \<le> bound"
  shows "deflate_run P z payload out c \<Longrightarrow> total_in P c \<le> total_in P z + length payload \<Longrightarrow>
    length out \<le> cap \<Longrightarrow> cap \<le> M \<Longrightarrow> 2 * bound + 128 \<le> M \<Longrightarrow>
    \<exists>out' c'. compress_loop P payload (total_in P z) c out cap = Some (Ok (out', c')) \<and> length out' \<le> M"
proof (induction "(bound - length out) + (total_in P z + length payload - total_in P c)"
    arbitrary: c out cap rule: less_induct)
  case less
  define cap' where "cap' = grown_cap out cap 128"
  define input where "input = drop (total_in P c - total_in P z) payload"
  note sn = deflate_run_snoc [OF P(1) less.prems(1), THEN conjunct2, rule_format, folded input_def]
  have mono: "total_in P z \<le> total_in P c" using deflate_run_snoc [OF P(1) less.prems(1)] by simp
  have room: "length out < cap'" using less.prems by (simp add: cap'_def grown_cap_room)
  have g: "\<not> total_in P c - total_in P z > length payload" using less.prems by simp
  have M: "cap' \<le> M" using less.prems(4,5) bound [OF less.prems(1)] by (auto simp: cap'_def grown_cap_def max_def)
  obtain o' c' where o': "deflate P c input (cap' - length out) = Some (o', c')"
    using P(2) unfolding deflate_total_def by (metis option.exhaust prod.exhaust)
  note k = zlib_counts_deflate [OF P(1) o']
  have li: "length input = total_in P z + length payload - total_in P c"
    using less.prems mono by (simp add: input_def)
  have t: "total_in P c' \<le> total_in P z + length payload" using k(4) li less.prems(2) by simp
  note step = compress_loop.simps [of P payload "total_in P z" c out cap]
  show ?case
  proof (cases "total_in P c' - total_in P z = length payload \<and> length (out @ o') < cap' \<or>
      total_in P c' = total_in P c \<and> total_out P c' = total_out P c")
    case True
    then show ?thesis
      using g o' M k(1) room by (subst step) (auto simp: Let_def cap'_def [symmetric] input_def [symmetric])
  next
    case False
    have "length o' = cap' - length out \<or> total_in P c' < total_in P c + length input"
      using False k(1) room t li mono k(3) by auto
    from sn [OF o' this] have run: "deflate_run P z payload (out @ o') c'" .
    have "length (out @ o') \<le> bound" using bound [OF run] .
    moreover have "o' \<noteq> [] \<or> total_in P c' \<noteq> total_in P c" using False k(2) by auto
    ultimately have "(bound - length (out @ o')) + (total_in P z + length payload - total_in P c')
        < (bound - length out) + (total_in P z + length payload - total_in P c)"
      using k(3) t by (cases o') auto
    moreover have "length (out @ o') \<le> cap'" using k(1) room by simp
    ultimately obtain out'' c'' where
      "compress_loop P payload (total_in P z) c' (out @ o') cap' = Some (Ok (out'', c''))"
      "length out'' \<le> M"
      using less.hyps [OF _ run t _ M less.prems(5)] by blast
    then show ?thesis
      using g o' False by (subst step) (auto simp: Let_def cap'_def [symmetric] input_def [symmetric])
  qed
qed

text \<open>The most a compressed message takes, for the bounds of the packet layer.\<close>

definition compressed_max :: "nat \<Rightarrow> nat" where
  "compressed_max n = 4 * n + 2 ^ 22"

lemma compress_safe:
  assumes "prims_safe P"
  obtains out cz' where "compress P cz payload = Ok (out, cz')" and "cz' = CompNone \<longleftrightarrow> cz = CompNone"
    and "length out \<le> compressed_max (length payload)"
proof (cases cz)
  case CompNone
  then show thesis using that by (simp add: compress_def compressed_max_def)
next
  case (CompZlib c)
  have b: "\<And>out z'. deflate_run P c payload out z' \<Longrightarrow> length out \<le> 2 * length payload + 2 ^ 20"
    using prims_safe_laws(6) [OF assms] unfolding deflate_bounded_def by blast
  have "\<exists>out' c'. compress_loop P payload (total_in P c) c [] (64 + length payload) = Some (Ok (out', c')) \<and>
      length out' \<le> compressed_max (length payload)"
    by (rule compress_loop_returns [OF prims_safe_laws(3,5) [OF assms] b deflate_run.run_stop])
      (simp_all add: compressed_max_def)
  then obtain out' c' where
    "compress_loop P payload (total_in P c) c [] (64 + length payload) = Some (Ok (out', c'))"
    "length out' \<le> compressed_max (length payload)" by blast
  then show thesis using that CompZlib by (simp add: compress_def)
qed

section \<open>Properties\<close>



end
