(* ===== verification/Transport.thy ===== *)
theory Transport
  imports Kdf Hostkey Kex Cipher Compress
begin

text \<open>
  The transport state machine (\<^verbatim>\<open>crates/ssh-transport/src/transport.rs\<close>): the record \<open>transport\<close> has the
  fields of the struct, and every method is a definition that returns its result and the state it
  leaves. Diagnostics (\<^verbatim>\<open>SSH_DEBUG\<close>) have no result and are left out. Counters are words of the
  source's width. This theory holds the definitions; the theories that import it hold the theorems.
\<close>

datatype role = Client | Server

datatype event =
    ServerHostKey host_public_key
  | Established
  | Packet bytes
  | Disconnect u32 bytes

datatype phase = NeedPeerVersion | Handshake | PhaseEstablished

definition REKEY_BYTES :: u64 where "REKEY_BYTES = 2 ^ 30"
definition REKEY_PACKETS :: u64 where "REKEY_PACKETS = 2 ^ 28"
definition EPOCH_HARD_PACKETS :: u64 where "EPOCH_HARD_PACKETS = 2 ^ 31"
definition DEFAULT_MAX_CONSECUTIVE_PEER_REKEYS :: u32 where
  "DEFAULT_MAX_CONSECUTIVE_PEER_REKEYS = 3"
definition DEFAULT_CHAFF_LEN :: u32 where "DEFAULT_CHAFF_LEN = 256"

record obfuscation =
  ob_max_chunk :: "u32 option"
  ob_max_chaff_per_flush :: byte
  ob_max_chaff_len :: u16

definition OBFUSCATION_OFF :: obfuscation where
  "OBFUSCATION_OFF = \<lparr>ob_max_chunk = None, ob_max_chaff_per_flush = 0, ob_max_chaff_len = 0\<rparr>"

definition OBFUSCATION_INTERACTIVE :: obfuscation where
  "OBFUSCATION_INTERACTIVE = \<lparr>ob_max_chunk = Some 256, ob_max_chaff_per_flush = 2, ob_max_chaff_len = 256\<rparr>"

definition chaff_enabled :: "obfuscation \<Rightarrow> bool" where
  "chaff_enabled ob = (ob_max_chaff_per_flush ob > 0)"

definition chaff_len_bound :: "obfuscation \<Rightarrow> u32" where
  "chaff_len_bound ob =
     (if ob_max_chaff_len ob > 0 then ucast (ob_max_chaff_len ob) else DEFAULT_CHAFF_LEN)"

record pending_keys =
  pk_out :: cipher
  pk_inn :: cipher

datatype kex_ephemeral =
    EphClassical ecdh_keypair
  | EphMlKem hybrid_client
  | EphSnTrup hybrid_client

datatype kex_kind = KexClassical | KexMlKem | KexSnTrup

definition kex_kind_of :: "('r, 'z) prims \<Rightarrow> bytes \<Rightarrow> kex_kind" where
  "kex_kind_of P name =
     (if feature_sntrup761 P \<and> name = KEX_SNTRUP761_X25519 then KexSnTrup
      else if name = KEX_MLKEM768_X25519 then KexMlKem
      else KexClassical)"

fun kind_hash :: "kex_kind \<Rightarrow> kex_hash" where
  "kind_hash KexSnTrup = Sha512"
| "kind_hash KexClassical = Sha256"
| "kind_hash KexMlKem = Sha256"

fun kind_string_encoded :: "kex_kind \<Rightarrow> bool" where
  "kind_string_encoded KexMlKem = True"
| "kind_string_encoded KexSnTrup = True"
| "kind_string_encoded KexClassical = False"

definition kind_shared_secret :: "kex_kind \<Rightarrow> bytes \<Rightarrow> shared_secret" where
  "kind_shared_secret kind shared =
     (if kind_string_encoded kind then SecretString shared else SecretMpint shared)"

record ('r, 'z) transport =
  t_role :: role
  t_rng :: 'r
  t_phase :: phase
  t_rx :: bytes
  t_rx_pos :: nat
  t_tx :: bytes
  t_tx_seq :: u32
  t_rx_seq :: u32
  t_cipher_out :: cipher
  t_cipher_in :: cipher
  t_comp_out :: "'z compressor"
  t_comp_in :: "'z decompressor"
  t_comp_out_name :: bytes
  t_comp_in_name :: bytes
  t_comp_active :: bool
  t_local_id :: bytes
  t_peer_id :: "bytes option"
  t_local_kexinit :: bytes
  t_peer_kexinit :: "kexinit option"
  t_negotiated :: "negotiated option"
  t_kex_eph :: "kex_ephemeral option"
  t_pending :: "pending_keys option"
  t_sent_newkeys :: bool
  t_recv_newkeys :: bool
  t_skip_guess :: bool
  t_strict_kex :: bool
  t_initial_kex_done :: bool
  t_rekeying :: bool
  t_kexinit_sent :: bool
  t_tx_app_queue :: "bytes list"
  t_bytes_since_rekey :: u64
  t_tx_packets_since_rekey :: u64
  t_rx_bytes_since_rekey :: u64
  t_rx_packets_since_rekey :: u64
  t_rekey_bytes_limit :: u64
  t_rekey_packets_limit :: u64
  t_consecutive_peer_rekeys :: u32
  t_max_consecutive_peer_rekeys :: u32
  t_session_id :: "bytes option"
  t_host_key :: "host_key option"
  t_events :: "event list"
  t_offered_ciphers :: "bytes list option"
  t_offered_compression :: "bytes list option"
  t_closing :: bool
  t_obfuscation :: obfuscation

section \<open>Writing packets\<close>

definition first_byte :: "bytes \<Rightarrow> byte option" where
  "first_byte bs = (case bs of [] \<Rightarrow> None | b # _ \<Rightarrow> Some b)"

definition activate_compression :: "('r, 'z) prims \<Rightarrow> ('r, 'z) transport \<Rightarrow> ('r, 'z) transport" where
  "activate_compression P t =
     t\<lparr>t_comp_active := True,
       t_comp_out := compressor_new P (t_comp_out_name t),
       t_comp_in := decompressor_new P (t_comp_in_name t)\<rparr>"

text \<open>The three stages of \<^verbatim>\<open>write_packet\<close>: the body (compressed when compression is on), the sealed frame,
  and the bookkeeping behind it.\<close>

definition write_body ::
    "('r, 'z) prims \<Rightarrow> bytes \<Rightarrow> ('r, 'z) transport \<Rightarrow> (bytes \<times> 'z compressor) result" where
  "write_body P payload t =
     (case t_comp_out t of
        CompNone \<Rightarrow> Ok (payload, CompNone)
      | CompZlib c \<Rightarrow> compress P (CompZlib c) payload)"

definition after_seal ::
    "('r, 'z) prims \<Rightarrow> bytes \<Rightarrow> ('r, 'z) transport \<Rightarrow> ('r, 'z) transport" where
  "after_seal P payload t =
     (let t = t\<lparr>t_tx_packets_since_rekey := t_tx_packets_since_rekey t + 1,
                t_tx_seq := t_tx_seq t + 1\<rparr>;
          t = (if t_tx_packets_since_rekey t \<ge> EPOCH_HARD_PACKETS then t\<lparr>t_closing := True\<rparr> else t)
      in if t_role t = Server \<and> \<not> t_comp_active t \<and>
            t_comp_out_name t = COMPRESSION_ZLIB_OPENSSH \<and>
            first_byte payload = Some msg_USERAUTH_SUCCESS
         then activate_compression P t else t)"

definition write_packet ::
    "('r, 'z) prims \<Rightarrow> bytes \<Rightarrow> ('r, 'z) transport \<Rightarrow> (('r, 'z) transport, unit) outcome" where
  "write_packet P payload t =
     (if t_closing t then (Ok (), t)
      else
        onOk (write_body P payload t) t (\<lambda>(body, comp_out).
        let t = t\<lparr>t_comp_out := comp_out\<rparr> in
        onOk (seal_into P (t_cipher_out t) (t_tx_seq t) body (t_rng t) (t_tx t)) t (\<lambda>(cipher_out, rng, tx).
          (Ok (), after_seal P payload (t\<lparr>t_cipher_out := cipher_out, t_rng := rng, t_tx := tx\<rparr>)))))"

fun write_packets ::
    "('r, 'z) prims \<Rightarrow> bytes list \<Rightarrow> ('r, 'z) transport \<Rightarrow> (('r, 'z) transport, unit) outcome" where
  "write_packets P [] t = (Ok (), t)"
| "write_packets P (p # ps) t = andThen (write_packet P p t) (\<lambda>_ t. write_packets P ps t)"

definition disconnect_msg :: "u32 \<Rightarrow> bytes \<Rightarrow> bytes" where
  "disconnect_msg reason description =
     (let w = writer_new;
          w = w_u8 w msg_DISCONNECT;
          w = w_u32 w reason;
          w = w_string w description;
          w = w_string w []
      in w)"

definition disconnect ::
    "('r, 'z) prims \<Rightarrow> u32 \<Rightarrow> bytes \<Rightarrow> ('r, 'z) transport \<Rightarrow> (('r, 'z) transport, unit) outcome" where
  "disconnect P reason description t =
     (if t_closing t then (Ok (), t)
      else
        andThen (write_packet P (disconnect_msg reason description) t) (\<lambda>_ t.
          (Ok (), t\<lparr>t_closing := True\<rparr>)))"

section \<open>Starting a key exchange\<close>

definition send_kexinit ::
    "('r, 'z) prims \<Rightarrow> ('r, 'z) transport \<Rightarrow> (('r, 'z) transport, unit) outcome" where
  "send_kexinit P t =
     (let is_server = (t_role t = Server);
          ciphers = (case t_offered_ciphers t of Some pref \<Rightarrow> pref | None \<Rightarrow> CIPHERS);
          compressions = (case t_offered_compression t of Some pref \<Rightarrow> pref | None \<Rightarrow> COMPRESSIONS);
          (seed, rng) = fill_bytes P 32 (t_rng t);
          cookie = shake128 P seed 16;
          t = t\<lparr>t_rng := rng\<rparr>;
          ki = ours_with (feature_sntrup761 P) cookie is_server ciphers compressions
      in andThen (write_packet P (ki_payload ki) t) (\<lambda>_ t.
           (Ok (), t\<lparr>t_local_kexinit := ki_payload ki, t_kexinit_sent := True\<rparr>)))"

definition transport_init ::
    "role \<Rightarrow> 'r \<Rightarrow> host_key option \<Rightarrow> bytes list option \<Rightarrow> bytes list option \<Rightarrow> ('r, 'z) transport" where
  "transport_init role rng host_key offered_ciphers offered_compression =
     \<lparr>t_role = role, t_rng = rng, t_phase = NeedPeerVersion,
      t_rx = [], t_rx_pos = 0, t_tx = local_id_line, t_tx_seq = 0, t_rx_seq = 0,
      t_cipher_out = CNone, t_cipher_in = CNone, t_comp_out = CompNone, t_comp_in = DecompNone,
      t_comp_out_name = COMPRESSION_NONE, t_comp_in_name = COMPRESSION_NONE, t_comp_active = False,
      t_local_id = LOCAL_ID, t_peer_id = None, t_local_kexinit = [], t_peer_kexinit = None,
      t_negotiated = None, t_kex_eph = None, t_pending = None,
      t_sent_newkeys = False, t_recv_newkeys = False, t_skip_guess = False, t_strict_kex = False,
      t_initial_kex_done = False, t_rekeying = False, t_kexinit_sent = False, t_tx_app_queue = [],
      t_bytes_since_rekey = 0, t_tx_packets_since_rekey = 0,
      t_rx_bytes_since_rekey = 0, t_rx_packets_since_rekey = 0,
      t_rekey_bytes_limit = REKEY_BYTES, t_rekey_packets_limit = REKEY_PACKETS,
      t_consecutive_peer_rekeys = 0,
      t_max_consecutive_peer_rekeys = DEFAULT_MAX_CONSECUTIVE_PEER_REKEYS,
      t_session_id = None, t_host_key = host_key, t_events = [],
      t_offered_ciphers = offered_ciphers, t_offered_compression = offered_compression,
      t_closing = False, t_obfuscation = OBFUSCATION_OFF\<rparr>"

definition transport_start ::
    "('r, 'z) prims \<Rightarrow> role \<Rightarrow> 'r \<Rightarrow> host_key option \<Rightarrow> bytes list option \<Rightarrow> bytes list option \<Rightarrow>
     (('r, 'z) transport, unit) outcome" where
  "transport_start P role rng host_key offered_ciphers offered_compression =
     send_kexinit P (transport_init role rng host_key offered_ciphers offered_compression)"

definition new_client :: "('r, 'z) prims \<Rightarrow> 'r \<Rightarrow> (('r, 'z) transport, unit) outcome" where
  "new_client P rng = transport_start P Client rng None None None"

definition new_client_with_ciphers ::
    "('r, 'z) prims \<Rightarrow> 'r \<Rightarrow> bytes list \<Rightarrow> (('r, 'z) transport, unit) outcome" where
  "new_client_with_ciphers P rng ciphers = transport_start P Client rng None (Some ciphers) None"

definition new_client_with_compression ::
    "('r, 'z) prims \<Rightarrow> 'r \<Rightarrow> bytes list \<Rightarrow> (('r, 'z) transport, unit) outcome" where
  "new_client_with_compression P rng compression = transport_start P Client rng None None (Some compression)"

definition new_server :: "('r, 'z) prims \<Rightarrow> 'r \<Rightarrow> host_key \<Rightarrow> (('r, 'z) transport, unit) outcome" where
  "new_server P rng host_key = transport_start P Server rng (Some host_key) None None"

definition begin_rekey_round ::
    "('r, 'z) prims \<Rightarrow> ('r, 'z) transport \<Rightarrow> (('r, 'z) transport, unit) outcome" where
  "begin_rekey_round P t =
     send_kexinit P (t\<lparr>t_rekeying := True, t_sent_newkeys := False, t_recv_newkeys := False,
        t_peer_kexinit := None, t_negotiated := None, t_kex_eph := None, t_skip_guess := False\<rparr>)"

definition initiate_rekey ::
    "('r, 'z) prims \<Rightarrow> ('r, 'z) transport \<Rightarrow> (('r, 'z) transport, unit) outcome" where
  "initiate_rekey P t =
     (if t_phase t = PhaseEstablished \<and> \<not> t_rekeying t then begin_rekey_round P t else (Ok (), t))"

section \<open>Application traffic and chaff\<close>

definition send_packet ::
    "('r, 'z) prims \<Rightarrow> bytes \<Rightarrow> ('r, 'z) transport \<Rightarrow> (('r, 'z) transport, unit) outcome" where
  "send_packet P payload t =
     (if t_phase t \<noteq> PhaseEstablished then (Err (Protocol ''send before transport established''), t)
      else if t_rekeying t then (Ok (), t\<lparr>t_tx_app_queue := t_tx_app_queue t @ [payload]\<rparr>)
      else
        andThen (write_packet P payload t) (\<lambda>_ t.
        let t = t\<lparr>t_bytes_since_rekey := sat_add (t_bytes_since_rekey t) (of_nat (length payload))\<rparr> in
        if t_bytes_since_rekey t \<ge> t_rekey_bytes_limit t \<or>
           t_tx_packets_since_rekey t \<ge> t_rekey_packets_limit t
        then initiate_rekey P t else (Ok (), t)))"

definition build_chaff ::
    "('r, 'z) prims \<Rightarrow> ('r, 'z) transport \<Rightarrow> bytes \<times> ('r, 'z) transport" where
  "build_chaff P t =
     (let bound = chaff_len_bound (t_obfuscation t);
          (n, rng) = next_u32 P (t_rng t);
          len = unat (n mod (bound + 1));
          (data, rng) = fill_bytes P len rng;
          w = writer_new;
          w = w_u8 w msg_IGNORE;
          w = w_string w data
      in (w, t\<lparr>t_rng := rng\<rparr>))"

definition send_chaff ::
    "('r, 'z) prims \<Rightarrow> ('r, 'z) transport \<Rightarrow> (('r, 'z) transport, unit) outcome" where
  "send_chaff P t =
     (if t_phase t \<noteq> PhaseEstablished then (Ok (), t)
      else let (msg, t) = build_chaff P t in send_packet P msg t)"

fun chaff_loop ::
    "('r, 'z) prims \<Rightarrow> nat \<Rightarrow> ('r, 'z) transport \<Rightarrow> (('r, 'z) transport, unit) outcome" where
  "chaff_loop P 0 t = (Ok (), t)"
| "chaff_loop P (Suc n) t =
     (let (msg, t) = build_chaff P t
      in andThen (send_packet P msg t) (\<lambda>_ t. chaff_loop P n t))"

definition send_chaff_burst ::
    "('r, 'z) prims \<Rightarrow> ('r, 'z) transport \<Rightarrow> (('r, 'z) transport, unit) outcome" where
  "send_chaff_burst P t =
     (if t_phase t \<noteq> PhaseEstablished \<or> \<not> chaff_enabled (t_obfuscation t) then (Ok (), t)
      else
        let max_burst = (ucast (ob_max_chaff_per_flush (t_obfuscation t)) :: u32);
            (n, rng) = next_u32 P (t_rng t)
        in chaff_loop P (unat (n mod (max_burst + 1))) (t\<lparr>t_rng := rng\<rparr>))"

section \<open>Key exchange\<close>

definition transport_kex_kind :: "('r, 'z) prims \<Rightarrow> ('r, 'z) transport \<Rightarrow> kex_kind" where
  "transport_kex_kind P t =
     (case t_negotiated t of None \<Rightarrow> KexClassical | Some n \<Rightarrow> kex_kind_of P (n_kex n))"

definition compute_exchange_hash ::
    "('r, 'z) prims \<Rightarrow> bytes \<Rightarrow> bytes \<Rightarrow> bytes \<Rightarrow> shared_secret \<Rightarrow> kex_hash \<Rightarrow> ('r, 'z) transport \<Rightarrow>
     bytes result" where
  "compute_exchange_hash P q_c q_s hblob shared hash t =
     rbind (ok_or (t_peer_id t) (Protocol ''missing peer id'')) (\<lambda>peer_id.
     rbind (ok_or (t_peer_kexinit t) (Protocol ''missing peer kexinit'')) (\<lambda>peer_kexinit.
       let (client_id, server_id, client_kexinit, server_kexinit) =
             (case t_role t of
                Client \<Rightarrow> (t_local_id t, peer_id, t_local_kexinit t, ki_payload peer_kexinit)
              | Server \<Rightarrow> (peer_id, t_local_id t, ki_payload peer_kexinit, t_local_kexinit t))
       in Ok (exchange_hash P
            \<lparr>xh_client_id = client_id, xh_server_id = server_id,
             xh_client_kexinit = client_kexinit, xh_server_kexinit = server_kexinit,
             xh_host_key_blob = hblob, xh_client_ephemeral = q_c, xh_server_ephemeral = q_s,
             xh_shared_secret = shared\<rparr> hash)))"

definition finish_kex ::
    "('r, 'z) prims \<Rightarrow> bytes \<Rightarrow> shared_secret \<Rightarrow> kex_hash \<Rightarrow> ('r, 'z) transport \<Rightarrow>
     (('r, 'z) transport, unit) outcome" where
  "finish_kex P h shared hash t =
     (let session_id = (case t_session_id t of Some s \<Rightarrow> s | None \<Rightarrow> h);
          t = t\<lparr>t_session_id := Some session_id\<rparr>
      in
      onOk (unwrap (t_negotiated t)) t (\<lambda>n.
      let cipher = n_cipher_c2s n in
      onOk (cipher_key_len cipher) t (\<lambda>key_len.
      onOk (cipher_iv_len cipher) t (\<lambda>iv_len.
      onOk (keys_derive P shared h session_id key_len iv_len hash) t (\<lambda>keys.
      let (out_key, out_iv, in_key, in_iv) =
            (case t_role t of
               Client \<Rightarrow> (enc_c2s keys, iv_c2s keys, enc_s2c keys, iv_s2c keys)
             | Server \<Rightarrow> (enc_s2c keys, iv_s2c keys, enc_c2s keys, iv_c2s keys))
      in
      onOk (cipher_new cipher out_key out_iv) t (\<lambda>out.
      onOk (cipher_new cipher in_key in_iv) t (\<lambda>inn.
      let (out_name, in_name) =
            (case t_role t of
               Client \<Rightarrow> (n_comp_c2s n, n_comp_s2c n)
             | Server \<Rightarrow> (n_comp_s2c n, n_comp_c2s n))
      in (Ok (), t\<lparr>t_pending := Some \<lparr>pk_out = out, pk_inn = inn\<rparr>,
                   t_comp_out_name := out_name, t_comp_in_name := in_name\<rparr>))))))))"

definition maybe_complete_kex ::
    "('r, 'z) prims \<Rightarrow> ('r, 'z) transport \<Rightarrow> (('r, 'z) transport, unit) outcome" where
  "maybe_complete_kex P t =
     (if \<not> (t_sent_newkeys t \<and> t_recv_newkeys t) then (Ok (), t)
      else
        let t = t\<lparr>t_pending := None\<rparr>;
            t = (if \<not> t_initial_kex_done t
                 then t\<lparr>t_initial_kex_done := True, t_phase := PhaseEstablished,
                        t_events := t_events t @ [Established]\<rparr>
                 else t);
            t = t\<lparr>t_rekeying := False, t_kexinit_sent := False,
                  t_sent_newkeys := False, t_recv_newkeys := False,
                  t_bytes_since_rekey := 0, t_tx_packets_since_rekey := 0,
                  t_rx_bytes_since_rekey := 0, t_rx_packets_since_rekey := 0\<rparr>;
            queued = t_tx_app_queue t;
            t = t\<lparr>t_tx_app_queue := []\<rparr>
        in write_packets P queued t)"

definition send_newkeys ::
    "('r, 'z) prims \<Rightarrow> ('r, 'z) transport \<Rightarrow> (('r, 'z) transport, unit) outcome" where
  "send_newkeys P t =
     andThen (write_packet P [msg_NEWKEYS] t) (\<lambda>_ t.
     let t = (case t_pending t of
                Some p \<Rightarrow> t\<lparr>t_cipher_out := pk_out p, t_pending := Some (p\<lparr>pk_out := CNone\<rparr>)\<rparr>
              | None \<Rightarrow> t);
         t = (if t_comp_active t then t\<lparr>t_comp_out := compressor_new P (t_comp_out_name t)\<rparr> else t);
         t = (if t_strict_kex t then t\<lparr>t_tx_seq := 0\<rparr> else t);
         t = t\<lparr>t_sent_newkeys := True\<rparr>
     in maybe_complete_kex P t)"

definition on_newkeys ::
    "('r, 'z) prims \<Rightarrow> ('r, 'z) transport \<Rightarrow> (('r, 'z) transport, unit) outcome" where
  "on_newkeys P t =
     onOk (ok_or (t_pending t) (Protocol ''NEWKEYS before key exchange'')) t (\<lambda>p.
     let t = t\<lparr>t_cipher_in := pk_inn p, t_pending := Some (p\<lparr>pk_inn := CNone\<rparr>)\<rparr>;
         t = (if t_comp_active t then t\<lparr>t_comp_in := decompressor_new P (t_comp_in_name t)\<rparr> else t);
         t = (if t_strict_kex t then t\<lparr>t_rx_seq := 0\<rparr> else t);
         t = t\<lparr>t_recv_newkeys := True\<rparr>
     in maybe_complete_kex P t)"

text \<open>The client's ephemeral for the negotiated method, and the blob that announces it.\<close>

definition generate_ephemeral ::
    "('r, 'z) prims \<Rightarrow> kex_kind \<Rightarrow> 'r \<Rightarrow> kex_ephemeral \<times> bytes \<times> 'r" where
  "generate_ephemeral P kind r =
     (case kind of
        KexMlKem \<Rightarrow> let (hc, r) = mlkem_generate P r in (EphMlKem hc, hc_init hc, r)
      | KexSnTrup \<Rightarrow> let (hc, r) = sntrup_generate P r in (EphSnTrup hc, hc_init hc, r)
      | KexClassical \<Rightarrow> let (kp, r) = ecdh_generate P r in (EphClassical kp, kp_public kp, r))"

text \<open>The parts of \<^verbatim>\<open>on_peer_kexinit\<close> behind a successful negotiation: latch strict KEX (on the initial
  exchange only), note a wrong guess, store the results; then the client announces its ephemeral.\<close>

definition accept_kexinit ::
    "kexinit \<Rightarrow> negotiated \<Rightarrow> ('r, 'z) transport \<Rightarrow> ('r, 'z) transport" where
  "accept_kexinit peer negotiated t =
     (let peer_strict_marker = (case t_role t of Client \<Rightarrow> KEX_STRICT_SERVER | Server \<Rightarrow> KEX_STRICT_CLIENT);
          t = (if \<not> t_initial_kex_done t
               then t\<lparr>t_strict_kex := list_ex (\<lambda>a. a = peer_strict_marker) (ki_kex peer)\<rparr> else t)
      in t\<lparr>t_skip_guess := ki_first_kex_packet_follows peer \<and>
             ((case ki_kex peer of [] \<Rightarrow> None | a # _ \<Rightarrow> Some a) \<noteq> Some (n_kex negotiated) \<or>
              (case ki_host_key peer of [] \<Rightarrow> None | a # _ \<Rightarrow> Some a) \<noteq> Some (n_host_key negotiated)),
           t_negotiated := Some negotiated, t_peer_kexinit := Some peer\<rparr>)"

definition send_ecdh_init ::
    "('r, 'z) prims \<Rightarrow> ('r, 'z) transport \<Rightarrow> (('r, 'z) transport, unit) outcome" where
  "send_ecdh_init P t =
     (let (eph, blob, rng) = generate_ephemeral P (transport_kex_kind P t) (t_rng t);
          w = writer_new;
          w = w_u8 w msg_KEX_ECDH_INIT;
          w = w_string w blob
      in andThen (write_packet P w (t\<lparr>t_rng := rng\<rparr>)) (\<lambda>_ t. (Ok (), t\<lparr>t_kex_eph := Some eph\<rparr>)))"

definition on_peer_kexinit ::
    "('r, 'z) prims \<Rightarrow> bytes \<Rightarrow> ('r, 'z) transport \<Rightarrow> (('r, 'z) transport, unit) outcome" where
  "on_peer_kexinit P payload t =
     (let flood = (t_phase t = PhaseEstablished \<and> \<not> t_kexinit_sent t);
          t = (if flood then t\<lparr>t_consecutive_peer_rekeys := t_consecutive_peer_rekeys t + 1\<rparr> else t)
      in
      if flood \<and> t_consecutive_peer_rekeys t > t_max_consecutive_peer_rekeys t then
        disconnect P disconnect_PROTOCOL_ERROR (str ''re-key rate exceeded'') t
      else
        andThen (if flood then begin_rekey_round P t else (Ok (), t)) (\<lambda>_ t.
        onOk (kexinit_parse payload) t (\<lambda>peer.
        onOk (kexinit_parse (t_local_kexinit t)) t (\<lambda>local.
        let (client, server) = (case t_role t of Client \<Rightarrow> (local, peer) | Server \<Rightarrow> (peer, local)) in
        onOk (negotiate client server) t (\<lambda>negotiated.
        let t = accept_kexinit peer negotiated t in
        if t_role t = Client then send_ecdh_init P t else (Ok (), t))))))"

definition server_respond ::
    "('r, 'z) prims \<Rightarrow> kex_kind \<Rightarrow> 'r \<Rightarrow> bytes \<Rightarrow> ('r, bytes \<times> bytes) outcome" where
  "server_respond P kind r q_c =
     (case kind of
        KexMlKem \<Rightarrow> mlkem_server_respond P r q_c
      | KexSnTrup \<Rightarrow> sntrup_server_respond P r q_c
      | KexClassical \<Rightarrow> classical_server_respond P r q_c)"

definition on_ecdh_init ::
    "('r, 'z) prims \<Rightarrow> bytes \<Rightarrow> ('r, 'z) transport \<Rightarrow> (('r, 'z) transport, unit) outcome" where
  "on_ecdh_init P payload t =
     (if t_skip_guess t then (Ok (), t\<lparr>t_skip_guess := False\<rparr>)
      else
        onOk (r_u8 (reader_new payload)) t (\<lambda>(_, r).
        onOk (r_string r) t (\<lambda>(q_c, r).
        onOk (ok_or (t_host_key t) (Protocol ''server without host key'')) t (\<lambda>host_key.
        let hblob = host_public_blob P host_key;
            kind = transport_kex_kind P t;
            (res, rng) = server_respond P kind (t_rng t) q_c;
            t = t\<lparr>t_rng := rng\<rparr>
        in
        onOk res t (\<lambda>(q_s, shared).
        let k = kind_shared_secret kind shared;
            hash = kind_hash kind
        in
        onOk (compute_exchange_hash P q_c q_s hblob k hash t) t (\<lambda>h.
        onOk (unwrap (t_host_key t)) t (\<lambda>host_key.
        let signature = sign_exchange_hash P host_key h;
            w = writer_new;
            w = w_u8 w msg_KEX_ECDH_REPLY;
            w = w_string w hblob;
            w = w_string w q_s;
            w = w_string w signature
        in
        andThen (write_packet P w t) (\<lambda>_ t.
        andThen (finish_kex P h k hash t) (\<lambda>_ t.
          send_newkeys P t)))))))))"

definition client_agree :: "('r, 'z) prims \<Rightarrow> kex_ephemeral \<Rightarrow> bytes \<Rightarrow> (bytes \<times> bytes \<times> kex_kind) result" where
  "client_agree P eph q_s =
     (case eph of
        EphMlKem hc \<Rightarrow> rbind (mlkem_agree P hc q_s) (\<lambda>shared. Ok (hc_init hc, shared, KexMlKem))
      | EphSnTrup hc \<Rightarrow> rbind (sntrup_agree P hc q_s) (\<lambda>shared. Ok (hc_init hc, shared, KexSnTrup))
      | EphClassical kp \<Rightarrow> rbind (ecdh_agree P kp q_s) (\<lambda>shared. Ok (kp_public kp, shared, KexClassical)))"

definition on_ecdh_reply ::
    "('r, 'z) prims \<Rightarrow> bytes \<Rightarrow> ('r, 'z) transport \<Rightarrow> (('r, 'z) transport, unit) outcome" where
  "on_ecdh_reply P payload t =
     (if t_skip_guess t then (Ok (), t\<lparr>t_skip_guess := False\<rparr>)
      else
        onOk (r_u8 (reader_new payload)) t (\<lambda>(_, r).
        onOk (r_string r) t (\<lambda>(hblob, r).
        onOk (r_string r) t (\<lambda>(q_s, r).
        onOk (r_string r) t (\<lambda>(signature, r).
        let eph = t_kex_eph t; t = t\<lparr>t_kex_eph := None\<rparr> in
        onOk (ok_or eph (Protocol ''KEX_ECDH_REPLY before INIT'')) t (\<lambda>eph.
        onOk (client_agree P eph q_s) t (\<lambda>(q_c, shared, kind).
        let k = kind_shared_secret kind shared;
            hash = kind_hash kind
        in
        onOk (compute_exchange_hash P q_c q_s hblob k hash t) t (\<lambda>h.
        onOk (host_parse_blob P hblob) t (\<lambda>host_pub.
        onOk (host_verify P host_pub h signature) t (\<lambda>_.
        let t = t\<lparr>t_events := t_events t @ [ServerHostKey host_pub]\<rparr> in
        andThen (finish_kex P h k hash t) (\<lambda>_ t.
          send_newkeys P t)))))))))))"

section \<open>Reading packets\<close>

text \<open>\<^verbatim>\<open>&xs[i..]\<close>, which panics past the end.\<close>

definition slice_from :: "'a list \<Rightarrow> nat \<Rightarrow> 'a list result" where
  "slice_from xs i = (if i > length xs then Crash ''slice index out of range'' else Ok (drop i xs))"

definition decompress_in ::
    "('r, 'z) prims \<Rightarrow> bytes \<Rightarrow> ('r, 'z) transport \<Rightarrow> (('r, 'z) transport, bytes) outcome" where
  "decompress_in P payload t =
     (case t_comp_in t of
        DecompNone \<Rightarrow> (Ok payload, t)
      | DecompZlib d \<Rightarrow>
          let (res, comp_in) = decompress P (DecompZlib d) payload
          in (res, t\<lparr>t_comp_in := comp_in\<rparr>))"

definition compact_rx :: "('r, 'z) transport \<Rightarrow> ('r, 'z) transport" where
  "compact_rx t =
     (if t_rx_pos t = 0 then t
      else if t_rx_pos t \<ge> length (t_rx t) then t\<lparr>t_rx := [], t_rx_pos := 0\<rparr>
      else t\<lparr>t_rx := drop (t_rx_pos t) (t_rx t), t_rx_pos := 0\<rparr>)"

definition handle_packet ::
    "('r, 'z) prims \<Rightarrow> bytes \<Rightarrow> ('r, 'z) transport \<Rightarrow> (('r, 'z) transport, unit) outcome" where
  "handle_packet P payload t =
     (case first_byte payload of
        None \<Rightarrow> (Err (BadPacket ''empty payload''), t)
      | Some msg_id \<Rightarrow>
          if t_strict_kex t \<and> t_phase t \<noteq> PhaseEstablished \<and>
             (msg_id = msg_IGNORE \<or> msg_id = msg_DEBUG \<or> msg_id = msg_UNIMPLEMENTED)
          then (Err (Protocol ''unexpected message during strict KEX''), t)
          else if msg_id = msg_IGNORE \<or> msg_id = msg_DEBUG then (Ok (), t)
          else if msg_id = msg_DISCONNECT then
            onOk (r_u8 (reader_new payload)) t (\<lambda>(_, r).
            onOk (r_u32 r) t (\<lambda>(reason, r).
            let description = (case r_utf8 r of Ok (d, _) \<Rightarrow> d | _ \<Rightarrow> [])
            in (Ok (), t\<lparr>t_events := t_events t @ [Disconnect reason description]\<rparr>)))
          else if msg_id = msg_KEXINIT then on_peer_kexinit P payload t
          else if msg_id = msg_KEX_ECDH_INIT \<and> t_role t = Server then on_ecdh_init P payload t
          else if msg_id = msg_KEX_ECDH_REPLY \<and> t_role t = Client then on_ecdh_reply P payload t
          else if msg_id = msg_NEWKEYS then on_newkeys P t
          else if t_phase t = PhaseEstablished then
            (Ok (), t\<lparr>t_consecutive_peer_rekeys := 0, t_events := t_events t @ [Packet payload]\<rparr>)
          else (Err (Protocol ''unexpected message during handshake''), t))"

text \<open>What the loop does with one opened packet, after the read cursor and counters moved.\<close>

definition process_packet ::
    "('r, 'z) prims \<Rightarrow> bytes \<Rightarrow> ('r, 'z) transport \<Rightarrow> (('r, 'z) transport, unit) outcome" where
  "process_packet P payload t =
     (if t_rx_packets_since_rekey t \<ge> EPOCH_HARD_PACKETS then
        (Err (Protocol ''peer exceeded per-key-epoch packet limit without re-keying''), t)
      else
        andThen (decompress_in P payload t) (\<lambda>payload t.
        andThen (handle_packet P payload t) (\<lambda>_ t.
        let t = (if t_role t = Client \<and> \<not> t_comp_active t \<and>
                    t_comp_in_name t = COMPRESSION_ZLIB_OPENSSH \<and>
                    first_byte payload = Some msg_USERAUTH_SUCCESS
                 then activate_compression P t else t)
        in
        if t_phase t = PhaseEstablished \<and>
           (t_rx_bytes_since_rekey t \<ge> t_rekey_bytes_limit t \<or>
            t_rx_packets_since_rekey t \<ge> t_rekey_packets_limit t)
        then initiate_rekey P t else (Ok (), t))))"

text \<open>One iteration of the loop: \<open>Ok True\<close> is \<^verbatim>\<open>continue\<close>, \<open>Ok False\<close> is \<^verbatim>\<open>return Ok(())\<close>.\<close>

definition drive_step ::
    "('r, 'z) prims \<Rightarrow> ('r, 'z) transport \<Rightarrow> (('r, 'z) transport, bool) outcome" where
  "drive_step P t =
     (if t_closing t then (Ok False, t)
      else if t_phase t = NeedPeerVersion then
        onOk (slice_from (t_rx t) (t_rx_pos t)) t (\<lambda>input.
        onOk (parse_peer_id input (t_role t = Client)) t (\<lambda>res.
        case res of
          Some (peer, consumed) \<Rightarrow>
            (Ok True, t\<lparr>t_peer_id := Some peer, t_rx_pos := t_rx_pos t + consumed, t_phase := Handshake\<rparr>)
        | None \<Rightarrow> (Ok False, compact_rx t)))
      else
        onOk (slice_from (t_rx t) (t_rx_pos t)) t (\<lambda>input.
        let (res, cipher_in) = cipher_open P (t_cipher_in t) (t_rx_seq t) input;
            t = t\<lparr>t_cipher_in := cipher_in\<rparr>
        in
        onOk res t (\<lambda>res.
        case res of
          Some (payload, consumed) \<Rightarrow>
            let t = t\<lparr>t_rx_pos := t_rx_pos t + consumed,
                      t_rx_seq := t_rx_seq t + 1,
                      t_rx_bytes_since_rekey := sat_add (t_rx_bytes_since_rekey t) (of_nat consumed),
                      t_rx_packets_since_rekey := t_rx_packets_since_rekey t + 1\<rparr>
            in andThen (process_packet P payload t) (\<lambda>_ t. (Ok True, t))
        | None \<Rightarrow> (Ok False, compact_rx t))))"

end
