(* ===== verification/Transport_Drive.thy ===== *)
theory Transport_Drive
  imports Transport
begin

text \<open>
  The drive loop of the transport and the rest of its public methods. That the loop ends is shown
  first: \<open>tframe\<close> collects what no method below it changes (role, configuration, the receive buffer and
  its cursor) or only extends (events, output, the session id once it is set, closing), so each
  iteration moves the cursor forward.
\<close>

section \<open>The contract of an invariant\<close>

text \<open>
  The handlers below the loop are put together from a few state changes. A predicate that each of them
  keeps (in the situation the code makes it) is kept by every handler: the lemmas of the locale, proved
  once. \<open>exchange\<close> and \<open>newkeys\<close> are the two places where keys are switched.
\<close>

text \<open>A payload as the handler sees it: what a packet of admissible size decompresses to.\<close>

definition opened :: "('r, 'z) prims \<Rightarrow> bytes \<Rightarrow> bool" where
  "opened P p \<longleftrightarrow> (\<exists>q (t :: ('r, 'z) transport) s. length q \<le> MAX_PACKET_LENGTH \<and> decompress_in P q t = (Ok p, s))"

locale transport_keeps =
  fixes P :: "('r, 'z) prims" and I :: "('r, 'z) transport \<Rightarrow> bool"
  assumes round: "I t \<Longrightarrow> t_phase t = PhaseEstablished \<Longrightarrow>
      I (t\<lparr>t_rekeying := True, t_sent_newkeys := False, t_recv_newkeys := False, t_peer_kexinit := None,
         t_negotiated := None, t_kex_eph := None, t_skip_guess := False\<rparr>)"
    and upd_kexinit: "I t \<Longrightarrow> I (t\<lparr>t_local_kexinit := pl, t_kexinit_sent := True\<rparr>)"
    and upd_app: "I t \<Longrightarrow> t_phase t = PhaseEstablished \<Longrightarrow> opened P p \<Longrightarrow>
      I (t\<lparr>t_consecutive_peer_rekeys := 0, t_events := t_events t @ [Packet p]\<rparr>)"
    and upd_rng: "I t \<Longrightarrow> I (t\<lparr>t_rng := r\<rparr>)"
    and upd_closing: "I t \<Longrightarrow> I (t\<lparr>t_closing := True\<rparr>)"
    and upd_comp_in: "I t \<Longrightarrow> t_comp_in t = DecompZlib zd \<Longrightarrow> I (t\<lparr>t_comp_in := ci\<rparr>)"
    and upd_skip: "I t \<Longrightarrow> I (t\<lparr>t_skip_guess := False\<rparr>)"
    and upd_no_eph: "I t \<Longrightarrow> I (t\<lparr>t_kex_eph := None\<rparr>)"
    and upd_bytes: "I t \<Longrightarrow> I (t\<lparr>t_bytes_since_rekey := w\<rparr>)"
    and upd_consecutive: "I t \<Longrightarrow> I (t\<lparr>t_consecutive_peer_rekeys := c\<rparr>)"
    and upd_queue: "I t \<Longrightarrow> t_rekeying t \<Longrightarrow> I (t\<lparr>t_tx_app_queue := t_tx_app_queue t @ [p]\<rparr>)"
    and upd_disconnected: "I t \<Longrightarrow> I (t\<lparr>t_events := t_events t @ [Disconnect reason d]\<rparr>)"
    and upd_host_key: "I t \<Longrightarrow> t_role t = Client \<Longrightarrow> I (t\<lparr>t_events := t_events t @ [ServerHostKey hk]\<rparr>)"
    and upd_accept: "I t \<Longrightarrow> I (accept_kexinit peer neg t)"
    and upd_activate: "I t \<Longrightarrow> I (activate_compression P t)"
    and writes: "I t \<Longrightarrow> keeps I (write_packet P p t)"
    and announce: "I t \<Longrightarrow> t_role t = Client \<Longrightarrow> keeps I (send_ecdh_init P t)"
    and exchange: "I t \<Longrightarrow> keeps I (andThen (finish_kex P h k hash t) (\<lambda>_ t. send_newkeys P t))"
    and newkeys: "I t \<Longrightarrow> keeps I (on_newkeys P t)"
begin

lemmas updates = round upd_kexinit upd_app upd_rng upd_closing upd_comp_in upd_skip upd_no_eph upd_bytes
  upd_consecutive upd_queue upd_disconnected upd_accept upd_activate

lemma branch: "(b \<Longrightarrow> I x) \<Longrightarrow> (\<not> b \<Longrightarrow> I y) \<Longrightarrow> I (if b then x else y)"
  by simp

lemma keep_disconnect: "I t \<Longrightarrow> keeps I (disconnect P reason d t)"
  unfolding disconnect_def by (intro keep_intros writes updates)

lemma keep_send_kexinit: "I t \<Longrightarrow> keeps I (send_kexinit P t)"
  unfolding send_kexinit_def by (intro keeps_Let_state keep_intros writes updates)

lemma keep_begin_rekey_round: "I t \<Longrightarrow> t_phase t = PhaseEstablished \<Longrightarrow> keeps I (begin_rekey_round P t)"
  unfolding begin_rekey_round_def by (intro keep_send_kexinit updates)

lemma keep_initiate_rekey: "I t \<Longrightarrow> keeps I (initiate_rekey P t)"
  unfolding initiate_rekey_def by (intro keep_intros keep_begin_rekey_round) auto

lemma keep_send_packet: "I t \<Longrightarrow> keeps I (send_packet P p t)"
  unfolding send_packet_def by (intro keeps_Let_state keep_intros keep_initiate_rekey writes updates)

lemma keep_build_chaff: "I t \<Longrightarrow> build_chaff P t = (msg, s) \<Longrightarrow> I s"
  by (auto simp: build_chaff_def Let_def updates split: prod.splits)

lemma keep_chaff_loop: "I t \<Longrightarrow> keeps I (chaff_loop P n t)"
  by (induction n arbitrary: t) (auto intro!: keep_intros keep_send_packet dest: keep_build_chaff)

lemma keep_send_chaff: "I t \<Longrightarrow> keeps I (send_chaff P t)"
  unfolding send_chaff_def by (auto intro!: keep_intros keep_send_packet dest: keep_build_chaff)

lemma keep_send_chaff_burst: "I t \<Longrightarrow> keeps I (send_chaff_burst P t)"
  unfolding send_chaff_burst_def Let_def by (intro keep_intros keep_chaff_loop updates)

lemma keep_on_peer_kexinit: "I t \<Longrightarrow> keeps I (on_peer_kexinit P p t)"
  unfolding on_peer_kexinit_def
  by (intro keeps_Let keep_intros branch keep_disconnect keep_begin_rekey_round) (auto intro: updates announce)

lemma keep_on_ecdh_init: "I t \<Longrightarrow> keeps I (on_ecdh_init P p t)"
  unfolding on_ecdh_init_def by (intro keeps_Let_state exchange keep_intros writes updates)

lemma keep_on_ecdh_reply:
  assumes "I t" and "t_role t = Client"
  shows "keeps I (on_ecdh_reply P p t)"
  unfolding on_ecdh_reply_def Let_def
  by (intro exchange keep_intros updates upd_host_key) (use assms in \<open>auto intro: updates\<close>)

lemma keep_decompress_in: "I t \<Longrightarrow> keeps I (decompress_in P p t)"
  by (auto simp: decompress_in_def intro!: keep_intros updates split: decompressor.splits)

lemma keep_handle_packet: "I t \<Longrightarrow> opened P p \<Longrightarrow> keeps I (handle_packet P p t)"
  unfolding handle_packet_def
  by (intro keep_intros keep_on_peer_kexinit keep_on_ecdh_init keep_on_ecdh_reply newkeys)
    (auto intro: updates)

lemma keep_process_packet:
  assumes "I t" and len: "length p \<le> MAX_PACKET_LENGTH"
  shows "keeps I (process_packet P p t)"
proof -
  have "opened P x" if "decompress_in P p t = (Ok x, s)" for x s using len that unfolding opened_def by blast
  with assms(1) show ?thesis
    unfolding process_packet_def
    by (intro keeps_Let_state keep_intros keep_decompress_in keep_handle_packet keep_initiate_rekey branch updates)
qed

end

section \<open>What the methods leave alone\<close>

definition tframe :: "('r, 'z) transport \<Rightarrow> ('r, 'z) transport \<Rightarrow> bool" where
  "tframe a b \<longleftrightarrow>
     t_role b = t_role a \<and> t_local_id b = t_local_id a \<and> t_peer_id b = t_peer_id a \<and>
     t_host_key b = t_host_key a \<and>
     t_offered_ciphers b = t_offered_ciphers a \<and> t_offered_compression b = t_offered_compression a \<and>
     t_rekey_bytes_limit b = t_rekey_bytes_limit a \<and> t_rekey_packets_limit b = t_rekey_packets_limit a \<and>
     t_max_consecutive_peer_rekeys b = t_max_consecutive_peer_rekeys a \<and>
     t_obfuscation b = t_obfuscation a \<and>
     t_rx b = t_rx a \<and> t_rx_pos b = t_rx_pos a \<and>
     (t_closing a \<longrightarrow> t_closing b \<and> t_tx b = t_tx a) \<and>
     (t_phase a \<noteq> NeedPeerVersion \<longrightarrow> t_phase b \<noteq> NeedPeerVersion) \<and>
     (t_phase a = PhaseEstablished \<longrightarrow> t_phase b = PhaseEstablished) \<and>
     (t_initial_kex_done a \<longrightarrow> t_initial_kex_done b \<and> t_strict_kex b = t_strict_kex a) \<and> (t_comp_active a \<longrightarrow> t_comp_active b) \<and>
     (t_session_id a \<noteq> None \<longrightarrow> t_session_id b = t_session_id a) \<and>
     (\<exists>es. t_events b = t_events a @ es) \<and> (\<exists>bs. t_tx b = t_tx a @ bs)"

lemma tframe_refl [simp]: "tframe a a"
  by (simp add: tframe_def)

lemma tframe_trans: "tframe a b \<Longrightarrow> tframe b c \<Longrightarrow> tframe a c"
  unfolding tframe_def by (elim conjE exE) simp

lemma tframe_keeps: "keeps (tframe a) m \<Longrightarrow> tframe a (snd m)"
  by (simp add: keeps_def)

text \<open>The elementary updates.\<close>

lemma tframe_updates:
  assumes "tframe a t"
  shows "tframe a (t\<lparr>t_rng := r\<rparr>)" "tframe a (t\<lparr>t_closing := True\<rparr>)"
    "tframe a (t\<lparr>t_comp_out := co\<rparr>)" "tframe a (t\<lparr>t_comp_in := ci\<rparr>)"
    "tframe a (t\<lparr>t_cipher_in := cin\<rparr>)"
    "tframe a (t\<lparr>t_tx_seq := q\<rparr>)" "tframe a (t\<lparr>t_rx_seq := q\<rparr>)"
    "tframe a (t\<lparr>t_sent_newkeys := b\<rparr>)" "tframe a (t\<lparr>t_recv_newkeys := b\<rparr>)"
    "tframe a (t\<lparr>t_skip_guess := b\<rparr>)"
    "tframe a (t\<lparr>t_pending := p\<rparr>)" "tframe a (t\<lparr>t_kex_eph := e\<rparr>)"
    "tframe a (t\<lparr>t_cipher_out := cout, t_pending := p\<rparr>)" "tframe a (t\<lparr>t_cipher_in := cin, t_pending := p\<rparr>)"
    "tframe a (t\<lparr>t_pending := p, t_comp_out_name := n1, t_comp_in_name := n2\<rparr>)"
    "tframe a (t\<lparr>t_skip_guess := b, t_negotiated := n, t_peer_kexinit := k\<rparr>)"
    "tframe a (t\<lparr>t_local_kexinit := pl, t_kexinit_sent := b\<rparr>)"
    "tframe a (t\<lparr>t_tx_app_queue := qs\<rparr>)" "tframe a (t\<lparr>t_bytes_since_rekey := w\<rparr>)"
    "tframe a (t\<lparr>t_consecutive_peer_rekeys := c\<rparr>)"
    "tframe a (t\<lparr>t_events := t_events t @ es\<rparr>)"
    "tframe a (t\<lparr>t_consecutive_peer_rekeys := c, t_events := t_events t @ es\<rparr>)"
    "tframe a (t\<lparr>t_initial_kex_done := True, t_phase := PhaseEstablished, t_events := t_events t @ es\<rparr>)"
    "tframe a (t\<lparr>t_rekeying := b, t_kexinit_sent := b1, t_sent_newkeys := b2, t_recv_newkeys := b3,
       t_bytes_since_rekey := w, t_tx_packets_since_rekey := w1, t_rx_bytes_since_rekey := w2,
       t_rx_packets_since_rekey := w3\<rparr>)"
    "tframe a (t\<lparr>t_rekeying := b, t_sent_newkeys := b1, t_recv_newkeys := b2, t_peer_kexinit := k,
       t_negotiated := n, t_kex_eph := e, t_skip_guess := b3\<rparr>)"
    "tframe a (t\<lparr>t_session_id := Some (case t_session_id t of None \<Rightarrow> h | Some s \<Rightarrow> s)\<rparr>)"
    "tframe a (activate_compression P t)"
  using assms unfolding tframe_def
  by (elim conjE exE; simp add: activate_compression_def split: option.split)+

lemma tframe_if: "(b \<Longrightarrow> tframe a x) \<Longrightarrow> (\<not> b \<Longrightarrow> tframe a y) \<Longrightarrow> tframe a (if b then x else y)"
  by simp

lemma tframe_after_seal: "tframe a t \<Longrightarrow> tframe a (after_seal P p t)"
  by (auto simp: after_seal_def tframe_def activate_compression_def Let_def)

lemma tframe_write_packet [keep_intros]: "tframe a t \<Longrightarrow> keeps (tframe a) (write_packet P p t)"
proof -
  assume a: "tframe a t"
  have sealed: "tframe a (t\<lparr>t_comp_out := co, t_cipher_out := c, t_rng := r, t_tx := out\<rparr>)"
    if "seal_into P k q body g (t_tx t) = Ok (c, r, out)" "\<not> t_closing t" for co c r out k q body g
  proof -
    from that(1) obtain f where "out = t_tx t @ f"
      unfolding seal_into_append [of P k q body g "t_tx t"] by (auto simp: rbind_Ok_iff)
    with a that(2) show ?thesis by (auto simp: tframe_def)
  qed
  show ?thesis
    unfolding write_packet_def Let_def
    by (intro keeps_if keeps_onOk keeps_case_prod keeps_return tframe_after_seal)
      (use a sealed in \<open>auto intro: tframe_updates\<close>)
qed

lemma tframe_write_packets [keep_intros]: "tframe a t \<Longrightarrow> keeps (tframe a) (write_packets P ps t)"
  by (induction ps arbitrary: t) (auto intro!: keep_intros)

lemmas tframe_basic = tframe_updates tframe_if

lemma tframe_maybe_complete_kex [keep_intros]: "tframe a t \<Longrightarrow> keeps (tframe a) (maybe_complete_kex P t)"
  unfolding maybe_complete_kex_def by (intro keeps_Let_state keep_intros tframe_basic)

lemma tframe_send_newkeys [keep_intros]: "tframe a t \<Longrightarrow> keeps (tframe a) (send_newkeys P t)"
  unfolding send_newkeys_def
  by (intro keeps_Let_state keep_intros tframe_basic) (auto intro: tframe_basic split: option.splits)

lemma tframe_on_newkeys [keep_intros]: "tframe a t \<Longrightarrow> keeps (tframe a) (on_newkeys P t)"
  unfolding on_newkeys_def by (intro keeps_Let_state keep_intros tframe_basic)

lemma tframe_finish_kex [keep_intros]: "tframe a t \<Longrightarrow> keeps (tframe a) (finish_kex P h k hash t)"
  unfolding finish_kex_def by (intro keep_intros tframe_basic)

lemma tframe_accept_kexinit: "tframe a t \<Longrightarrow> tframe a (accept_kexinit peer n t)"
  by (simp add: accept_kexinit_def tframe_def)

interpretation frame: transport_keeps P "tframe a" for P a
proof
  fix t :: "('a, 'b) transport" and h k hash
  assume t: "tframe a t"
  show "keeps (tframe a) (send_ecdh_init P t)"
    unfolding send_ecdh_init_def by (intro keep_intros tframe_basic t)
  show "keeps (tframe a) (andThen (finish_kex P h k hash t) (\<lambda>_ t. send_newkeys P t))"
    by (intro keep_intros t)
qed (auto intro: tframe_basic tframe_accept_kexinit tframe_write_packet tframe_on_newkeys)

section \<open>The loop\<close>

text \<open>How much is left to do: the bytes behind the cursor, and the identification line once.\<close>

definition drive_work :: "('r, 'z) transport \<Rightarrow> nat" where
  "drive_work t = (if t_phase t = NeedPeerVersion then 1 else 0) + (length (t_rx t) - t_rx_pos t)"

lemma slice_from_Ok: "slice_from xs i = Ok ys \<longleftrightarrow> i \<le> length xs \<and> ys = drop i xs"
  by (auto simp: slice_from_def)

lemma drive_step_open:
  assumes "drive_step P t = (Ok True, t')" and "t_phase t \<noteq> NeedPeerVersion"
  obtains payload n c where "fst (cipher_open P (t_cipher_in t) (t_rx_seq t) (drop (t_rx_pos t) (t_rx t))) = Ok (Some (payload, n))"
    and "tframe (t\<lparr>t_cipher_in := c, t_rx_pos := t_rx_pos t + n, t_rx_seq := t_rx_seq t + 1,
        t_rx_bytes_since_rekey := sat_add (t_rx_bytes_since_rekey t) (of_nat n),
        t_rx_packets_since_rekey := t_rx_packets_since_rekey t + 1\<rparr>) t'"
proof -
  obtain res c where o: "cipher_open P (t_cipher_in t) (t_rx_seq t) (drop (t_rx_pos t) (t_rx t)) = (res, c)"
    by fastforce
  from assms obtain payload n where res: "res = Ok (Some (payload, n))"
    and st: "andThen (process_packet P payload (t\<lparr>t_cipher_in := c, t_rx_pos := t_rx_pos t + n, t_rx_seq := t_rx_seq t + 1,
        t_rx_bytes_since_rekey := sat_add (t_rx_bytes_since_rekey t) (of_nat n),
        t_rx_packets_since_rekey := t_rx_packets_since_rekey t + 1\<rparr>)) (\<lambda>_ t. (Ok True, t)) = (Ok True, t')"
    by (auto simp: drive_step_def o onOk_def slice_from_def Let_def split: if_splits result.splits option.splits)
  then have "snd (process_packet P payload (t\<lparr>t_cipher_in := c, t_rx_pos := t_rx_pos t + n, t_rx_seq := t_rx_seq t + 1,
        t_rx_bytes_since_rekey := sat_add (t_rx_bytes_since_rekey t) (of_nat n),
        t_rx_packets_since_rekey := t_rx_packets_since_rekey t + 1\<rparr>)) = t'"
    by (auto simp: andThen_def split: prod.splits result.splits)
  moreover have "length payload \<le> MAX_PACKET_LENGTH" using cipher_open_short o res by blast
  ultimately show thesis
    using tframe_keeps [OF frame.keep_process_packet [OF tframe_refl]] that o res by (metis fst_conv)
qed

lemma drive_step_progress:
  assumes "drive_step P t = (Ok True, t')"
  shows "drive_work t' < drive_work t"
proof (cases "t_phase t = NeedPeerVersion")
  case True
  with assms obtain peer n where p: "parse_peer_id (drop (t_rx_pos t) (t_rx t)) (t_role t = Client) = Ok (Some (peer, n))"
    and t': "t' = t\<lparr>t_peer_id := Some peer, t_rx_pos := t_rx_pos t + n, t_phase := Handshake\<rparr>"
    by (auto simp: drive_step_def onOk_def slice_from_def split: if_splits result.splits option.splits)
  show ?thesis using version.inside [OF p] True by (simp add: drive_work_def t')
next
  case False
  obtain payload n c where o: "fst (cipher_open P (t_cipher_in t) (t_rx_seq t) (drop (t_rx_pos t) (t_rx t))) = Ok (Some (payload, n))"
    and f: "tframe (t\<lparr>t_cipher_in := c, t_rx_pos := t_rx_pos t + n, t_rx_seq := t_rx_seq t + 1,
        t_rx_bytes_since_rekey := sat_add (t_rx_bytes_since_rekey t) (of_nat n),
        t_rx_packets_since_rekey := t_rx_packets_since_rekey t + 1\<rparr>) t'"
    by (rule drive_step_open [OF assms False])
  have "0 < n" "n \<le> length (t_rx t) - t_rx_pos t" using sealed.inside [OF o] by auto
  with f False show ?thesis by (simp add: drive_work_def tframe_def)
qed

function drive :: "('r, 'z) prims \<Rightarrow> ('r, 'z) transport \<Rightarrow> (('r, 'z) transport, unit) outcome" where
  "drive P t =
     (case drive_step P t of
        (Ok True, t') \<Rightarrow> drive P t'
      | (Ok False, t') \<Rightarrow> (Ok (), t')
      | (Err e, t') \<Rightarrow> (Err e, t')
      | (Crash m, t') \<Rightarrow> (Crash m, t'))"
  by pat_completeness auto
termination
  by (relation "measure (\<lambda>(P, t). drive_work t)") (auto intro: drive_step_progress [OF sym])

declare drive.simps [simp del]

definition on_input ::
    "('r, 'z) prims \<Rightarrow> bytes \<Rightarrow> ('r, 'z) transport \<Rightarrow> (('r, 'z) transport, unit) outcome" where
  "on_input P data t =
     (if t_closing t then (Ok (), t)
      else drive P (t\<lparr>t_rx := t_rx t @ data\<rparr>))"

section \<open>The other public methods\<close>

text \<open>The packets a caller's loop hands over one after the other, until one is refused.\<close>

fun send_packets ::
    "('r, 'z) prims \<Rightarrow> bytes list \<Rightarrow> ('r, 'z) transport \<Rightarrow> (('r, 'z) transport, unit) outcome" where
  "send_packets P [] t = (Ok (), t)"
| "send_packets P (p # ps) t = andThen (send_packet P p t) (\<lambda>_ t. send_packets P ps t)"

definition take_output :: "('r, 'z) transport \<Rightarrow> bytes \<times> ('r, 'z) transport" where
  "take_output t = (t_tx t, t\<lparr>t_tx := []\<rparr>)"

definition clear_output :: "('r, 'z) transport \<Rightarrow> ('r, 'z) transport" where
  "clear_output t = t\<lparr>t_tx := []\<rparr>"

definition poll_event :: "('r, 'z) transport \<Rightarrow> event option \<times> ('r, 'z) transport" where
  "poll_event t = (case t_events t of [] \<Rightarrow> (None, t) | e # es \<Rightarrow> (Some e, t\<lparr>t_events := es\<rparr>))"

definition is_established :: "('r, 'z) transport \<Rightarrow> bool" where
  "is_established t = (t_phase t = PhaseEstablished)"

definition negotiated_cipher :: "('r, 'z) transport \<Rightarrow> bytes option" where
  "negotiated_cipher t = map_option n_cipher_c2s (t_negotiated t)"

definition negotiated_compression :: "('r, 'z) transport \<Rightarrow> bytes option" where
  "negotiated_compression t = map_option n_comp_c2s (t_negotiated t)"

definition set_obfuscation :: "obfuscation \<Rightarrow> ('r, 'z) transport \<Rightarrow> ('r, 'z) transport" where
  "set_obfuscation ob t = t\<lparr>t_obfuscation := ob\<rparr>"

definition set_max_consecutive_peer_rekeys :: "u32 \<Rightarrow> ('r, 'z) transport \<Rightarrow> ('r, 'z) transport" where
  "set_max_consecutive_peer_rekeys n t = t\<lparr>t_max_consecutive_peer_rekeys := n\<rparr>"

definition set_rekey_limits :: "u64 \<Rightarrow> u64 \<Rightarrow> ('r, 'z) transport \<Rightarrow> ('r, 'z) transport" where
  "set_rekey_limits bs packets t = t\<lparr>t_rekey_bytes_limit := bs, t_rekey_packets_limit := packets\<rparr>"

end
