(* ===== verification/Transport_Safety.thy ===== *)
theory Transport_Safety
  imports Transport_Drive
begin

text \<open>
  The invariant of the transport state, \<open>t_wf\<close>, kept by every method on every input, and the absence of
  panics: no byte sequence from the peer makes a method index out of range, unwrap a missing value or
  loop. \<open>wframe\<close> says what writing a packet can change.
\<close>

section \<open>Writing a packet\<close>

definition wframe :: "('r, 'z) transport \<Rightarrow> ('r, 'z) transport \<Rightarrow> bool" where
  "wframe a b \<longleftrightarrow>
     t_phase b = t_phase a \<and> t_rx_seq b = t_rx_seq a \<and> t_cipher_in b = t_cipher_in a \<and>
     t_comp_out_name b = t_comp_out_name a \<and> t_comp_in_name b = t_comp_in_name a \<and>
     t_local_kexinit b = t_local_kexinit a \<and> t_peer_kexinit b = t_peer_kexinit a \<and>
     t_negotiated b = t_negotiated a \<and> t_kex_eph b = t_kex_eph a \<and> t_pending b = t_pending a \<and>
     t_sent_newkeys b = t_sent_newkeys a \<and> t_recv_newkeys b = t_recv_newkeys a \<and>
     t_skip_guess b = t_skip_guess a \<and> t_strict_kex b = t_strict_kex a \<and>
     t_initial_kex_done b = t_initial_kex_done a \<and> t_rekeying b = t_rekeying a \<and>
     t_kexinit_sent b = t_kexinit_sent a \<and> t_tx_app_queue b = t_tx_app_queue a \<and>
     t_bytes_since_rekey b = t_bytes_since_rekey a \<and>
     t_rx_bytes_since_rekey b = t_rx_bytes_since_rekey a \<and>
     t_rx_packets_since_rekey b = t_rx_packets_since_rekey a \<and>
     t_consecutive_peer_rekeys b = t_consecutive_peer_rekeys a \<and>
     t_session_id b = t_session_id a \<and> t_events b = t_events a \<and>
     t_role b = t_role a \<and> t_host_key b = t_host_key a \<and> t_peer_id b = t_peer_id a \<and>
     t_local_id b = t_local_id a \<and>
     t_offered_ciphers b = t_offered_ciphers a \<and> t_offered_compression b = t_offered_compression a \<and>
     t_rx b = t_rx a \<and> t_rx_pos b = t_rx_pos a \<and>
     (cipher_wf (t_cipher_out a) \<longrightarrow> cipher_wf (t_cipher_out b)) \<and>
     (t_cipher_out b = CNone \<longleftrightarrow> t_cipher_out a = CNone)"

lemma wframe_refl [simp]: "wframe a a"
  by (simp add: wframe_def)

lemma wframe_trans: "wframe a b \<Longrightarrow> wframe b c \<Longrightarrow> wframe a c"
  by (simp add: wframe_def)

lemma seal_into_shape:
  assumes "seal_into P c q p r out = Ok (c', r', out')"
  shows "(cipher_wf c \<longrightarrow> cipher_wf c') \<and> (c' = CNone \<longleftrightarrow> c = CNone)"
  using assms
  by (cases c)
    (auto simp: seal_into_def gcm_seal_into_def Let_def gcm_increment_counter split: prod.splits option.splits)

lemma wframe_after_seal: "wframe a t \<Longrightarrow> wframe a (after_seal P p t)"
  by (simp add: after_seal_def wframe_def activate_compression_def Let_def)

lemma wframe_sealed:
  assumes "seal_into P (t_cipher_out t) q p r out = Ok (c', r', out')"
  shows "wframe t (t\<lparr>t_comp_out := co, t_cipher_out := c', t_rng := r', t_tx := out'\<rparr>)"
  using seal_into_shape [OF assms] by (simp add: wframe_def)

lemma wframe_write_packet: "keeps (wframe t) (write_packet P p t)"
  unfolding write_packet_def Let_def
  by (intro keeps_if keeps_onOk keeps_case_prod keeps_return wframe_after_seal)
    (simp_all add: wframe_def seal_into_shape)

lemma write_packet_wframe: "write_packet P p t = (x, s) \<Longrightarrow> wframe t s"
  using wframe_write_packet [of t P p] by (simp add: keeps_def)

section \<open>The invariant\<close>

definition given :: "'a option \<Rightarrow> bool" where
  "given v = (case v of None \<Rightarrow> False | Some _ \<Rightarrow> True)"

lemma given_simps [simp]: "\<not> given None" "given (Some x)"
  by (simp_all add: given_def)

lemma given_iff: "given v \<longleftrightarrow> v \<noteq> None"
  by (cases v) simp_all

definition payload_max :: nat where "payload_max = 2 ^ 32 + 2 ^ 20"

definition offers_ok :: "('r, 'z) transport \<Rightarrow> bool" where
  "offers_ok t \<longleftrightarrow>
     (\<forall>l. t_offered_ciphers t = Some l \<longrightarrow> name_list_ok l \<and> length (join_with comma l) \<le> 2 ^ 20) \<and>
     (\<forall>l. t_offered_compression t = Some l \<longrightarrow> name_list_ok l \<and> length (join_with comma l) \<le> 2 ^ 20)"

definition pending_wf :: "pending_keys \<Rightarrow> bool" where
  "pending_wf p \<longleftrightarrow> cipher_wf (pk_out p) \<and> cipher_wf (pk_inn p)"

definition t_wf :: "('r, 'z) transport \<Rightarrow> bool" where
  "t_wf t \<longleftrightarrow>
     t_rx_pos t \<le> length (t_rx t) \<and>
     cipher_wf (t_cipher_out t) \<and> cipher_wf (t_cipher_in t) \<and>
     (\<forall>p. t_pending t = Some p \<longrightarrow> pending_wf p) \<and>
     (\<forall>p\<in>set (t_tx_app_queue t). length p \<le> payload_max) \<and> offers_ok t \<and>
     (given (t_negotiated t) \<longleftrightarrow> given (t_peer_kexinit t)) \<and>
     (given (t_kex_eph t) \<longrightarrow> given (t_peer_kexinit t)) \<and>
     (t_phase t = PhaseEstablished \<longleftrightarrow> t_initial_kex_done t) \<and>
     (t_rekeying t \<longrightarrow> t_phase t = PhaseEstablished) \<and>
     (t_phase t \<noteq> NeedPeerVersion \<longrightarrow> given (t_peer_id t)) \<and>
     (given (t_pending t) \<or> t_sent_newkeys t \<or> t_recv_newkeys t \<or> t_phase t = PhaseEstablished \<longrightarrow>
        given (t_session_id t) \<and> given (t_peer_id t)) \<and>
     (\<not> t_comp_active t \<longrightarrow> t_comp_out t = CompNone \<and> t_comp_in t = DecompNone) \<and>
     (t_tx_packets_since_rekey t < EPOCH_HARD_PACKETS \<or> t_closing t)"

lemma t_wf_wframe_core:
  assumes "t_wf a" and "wframe a b"
    and "\<not> t_comp_active b \<longrightarrow> t_comp_out b = CompNone \<and> t_comp_in b = DecompNone"
    and "t_tx_packets_since_rekey b < EPOCH_HARD_PACKETS \<or> t_closing b"
  shows "t_wf b"
  using assms by (simp add: t_wf_def wframe_def offers_ok_def)

text \<open>The elementary updates, each with what its place in the code guarantees.\<close>

lemma t_wf_updates:
  assumes "t_wf t"
  shows "t_wf (t\<lparr>t_rng := r\<rparr>)" "t_wf (t\<lparr>t_closing := True\<rparr>)"
    "t_wf (t\<lparr>t_tx_seq := q\<rparr>)" "t_wf (t\<lparr>t_rx_seq := q\<rparr>)"
    "t_wf (t\<lparr>t_skip_guess := b\<rparr>)" "t_wf (t\<lparr>t_strict_kex := b\<rparr>)"
    "t_wf (t\<lparr>t_kex_eph := None\<rparr>)"
    "t_wf (t\<lparr>t_local_kexinit := pl, t_kexinit_sent := b\<rparr>)"
    "t_wf (t\<lparr>t_bytes_since_rekey := w\<rparr>)" "t_wf (t\<lparr>t_consecutive_peer_rekeys := c\<rparr>)"
    "t_wf (t\<lparr>t_events := es\<rparr>)" "t_wf (t\<lparr>t_consecutive_peer_rekeys := c, t_events := es\<rparr>)"
    "t_wf (t\<lparr>t_skip_guess := b, t_negotiated := Some n, t_peer_kexinit := Some k\<rparr>)"
    "t_wf (t\<lparr>t_session_id := Some s\<rparr>)"
    "t_wf (activate_compression P t)" "t_wf (t\<lparr>t_tx := out\<rparr>)" "t_wf (t\<lparr>t_obfuscation := ob\<rparr>)"
    "t_wf (t\<lparr>t_max_consecutive_peer_rekeys := c\<rparr>)"
    "t_wf (t\<lparr>t_rekey_bytes_limit := w, t_rekey_packets_limit := w'\<rparr>)"
    "t_wf (t\<lparr>t_rx := t_rx t @ data\<rparr>)" "t_wf (compact_rx t)"
  using assms by (simp_all add: t_wf_def offers_ok_def activate_compression_def compact_rx_def)

lemma t_wf_if: "(b \<Longrightarrow> t_wf x) \<Longrightarrow> (\<not> b \<Longrightarrow> t_wf y) \<Longrightarrow> t_wf (if b then x else y)"
  by simp

lemma write_body_safe:
  assumes "prims_safe P"
  obtains body co where "write_body P p t = Ok (body, co)"
    and "co = CompNone \<longleftrightarrow> t_comp_out t = CompNone" and "length body \<le> compressed_max (length p)"
proof (cases "t_comp_out t")
  case CompNone
  then show thesis using that by (simp add: write_body_def compressed_max_def)
next
  case (CompZlib c)
  obtain out cz' where "compress P (CompZlib c) p = Ok (out, cz')" "cz' = CompNone \<longleftrightarrow> CompZlib c = CompNone"
    "length out \<le> compressed_max (length p)"
    by (rule compress_safe [OF assms, of "CompZlib c" p])
  then show thesis using that CompZlib by (simp add: write_body_def)
qed

lemma write_packet_writes:
  assumes P: "prims_safe P" and t: "\<not> t_closing t" and len: "length p \<le> payload_max"
  obtains body co c' r' out where "write_body P p t = Ok (body, co)"
    and "co = CompNone \<longleftrightarrow> t_comp_out t = CompNone"
    and "seal_into P (t_cipher_out t) (t_tx_seq t) body (t_rng t) (t_tx t) = Ok (c', r', out)"
    and "write_packet P p t = (Ok (), after_seal P p (t\<lparr>t_comp_out := co, t_cipher_out := c', t_rng := r', t_tx := out\<rparr>))"
proof -
  obtain body co where b: "write_body P p t = Ok (body, co)" "co = CompNone \<longleftrightarrow> t_comp_out t = CompNone"
    "length body \<le> compressed_max (length p)"
    by (rule write_body_safe [OF P, of p t])
  have "length body < 2 ^ 35" using b(3) len by (simp add: compressed_max_def payload_max_def)
  from not_crashed_seal [OF prims_safe_laws(1,2) [OF P] this, of "t_cipher_out t" "t_tx_seq t" "t_rng t" "t_tx t"]
  obtain c' r' f where s: "seal_into P (t_cipher_out t) (t_tx_seq t) body (t_rng t) (t_tx t) = Ok (c', r', f)"
    by blast
  with b t show thesis by (intro that) (simp_all add: write_packet_def)
qed

lemma t_wf_write_packet [hold_intros]:
  assumes P: "prims_safe P" and wf: "t_wf t" and len: "length p \<le> payload_max"
  shows "holds t_wf (write_packet P p t)"
proof (cases "t_closing t")
  case True
  then show ?thesis using wf by (simp add: write_packet_def holds_def)
next
  case False
  obtain body co c' r' f where b: "co = CompNone \<longleftrightarrow> t_comp_out t = CompNone"
    and w: "write_packet P p t = (Ok (), after_seal P p (t\<lparr>t_comp_out := co, t_cipher_out := c', t_rng := r', t_tx := f\<rparr>))"
    by (rule write_packet_writes [OF P False len])
  have "\<not> t_comp_active t \<longrightarrow> t_comp_out t = CompNone \<and> t_comp_in t = DecompNone"
    using wf by (simp add: t_wf_def)
  then have "t_wf (after_seal P p (t\<lparr>t_comp_out := co, t_cipher_out := c', t_rng := r', t_tx := f\<rparr>))"
    by (intro t_wf_wframe_core [OF wf write_packet_wframe [OF w]])
      (use b in \<open>simp_all add: after_seal_def Let_def activate_compression_def not_le [symmetric]\<close>)
  then show ?thesis by (simp add: w holds_def)
qed

lemma t_wf_write_packets [hold_intros]:
  "prims_safe P \<Longrightarrow> t_wf t \<Longrightarrow> \<forall>p\<in>set ps. length p \<le> payload_max \<Longrightarrow> holds t_wf (write_packets P ps t)"
  by (induction ps arbitrary: t) (auto intro!: hold_intros)

lemma t_wf_disconnect [hold_intros]:
  assumes "prims_safe P" and "t_wf t" and "length d \<le> 1024"
  shows "holds t_wf (disconnect P reason d t)"
proof -
  have "length (disconnect_msg reason d) \<le> payload_max"
    using assms(3) by (simp add: disconnect_msg_def writer_simps payload_max_def)
  then show ?thesis
    unfolding disconnect_def using assms by (intro hold_intros t_wf_updates)
qed

lemma kexinit_payload_length:
  assumes "offers_ok t" and "length cookie = 16"
  shows "length (ki_payload (ours_with sntrup cookie is_server
      (case t_offered_ciphers t of Some pref \<Rightarrow> pref | None \<Rightarrow> CIPHERS)
      (case t_offered_compression t of Some pref \<Rightarrow> pref | None \<Rightarrow> COMPRESSIONS))) \<le> payload_max"
proof -
  let ?c = "case t_offered_ciphers t of Some pref \<Rightarrow> pref | None \<Rightarrow> CIPHERS"
  let ?z = "case t_offered_compression t of Some pref \<Rightarrow> pref | None \<Rightarrow> COMPRESSIONS"
  have "length (join_with comma CIPHERS) \<le> 2 ^ 20" "length (join_with comma COMPRESSIONS) \<le> 2 ^ 20"
    by (simp_all add: length_join_with CIPHERS_def COMPRESSIONS_def algo_names)
  then have "length (join_with comma ?c) \<le> 2 ^ 20" "length (join_with comma ?z) \<le> 2 ^ 20"
    using assms(1) by (auto simp: offers_ok_def split: option.splits)
  then show ?thesis
    using assms(2) kexinit_lists_short(1,2) [of sntrup] kexinit_lists_short(3,4)
    by (simp add: kexinit_payload payload_max_def)
qed

lemma t_wf_send_kexinit [hold_intros]:
  assumes "prims_safe P" and "t_wf t"
  shows "holds t_wf (send_kexinit P t)"
proof -
  obtain seed rng where sd: "fill_bytes P 32 (t_rng t) = (seed, rng)" by fastforce
  have "length (shake128 P seed 16) = 16" using prims_safe_laws(1) [OF assms(1)] by (simp add: sizes)
  moreover have "offers_ok t" using assms(2) by (simp add: t_wf_def)
  ultimately show ?thesis
    unfolding send_kexinit_def Let_def sd prod.case
    using assms by (intro hold_intros t_wf_updates kexinit_payload_length)
qed

lemma t_wf_begin_rekey_round [hold_intros]:
  assumes "prims_safe P" and "t_wf t" and "t_phase t = PhaseEstablished"
  shows "holds t_wf (begin_rekey_round P t)"
  unfolding begin_rekey_round_def using assms(1)
  by (rule t_wf_send_kexinit) (use assms(2,3) in \<open>simp add: t_wf_def offers_ok_def\<close>)

lemma t_wf_initiate_rekey [hold_intros]:
  "prims_safe P \<Longrightarrow> t_wf t \<Longrightarrow> holds t_wf (initiate_rekey P t)"
  unfolding initiate_rekey_def by (intro hold_intros) auto

lemma t_wf_send_packet [hold_intros]:
  assumes "prims_safe P" and "t_wf t" and "length p \<le> payload_max"
  shows "holds t_wf (send_packet P p t)"
proof -
  have "t_wf (t\<lparr>t_tx_app_queue := t_tx_app_queue t @ [p]\<rparr>)"
    using assms(2,3) by (simp add: t_wf_def offers_ok_def ball_Un)
  then show ?thesis
    unfolding send_packet_def using assms by (intro holds_Let_state hold_intros t_wf_updates)
qed

lemma chaff_length: "sizes_ok P \<Longrightarrow> length (fst (build_chaff P t)) \<le> payload_max"
proof -
  assume P: "sizes_ok P"
  let ?b = "chaff_len_bound (t_obfuscation t)"
  have u: "unat (ucast w :: u32) = unat w" for w :: u16
    using unat_u16 [of w] by (simp add: unsigned_ucast_eq take_bit_nat_eq_self del: unat_u16)
  have "unat ?b < 65536 \<or> unat ?b = 256"
    by (simp add: chaff_len_bound_def DEFAULT_CHAFF_LEN_def u)
  then have b: "unat (?b + 1) \<le> 65536" "?b + 1 \<noteq> 0"
    by (auto simp: unat_word_ariths word_unat_eq_iff)
  have "unat (n mod (?b + 1)) < 65536" for n
    using b by (simp add: unat_mod word_unat_eq_iff) (meson less_le_trans mod_less_divisor neq0_conv)
  from this [of "fst (next_u32 P (t_rng t))"] show ?thesis
    unfolding build_chaff_def Let_def
    by (simp add: split_def writer_simps payload_max_def sizes(1) [OF P])
qed

lemma t_wf_chaff_loop [hold_intros]:
  assumes P: "prims_safe P"
  shows "t_wf t \<Longrightarrow> holds t_wf (chaff_loop P n t)"
proof (induction n arbitrary: t)
  case (Suc n)
  obtain msg t' where b: "build_chaff P t = (msg, t')" by fastforce
  then have "t_wf t'" using Suc.prems by (auto simp: build_chaff_def Let_def t_wf_updates split: prod.splits)
  moreover have "length msg \<le> payload_max" using chaff_length [OF prims_safe_laws(1) [OF P], of t] b by simp
  ultimately show ?case using P Suc.IH by (auto simp: b intro!: hold_intros)
qed (simp add: holds_def)

lemma t_wf_send_chaff [hold_intros]: "prims_safe P \<Longrightarrow> t_wf t \<Longrightarrow> holds t_wf (send_chaff P t)"
proof -
  assume P: "prims_safe P" and t: "t_wf t"
  obtain msg t' where b: "build_chaff P t = (msg, t')" by fastforce
  then have "t_wf t'" using t by (auto simp: build_chaff_def Let_def t_wf_updates split: prod.splits)
  moreover have "length msg \<le> payload_max" using chaff_length [OF prims_safe_laws(1) [OF P], of t] b by simp
  ultimately show ?thesis using P t by (auto simp: send_chaff_def b intro!: hold_intros)
qed

lemma t_wf_send_chaff_burst [hold_intros]: "prims_safe P \<Longrightarrow> t_wf t \<Longrightarrow> holds t_wf (send_chaff_burst P t)"
  unfolding send_chaff_burst_def Let_def by (intro hold_intros t_wf_updates)

section \<open>The handshake\<close>

text \<open>During the exchange the session id and the peer's identification are known.\<close>

definition t_keyed :: "('r, 'z) transport \<Rightarrow> bool" where
  "t_keyed t \<longleftrightarrow> t_wf t \<and> given (t_session_id t) \<and> given (t_peer_id t)"

lemma t_keyed_wf: "holds t_keyed m \<Longrightarrow> holds t_wf m"
  by (simp add: holds_def t_keyed_def)

lemma t_keyed_write_packet:
  assumes "prims_safe P" and "t_keyed t" and "length p \<le> payload_max"
  shows "holds t_keyed (write_packet P p t)"
  using t_wf_write_packet [OF assms(1) _ assms(3), of t] wframe_write_packet [of t P p] assms(2)
  by (simp add: holds_def keeps_def t_keyed_def wframe_def)

lemma t_wf_completed:
  assumes "t_keyed t"
  shows "t_wf (t\<lparr>t_pending := None, t_initial_kex_done := True, t_phase := PhaseEstablished,
      t_events := es, t_rekeying := False, t_kexinit_sent := False, t_sent_newkeys := False,
      t_recv_newkeys := False, t_bytes_since_rekey := 0, t_tx_packets_since_rekey := 0,
      t_rx_bytes_since_rekey := 0, t_rx_packets_since_rekey := 0, t_tx_app_queue := []\<rparr>)"
    and "t_initial_kex_done t \<Longrightarrow> t_wf (t\<lparr>t_pending := None, t_rekeying := False, t_kexinit_sent := False,
      t_sent_newkeys := False, t_recv_newkeys := False, t_bytes_since_rekey := 0,
      t_tx_packets_since_rekey := 0, t_rx_bytes_since_rekey := 0, t_rx_packets_since_rekey := 0,
      t_tx_app_queue := []\<rparr>)"
  using assms by (simp_all add: t_keyed_def t_wf_def offers_ok_def EPOCH_HARD_PACKETS_def)

lemma t_wf_maybe_complete_kex [hold_intros]:
  assumes "prims_safe P" and "t_keyed t"
  shows "holds t_wf (maybe_complete_kex P t)"
proof -
  have "\<forall>p\<in>set (t_tx_app_queue t). length p \<le> payload_max" "t_wf t"
    using assms(2) by (simp_all add: t_keyed_def t_wf_def)
  then show ?thesis
    unfolding maybe_complete_kex_def using assms t_wf_completed [OF assms(2)]
    by (cases "t_initial_kex_done t") (auto simp: Let_def intro!: hold_intros)
qed

lemma t_keyed_finish_kex:
  assumes P: "prims_safe P" and t: "t_wf t" "given (t_negotiated t)" "given (t_peer_id t)"
  shows "holds t_keyed (finish_kex P h k hash t)"
proof -
  let ?s = "t\<lparr>t_session_id := Some (case t_session_id t of Some s \<Rightarrow> s | None \<Rightarrow> h)\<rparr>"
  have s: "t_keyed ?s" using t by (simp add: t_keyed_def t_wf_updates)
  obtain n where n: "t_negotiated t = Some n" using t(2) by (auto simp: given_iff)
  have pend: "t_keyed (?s\<lparr>t_pending := Some \<lparr>pk_out = out, pk_inn = inn\<rparr>, t_comp_out_name := on, t_comp_in_name := inm\<rparr>)"
    if "cipher_wf out" "cipher_wf inn" for out inn on inm
    using s that by (simp add: t_keyed_def t_wf_def offers_ok_def pending_wf_def)
  have kd: "\<not> crashed (keys_derive P k h sid kl il hash)" for sid kl il
    using keys_derive_Ok [OF prims_safe_laws(1) [OF P]] by (metis crashed_simps(1))
  show ?thesis
    unfolding finish_kex_def Let_def
    by (intro hold_intros) (use s kd in \<open>auto simp: n intro: pend cipher_new_wf [THEN conjunct1]\<close>)
qed

lemma t_wf_send_newkeys [hold_intros]:
  assumes P: "prims_safe P" and t: "t_keyed t"
  shows "holds t_wf (send_newkeys P t)"
proof -
  have w: "holds t_keyed (write_packet P [msg_NEWKEYS] t)"
    using t_keyed_write_packet [OF P t] by (simp add: payload_max_def)
  have swap: "t_keyed (case t_pending s of
        Some p \<Rightarrow> s\<lparr>t_cipher_out := pk_out p, t_pending := Some (p\<lparr>pk_out := CNone\<rparr>)\<rparr> | None \<Rightarrow> s)"
    if "t_keyed s" for s :: "('a, 'b) transport"
    using that by (auto simp: t_keyed_def t_wf_def offers_ok_def pending_wf_def split: option.splits)
  have rest: "t_keyed (if t_comp_active s then s\<lparr>t_comp_out := compressor_new P n\<rparr> else s)"
    "t_keyed (if t_strict_kex s then s\<lparr>t_tx_seq := 0\<rparr> else s)" "t_keyed (s\<lparr>t_sent_newkeys := True\<rparr>)"
    if "t_keyed s" for s :: "('a, 'b) transport" and n
    using that by (simp_all add: t_keyed_def t_wf_def offers_ok_def)
  show ?thesis
    unfolding send_newkeys_def
    by (rule holds_andThen_from [OF w])
      (auto intro!: holds_Let_from [where J = t_keyed] swap rest t_wf_maybe_complete_kex [OF P]
        dest: t_keyed_def [THEN iffD1])
qed

lemma t_wf_on_newkeys [hold_intros]:
  assumes P: "prims_safe P" and t: "t_wf t"
  shows "holds t_wf (on_newkeys P t)"
proof (cases "t_pending t")
  case None
  then show ?thesis using t by (simp add: on_newkeys_def holds_def)
next
  case (Some p)
  have swap: "t_keyed (t\<lparr>t_cipher_in := pk_inn p, t_pending := Some (p\<lparr>pk_inn := CNone\<rparr>)\<rparr>)"
    using t Some by (simp add: t_keyed_def t_wf_def offers_ok_def pending_wf_def)
  have rest: "t_keyed (if t_comp_active s then s\<lparr>t_comp_in := decompressor_new P n\<rparr> else s)"
    "t_keyed (if t_strict_kex s then s\<lparr>t_rx_seq := 0\<rparr> else s)" "t_keyed (s\<lparr>t_recv_newkeys := True\<rparr>)"
    if "t_keyed s" for s :: "('a, 'b) transport" and n
    using that by (simp_all add: t_keyed_def t_wf_def offers_ok_def)
  show ?thesis
    unfolding on_newkeys_def Some ok_or_simps onOk_simps
    by (intro holds_Let_from [where J = t_keyed] swap rest t_wf_maybe_complete_kex [OF P])
qed

lemma ephemeral_length:
  assumes "sizes_ok P" and "generate_ephemeral P kind r = (eph, blob, r')"
  shows "length blob \<le> 2048"
  using assms(2) sizes(8,12) [OF assms(1)] kem_lengths(2) [OF assms(1)]
  by (cases kind)
    (auto simp: generate_ephemeral_def mlkem_generate_def sntrup_generate_def ecdh_generate_def Let_def
      split: prod.splits)

lemma server_respond_length:
  assumes "sizes_ok P" and "server_respond P kind r q_c = (Ok (q_s, k), r')"
  shows "length q_s \<le> 2048"
  using assms(2) sizes(8) [OF assms(1)] kem_lengths [OF assms(1)]
  by (cases kind)
    (auto simp: server_respond_def mlkem_server_respond_def sntrup_server_respond_def onOk_def
      classical_server_respond_def ecdh_generate_def Let_def split: prod.splits if_splits result.splits)

lemma not_crashed_server_respond: "\<not> crashed (fst (server_respond P kind r q_c))"
  by (cases kind) (simp_all add: server_respond_def mlkem.respond_calm sntrup.respond_calm classical.respond_calm)

lemma not_crashed_client_agree: "\<not> crashed (client_agree P eph q_s)"
  by (cases eph) (simp_all add: client_agree_def crashed_rbind mlkem.agree_calm sntrup.agree_calm)

lemma not_crashed_exchange_hash: "\<not> crashed (compute_exchange_hash P q_c q_s b k hash t)"
  by (simp add: compute_exchange_hash_def crashed_rbind split_def Let_def)

lemma server_respond_calm: "server_respond P kind r q_c = (res, r') \<Longrightarrow> \<not> crashed res"
  using not_crashed_server_respond [of P kind r q_c] by simp

lemma ok_or_given: "ok_or v e = Ok x \<Longrightarrow> v = Some x"
  by (cases v) simp_all

lemmas kex_calm = not_crashed_client_agree not_crashed_exchange_hash

lemma exchange_hash_given:
  "compute_exchange_hash P q_c q_s b k hash t = Ok h \<Longrightarrow> given (t_peer_id t) \<and> given (t_peer_kexinit t)"
  by (auto simp: compute_exchange_hash_def rbind_Ok_iff ok_or_def given_iff split: option.splits)

lemma t_wf_accept_kexinit:
  "t_wf t \<Longrightarrow> t_wf (accept_kexinit peer n t) \<and> given (t_peer_kexinit (accept_kexinit peer n t))"
  by (simp add: accept_kexinit_def t_wf_def offers_ok_def)

lemma t_wf_send_ecdh_init [hold_intros]:
  assumes P: "prims_safe P" and t: "t_wf t" "given (t_peer_kexinit t)"
  shows "holds t_wf (send_ecdh_init P t)"
proof -
  obtain eph blob r' where g: "generate_ephemeral P (transport_kex_kind P t) (t_rng t) = (eph, blob, r')"
    by (metis prod_cases3)
  let ?w = "w_string (w_u8 writer_new msg_KEX_ECDH_INIT) blob"
  have len: "length ?w \<le> payload_max"
    using ephemeral_length [OF prims_safe_laws(1) [OF P] g] by (simp add: writer_simps payload_max_def)
  have "holds (\<lambda>s. t_wf s \<and> given (t_peer_kexinit s)) (write_packet P ?w (t\<lparr>t_rng := r'\<rparr>))"
    using t_wf_write_packet [OF P t_wf_updates(1) [OF t(1)] len] wframe_write_packet [of "t\<lparr>t_rng := r'\<rparr>" P ?w] t(2)
    by (simp add: holds_def keeps_def wframe_def)
  then show ?thesis
    unfolding send_ecdh_init_def g Let_def prod.case
    by (rule holds_andThen_from) (auto simp: holds_def t_wf_def offers_ok_def)
qed

lemma t_wf_on_peer_kexinit [hold_intros]:
  assumes P: "prims_safe P" and t: "t_wf t"
  shows "holds t_wf (on_peer_kexinit P payload t)"
proof -
  define t1 where "t1 = t\<lparr>t_consecutive_peer_rekeys := t_consecutive_peer_rekeys t + 1\<rparr>"
  have t1: "t_wf t1" "t_phase t1 = t_phase t" using t by (simp_all add: t1_def t_wf_updates)
  have neg: "holds t_wf (let t = accept_kexinit peer n s in
      if t_role t = Client then send_ecdh_init P t else (Ok (), t))" if "t_wf s" for s peer n
    using t_wf_accept_kexinit [OF that] P by (auto simp: Let_def intro: hold_intros)
  show ?thesis
    unfolding on_peer_kexinit_def t1_def [symmetric]
    by (intro holds_Let hold_intros neg) (use P t t1 in \<open>auto intro: hold_intros\<close>)
qed

lemma t_wf_complete_exchange:
  assumes P: "prims_safe P" and t: "t_wf t" "given (t_peer_id t)" "given (t_peer_kexinit t)"
  shows "holds t_wf (andThen (finish_kex P h k hash t) (\<lambda>_ t. send_newkeys P t))"
proof -
  have "given (t_negotiated t)" using t(1,3) by (simp add: t_wf_def)
  from t_keyed_finish_kex [OF P t(1) this t(2)] show ?thesis
    by (rule holds_andThen_from) (simp_all add: t_keyed_def [THEN iffD1] t_wf_send_newkeys [OF P])
qed

lemma length_vk_blob: "length (vk_blob vk) = length vk + 19"
  by (simp add: vk_blob_enc)

lemma length_signature: "sizes_ok P \<Longrightarrow> length (sign_exchange_hash P k h) = 83"
  by (simp add: sign_exchange_hash_def Let_def writer_simps sizes)

lemma t_wf_on_ecdh_init [hold_intros]:
  assumes P: "prims_safe P" and t: "t_wf t"
  shows "holds t_wf (on_ecdh_init P payload t)"
proof -
  note sz = prims_safe_laws(1) [OF P]
  have reply: "length (w_string (w_string (w_string (w_u8 writer_new msg_KEX_ECDH_REPLY)
      (host_public_blob P hk)) q_s) (sign_exchange_hash P hk' h)) \<le> payload_max"
    if "server_respond P kind r q_c = (Ok (q_s, k), r')" for hk hk' q_s h kind r q_c k r'
    using server_respond_length [OF sz that] length_signature [OF sz] sizes(10) [OF sz]
    by (simp add: writer_simps payload_max_def host_public_blob_def length_vk_blob)
  have tail: "holds t_wf (andThen (write_packet P w s) (\<lambda>_ t. andThen (finish_kex P h k hash t) (\<lambda>_ t. send_newkeys P t)))"
    if "t_wf s" "length w \<le> payload_max" "compute_exchange_hash P q_c q_s b k hash s = Ok h" for s w q_c q_s b k hash h
  proof (rule holds_andThen_from [where J = "\<lambda>s. t_wf s \<and> given (t_peer_id s) \<and> given (t_peer_kexinit s)"])
    show "holds (\<lambda>s. t_wf s \<and> given (t_peer_id s) \<and> given (t_peer_kexinit s)) (write_packet P w s)"
      using t_wf_write_packet [OF P that(1,2)] wframe_write_packet [of s P w] exchange_hash_given [OF that(3)]
      by (simp add: holds_def keeps_def wframe_def)
  qed (auto intro: t_wf_complete_exchange [OF P])
  show ?thesis
    unfolding on_ecdh_init_def Let_def
    by (intro tail holds_if holds_onOk holds_case_prod holds_return t_wf_updates reply)
      (use t in \<open>auto simp: kex_calm dest!: ok_or_given split: option.splits
        dest: server_respond_calm\<close>)
qed

lemma t_wf_on_ecdh_reply [hold_intros]:
  assumes P: "prims_safe P" and t: "t_wf t"
  shows "holds t_wf (on_ecdh_reply P payload t)"
proof -
  have tail: "holds t_wf (andThen (finish_kex P h k hash (s\<lparr>t_events := es\<rparr>)) (\<lambda>_ t. send_newkeys P t))"
    if "t_wf s" "compute_exchange_hash P q_c q_s b k hash s = Ok h" for s q_c q_s b k hash h es
    using exchange_hash_given [OF that(2)] that(1) by (intro t_wf_complete_exchange [OF P] t_wf_updates) simp_all
  show ?thesis
    unfolding on_ecdh_reply_def Let_def
    by (intro tail holds_if holds_onOk holds_case_prod holds_return t_wf_updates)
      (use t in \<open>auto simp: kex_calm intro: t_wf_updates\<close>)
qed

section \<open>The read path\<close>

lemma t_wf_decompress_in [hold_intros]:
  assumes "prims_safe P" and "t_wf t"
  shows "holds t_wf (decompress_in P p t)"
proof (cases "t_comp_in t")
  case DecompNone
  then show ?thesis using assms(2) by (simp add: decompress_in_def holds_def)
next
  case (DecompZlib d)
  then have "t_comp_active t" using assms(2) by (auto simp: t_wf_def)
  then show ?thesis
    using DecompZlib assms decompress_safe [OF assms(1), of "DecompZlib d" p]
    by (simp add: decompress_in_def holds_def split_def Let_def t_wf_def offers_ok_def)
qed

lemma t_wf_handle_packet [hold_intros]:
  "prims_safe P \<Longrightarrow> t_wf t \<Longrightarrow> holds t_wf (handle_packet P p t)"
  unfolding handle_packet_def by (intro hold_intros t_wf_updates) simp_all

lemma t_wf_process_packet [hold_intros]:
  "prims_safe P \<Longrightarrow> t_wf t \<Longrightarrow> holds t_wf (process_packet P p t)"
  unfolding process_packet_def by (intro holds_Let_state hold_intros t_wf_updates t_wf_if)

lemma t_wf_drive_step:
  assumes P: "prims_safe P" and t: "t_wf t"
  shows "holds t_wf (drive_step P t)"
proof -
  have pos: "t_rx_pos t \<le> length (t_rx t)" using t by (simp add: t_wf_def)
  have id: "t_wf (t\<lparr>t_peer_id := Some peer, t_rx_pos := t_rx_pos t + n, t_phase := Handshake\<rparr>)"
    if "t_phase t = NeedPeerVersion" "parse_peer_id (drop (t_rx_pos t) (t_rx t)) b = Ok (Some (peer, n))" for peer n b
  proof -
    have "t_rx_pos t + n \<le> length (t_rx t)" using version.inside [OF that(2)] pos by simp linarith
    with t that(1) show ?thesis by (simp add: t_wf_def offers_ok_def)
  qed
  have cin: "t_wf (t\<lparr>t_cipher_in := c\<rparr>)"
    if "cipher_open P (t_cipher_in t) (t_rx_seq t) buf = (res, c)" for c res buf
    using cipher_open_wf [of "t_cipher_in t" P "t_rx_seq t" buf] that t by (simp add: t_wf_def offers_ok_def)
  have pk: "t_wf (t\<lparr>t_cipher_in := c, t_rx_pos := t_rx_pos t + n, t_rx_seq := q, t_rx_bytes_since_rekey := w1,
      t_rx_packets_since_rekey := w2\<rparr>)"
    if o: "cipher_open P (t_cipher_in t) (t_rx_seq t) (drop (t_rx_pos t) (t_rx t)) = (Ok (Some (p, n)), c)" for c p n q w1 w2
  proof -
    have "n \<le> length (t_rx t) - t_rx_pos t"
      using sealed.inside [of P "t_cipher_in t" "t_rx_seq t" "drop (t_rx_pos t) (t_rx t)" p n] o by simp
    then have "t_rx_pos t + n \<le> length (t_rx t)" using pos by linarith
    with cin [OF o] show ?thesis by (simp add: t_wf_def offers_ok_def)
  qed
  have calm: "\<not> crashed res"
    if "cipher_open P (t_cipher_in t) (t_rx_seq t) buf = (res, c)" for c res buf
    using sealed.calm [of P "t_cipher_in t" "t_rx_seq t" buf] that by simp
  show ?thesis
    unfolding drive_step_def slice_from_def
    using pos t
    by (auto simp: Let_def intro!: hold_intros id pk cin t_wf_updates P version.calm dest: calm)
qed

lemma t_wf_drive: "prims_safe P \<Longrightarrow> t_wf t \<Longrightarrow> holds t_wf (drive P t)"
proof (induction P t rule: drive.induct)
  case (1 P t)
  obtain r s where st: "drive_step P t = (r, s)" by fastforce
  have h: "\<not> crashed r" "t_wf s" using t_wf_drive_step [OF 1(2,3)] st by (simp_all add: holds_def)
  show ?case
  proof (cases r)
    case (Ok b)
    with h 1(1) [OF st [symmetric]] 1(2) show ?thesis
      by (cases b) (auto simp: drive.simps [of P t] st holds_def)
  qed (use h in \<open>auto simp: drive.simps [of P t] st holds_def\<close>)
qed

lemma t_wf_on_input [hold_intros]: "prims_safe P \<Longrightarrow> t_wf t \<Longrightarrow> holds t_wf (on_input P data t)"
  unfolding on_input_def by (intro hold_intros t_wf_drive t_wf_updates)

lemma t_wf_start:
  assumes "prims_safe P" and "offers_ok (transport_init role rng hk oc oz)"
  shows "holds t_wf (transport_start P role rng hk oc oz)"
  unfolding transport_start_def using assms(1)
  by (rule t_wf_send_kexinit)
    (use assms(2) in \<open>simp add: transport_init_def t_wf_def offers_ok_def EPOCH_HARD_PACKETS_def\<close>)

section \<open>Every use of the engine\<close>

text \<open>
  One call of a public method, with any argument a driver can pass (payloads up to \<open>payload_max\<close> bytes,
  disconnect texts up to a kilobyte). The state after a call that returned an error is included.
\<close>

inductive api_step :: "('r, 'z) prims \<Rightarrow> ('r, 'z) transport \<Rightarrow> ('r, 'z) transport \<Rightarrow> bool"
  for P :: "('r, 'z) prims" where
  step_input: "api_step P t (snd (on_input P data t))"
| step_send: "length p \<le> payload_max \<Longrightarrow> api_step P t (snd (send_packet P p t))"
| step_chaff: "api_step P t (snd (send_chaff P t))"
| step_burst: "api_step P t (snd (send_chaff_burst P t))"
| step_rekey: "api_step P t (snd (initiate_rekey P t))"
| step_disconnect: "length d \<le> 1024 \<Longrightarrow> api_step P t (snd (disconnect P reason d t))"
| step_poll: "api_step P t (snd (poll_event t))"
| step_take: "api_step P t (snd (take_output t))"
| step_clear: "api_step P t (clear_output t)"
| step_obfuscation: "api_step P t (set_obfuscation ob t)"
| step_max_rekeys: "api_step P t (set_max_consecutive_peer_rekeys n t)"
| step_limits: "api_step P t (set_rekey_limits bs ps t)"

inductive reachable :: "('r, 'z) prims \<Rightarrow> ('r, 'z) transport \<Rightarrow> bool"
  for P :: "('r, 'z) prims" where
  reach_start: "offers_ok (transport_init role rng hk oc oz :: ('r, 'z) transport) \<Longrightarrow>
    transport_start P role rng hk oc oz = (Ok (), t) \<Longrightarrow> reachable P t"
| reach_step: "reachable P t \<Longrightarrow> api_step P t t' \<Longrightarrow> reachable P t'"

text \<open>An invariant of the handlers that reading, polling and configuring keep as well is an invariant of
  every call; one that a fresh transport has holds in every reachable state.\<close>

locale transport_invariant = transport_keeps +
  assumes upd_id: "I t \<Longrightarrow> t_phase t = NeedPeerVersion \<Longrightarrow>
      I (t\<lparr>t_peer_id := Some peer, t_rx_pos := n, t_phase := Handshake\<rparr>)"
    and upd_open: "I t \<Longrightarrow> cipher_open P (t_cipher_in t) (t_rx_seq t) buf = (res, c) \<Longrightarrow> I (t\<lparr>t_cipher_in := c\<rparr>)"
    and upd_advance: "I t \<Longrightarrow> I (t\<lparr>t_rx_pos := n, t_rx_seq := q, t_rx_bytes_since_rekey := w1,
        t_rx_packets_since_rekey := w2\<rparr>)"
    and upd_rx: "I t \<Longrightarrow> I (t\<lparr>t_rx := buf\<rparr>)"
    and upd_compact: "I t \<Longrightarrow> I (compact_rx t)"
    and upd_polled: "I t \<Longrightarrow> t_events t = e # es \<Longrightarrow> I (t\<lparr>t_events := es\<rparr>)"
    and upd_taken: "I t \<Longrightarrow> I (t\<lparr>t_tx := []\<rparr>)"
    and upd_obfuscation: "I t \<Longrightarrow> I (t\<lparr>t_obfuscation := ob\<rparr>)"
    and upd_max: "I t \<Longrightarrow> I (t\<lparr>t_max_consecutive_peer_rekeys := c'\<rparr>)"
    and upd_limits: "I t \<Longrightarrow> I (t\<lparr>t_rekey_bytes_limit := w1, t_rekey_packets_limit := w2\<rparr>)"
begin

lemma keep_drive_step: "I t \<Longrightarrow> keeps I (drive_step P t)"
proof -
  assume t: "I t"
  show ?thesis
  proof (cases "t_phase t = NeedPeerVersion")
    case True
    then show ?thesis
      unfolding drive_step_def using t by (auto intro!: keep_intros upd_id upd_compact)
  next
    case False
    obtain res c where o: "cipher_open P (t_cipher_in t) (t_rx_seq t) (drop (t_rx_pos t) (t_rx t)) = (res, c)"
      by fastforce
    show ?thesis
      unfolding drive_step_def slice_from_def Let_def
      by (intro keep_intros keep_process_packet)
        (use False t upd_open [OF t] cipher_open_short in \<open>auto intro: upd_advance [of "t\<lparr>t_cipher_in := _\<rparr>", simplified] upd_compact
          split: if_splits\<close>)
  qed
qed

lemma keep_drive: "I t \<Longrightarrow> keeps I (drive P t)"
proof (induction "drive_work t" arbitrary: t rule: less_induct)
  case less
  obtain r s where st: "drive_step P t = (r, s)" by fastforce
  have s: "I s" using keep_drive_step [OF less.prems] st by (simp add: keeps_def)
  show ?case
  proof (cases r)
    case (Ok b)
    then show ?thesis
      using st s less.hyps [OF drive_step_progress, of P s]
      by (cases b) (auto simp: drive.simps [of P t] keeps_def)
  qed (use st s in \<open>auto simp: drive.simps [of P t] keeps_def\<close>)
qed

lemma keep_on_input: "I t \<Longrightarrow> keeps I (on_input P data t)"
  unfolding on_input_def by (intro keep_intros keep_drive upd_rx)

lemma keep_api_step: "api_step P t t' \<Longrightarrow> I t \<Longrightarrow> I t'"
proof (induction rule: api_step.induct)
qed (use keep_on_input keep_send_packet keep_send_chaff keep_send_chaff_burst keep_initiate_rekey keep_disconnect
    in \<open>auto simp: keeps_def poll_event_def take_output_def clear_output_def set_obfuscation_def
      set_max_consecutive_peer_rekeys_def set_rekey_limits_def
      intro: upd_polled upd_taken upd_obfuscation upd_max upd_limits split: list.splits\<close>)

lemma keep_reachable:
  assumes "\<And>role rng hk oc oz. I (transport_init role rng hk oc oz)"
  shows "reachable P t \<Longrightarrow> I t"
proof (induction rule: reachable.induct)
  case (reach_start role rng hk oc oz t)
  then show ?case
    using keep_send_kexinit [OF assms] by (metis keeps_def snd_conv transport_start_def)
qed (rule keep_api_step)

end

lemma t_wf_api_step:
  assumes P: "prims_safe P" and "api_step P t t'" and "t_wf t"
  shows "t_wf t'"
  using assms(2,3)
proof (cases rule: api_step.cases)
  case (step_input data)
  then show ?thesis using t_wf_on_input [OF P assms(3), of data] by (simp add: holds_def)
next
  case (step_send p)
  then show ?thesis using t_wf_send_packet [OF P assms(3), of p] by (simp add: holds_def)
next
  case step_chaff
  then show ?thesis using t_wf_send_chaff [OF P assms(3)] by (simp add: holds_def)
next
  case step_burst
  then show ?thesis using t_wf_send_chaff_burst [OF P assms(3)] by (simp add: holds_def)
next
  case step_rekey
  then show ?thesis using t_wf_initiate_rekey [OF P assms(3)] by (simp add: holds_def)
next
  case (step_disconnect d reason)
  then show ?thesis using t_wf_disconnect [OF P assms(3), of d reason] by (simp add: holds_def)
qed (auto simp: poll_event_def take_output_def clear_output_def set_obfuscation_def t_wf_updates
    set_max_consecutive_peer_rekeys_def set_rekey_limits_def split: list.splits)

lemma reachable_wf:
  assumes P: "prims_safe P" and "reachable P t"
  shows "t_wf t"
  using assms(2)
proof (induction rule: reachable.induct)
  case (reach_start role rng hk oc oz t)
  then show ?case using t_wf_start [OF P reach_start(1)] by (simp add: holds_def)
next
  case (reach_step t t')
  then show ?case using t_wf_api_step [OF P] by blast
qed

lemma sample_reachable:
  "\<exists>t :: (nat, nat) transport. new_server sample_prims 0 \<lparr>hk_signing = replicate 32 1\<rparr> = (Ok (), t) \<and>
     reachable sample_prims t"
proof -
  have o: "offers_ok (transport_init Server 0 (Some \<lparr>hk_signing = replicate 32 1\<rparr>) None None :: (nat, nat) transport)"
    by (simp add: offers_ok_def transport_init_def)
  obtain r t where st: "transport_start sample_prims Server 0 (Some \<lparr>hk_signing = replicate 32 1\<rparr>) None None = (r, t)"
    by fastforce
  moreover have "r = Ok ()"
    using st by (simp add: transport_start_def send_kexinit_def write_packet_def write_body_def
        transport_init_def seal_into_def Let_def split: prod.splits)
  ultimately show ?thesis
    using reachable.reach_start [OF o, of sample_prims t] by (simp add: new_server_def)
qed

section \<open>Properties\<close>

text \<open>C13: No input panics the engine. From a fresh client or server, through any sequence of calls and any
  bytes from the peer, every method returns a result or an error: no index out of range, no unwrap of
  a missing value, no endless loop, whatever the peer sends in whatever state.\<close>

theorem transport_never_panics:
  assumes "prims_safe P" and "reachable P t"
  shows "\<not> crashed (fst (on_input P data t)) \<and>
    (length p \<le> payload_max \<longrightarrow> \<not> crashed (fst (send_packet P p t))) \<and>
    (length d \<le> 1024 \<longrightarrow> \<not> crashed (fst (disconnect P reason d t))) \<and>
    \<not> crashed (fst (initiate_rekey P t)) \<and> \<not> crashed (fst (send_chaff P t)) \<and>
    \<not> crashed (fst (send_chaff_burst P t))"
proof -
  have wf: "t_wf t" by (rule reachable_wf [OF assms])
  show ?thesis
    using t_wf_on_input [OF assms(1) wf] t_wf_send_packet [OF assms(1) wf] t_wf_disconnect [OF assms(1) wf]
      t_wf_initiate_rekey [OF assms(1) wf] t_wf_send_chaff [OF assms(1) wf] t_wf_send_chaff_burst [OF assms(1) wf]
    by (simp add: holds_def)
qed

theorem transport_never_panics_witness:
  "\<exists>t :: (nat, nat) transport. new_server sample_prims 0 \<lparr>hk_signing = replicate 32 1\<rparr> = (Ok (), t) \<and>
     \<not> crashed (fst (on_input sample_prims [1, 2, 3] t))"
proof -
  obtain t :: "(nat, nat) transport"
    where t: "new_server sample_prims 0 \<lparr>hk_signing = replicate 32 1\<rparr> = (Ok (), t)" "reachable sample_prims t"
    using sample_reachable by blast
  from transport_never_panics [OF sample_safe t(2), of "[1, 2, 3]"] t(1) show ?thesis by blast
qed

end
