(* ===== verification/Transport_Security.thy ===== *)
theory Transport_Security
  imports Transport_Safety
begin

text \<open>
  What the transport guarantees beyond not failing: encrypted sending once keys are installed, a session
  id that never changes, silence after a disconnect, the packet budget of a key epoch, automatic
  re-keying, rejection of injected messages under strict KEX.
\<close>

section \<open>Sending is encrypted from our NEWKEYS on\<close>

definition out_sealed :: "('r, 'z) transport \<Rightarrow> bool" where
  "out_sealed t \<longleftrightarrow> (t_sent_newkeys t \<or> t_phase t = PhaseEstablished \<longrightarrow> t_cipher_out t \<noteq> CNone)"

lemma out_sealed_write_packet: "out_sealed t \<Longrightarrow> keeps out_sealed (write_packet P p t)"
  using wframe_write_packet [of t P p] by (simp add: keeps_def out_sealed_def wframe_def)

lemma out_sealed_write_packets: "out_sealed t \<Longrightarrow> keeps out_sealed (write_packets P ps t)"
  by (induction ps arbitrary: t) (auto intro!: keep_intros out_sealed_write_packet)

lemma out_sealed_maybe_complete_kex: "out_sealed t \<Longrightarrow> keeps out_sealed (maybe_complete_kex P t)"
  unfolding maybe_complete_kex_def Let_def
  by (intro keep_intros out_sealed_write_packets) (auto simp: out_sealed_def)

text \<open>A finished exchange leaves two fresh ciphers pending, which \<open>send_newkeys\<close> puts to use.\<close>

lemma finish_kex_pending:
  assumes "finish_kex P h k hash t = (Ok x, s)"
  obtains out inn where "t_pending s = Some \<lparr>pk_out = out, pk_inn = inn\<rparr>" and "out \<noteq> CNone" and "inn \<noteq> CNone"
  using assms unfolding finish_kex_def Let_def onOk_def
  by (auto split: result.splits prod.splits dest!: cipher_new_wf)

lemma out_sealed_send_newkeys:
  assumes "t_pending t = Some p" and "pk_out p \<noteq> CNone" and "out_sealed t"
  shows "keeps out_sealed (send_newkeys P t)"
proof -
  have "t_pending s = Some p" if "write_packet P q t = (r, s)" for q r s
    using write_packet_wframe [OF that] assms(1) by (simp add: wframe_def)
  then show ?thesis
    unfolding send_newkeys_def
    by (intro keeps_andThen out_sealed_write_packet assms(3))
      (auto simp: Let_def out_sealed_def assms(2) intro!: out_sealed_maybe_complete_kex)
qed

interpretation sealed_out: transport_invariant P out_sealed for P
proof
  fix t :: "('a, 'b) transport" and h k hash p
  assume t: "out_sealed t"
  show "keeps out_sealed (send_ecdh_init P t)"
    unfolding send_ecdh_init_def
    by (intro keep_intros out_sealed_write_packet) (use t in \<open>auto simp: out_sealed_def\<close>)
  have "keeps out_sealed (finish_kex P h k hash t)"
    unfolding finish_kex_def Let_def by (intro keep_intros) (use t in \<open>auto simp: out_sealed_def\<close>)
  then show "keeps out_sealed (andThen (finish_kex P h k hash t) (\<lambda>_ t. send_newkeys P t))"
    by (rule keeps_andThen) (metis finish_kex_pending out_sealed_send_newkeys pending_keys.select_convs(1))
  show "keeps out_sealed (on_newkeys P t)"
    unfolding on_newkeys_def Let_def
    by (intro keep_intros out_sealed_maybe_complete_kex) (use t in \<open>auto simp: out_sealed_def\<close>)
  show "keeps out_sealed (write_packet P p t)" by (rule out_sealed_write_packet [OF t])
qed (auto simp: out_sealed_def accept_kexinit_def activate_compression_def compact_rx_def)

section \<open>What is fixed for good\<close>

text \<open>A predicate that only looks at what \<open>tframe\<close> preserves is kept by every handler.\<close>

lemma keeps_by_frame:
  assumes "keeps (tframe t) m" and "\<And>b. tframe t b \<Longrightarrow> I b"
  shows "keeps I m"
  using assms by (simp add: keeps_def)

lemma frame_exchange: "keeps (tframe t) (andThen (finish_kex P h k hash t) (\<lambda>_ t. send_newkeys P t))"
  by (rule frame.exchange) simp

lemma frame_on_newkeys: "keeps (tframe t) (on_newkeys P t)"
  by (rule frame.newkeys) simp

lemma frame_writes: "keeps (tframe t) (write_packet P p t)"
  by (rule frame.writes) simp

lemma frame_announce: "keeps (tframe t) (send_ecdh_init P t)"
  unfolding send_ecdh_init_def by (intro keep_intros tframe_basic tframe_refl)

lemmas frame_handlers = frame_exchange frame_on_newkeys frame_writes frame_announce

text \<open>So for such a predicate only reading, polling and configuring are left to check.\<close>

locale framed_invariant =
  fixes P :: "('r, 'z) prims" and I :: "('r, 'z) transport \<Rightarrow> bool"
  assumes framed: "I a \<Longrightarrow> tframe a b \<Longrightarrow> I b"
    and rd_id: "I t \<Longrightarrow> t_phase t = NeedPeerVersion \<Longrightarrow>
      I (t\<lparr>t_peer_id := Some peer, t_rx_pos := n, t_phase := Handshake\<rparr>)"
    and rd_advance: "I t \<Longrightarrow> I (t\<lparr>t_rx_pos := n, t_rx_seq := q, t_rx_bytes_since_rekey := w1,
        t_rx_packets_since_rekey := w2\<rparr>)"
    and rd_rx: "I t \<Longrightarrow> I (t\<lparr>t_rx := buf\<rparr>)"
    and rd_compact: "I t \<Longrightarrow> I (compact_rx t)"
    and cfg_polled: "I t \<Longrightarrow> t_events t = e # es \<Longrightarrow> I (t\<lparr>t_events := es\<rparr>)"
    and cfg_taken: "I t \<Longrightarrow> I (t\<lparr>t_tx := []\<rparr>)"
    and cfg_obfuscation: "I t \<Longrightarrow> I (t\<lparr>t_obfuscation := ob\<rparr>)"
    and cfg_max: "I t \<Longrightarrow> I (t\<lparr>t_max_consecutive_peer_rekeys := c\<rparr>)"
    and cfg_limits: "I t \<Longrightarrow> I (t\<lparr>t_rekey_bytes_limit := w1, t_rekey_packets_limit := w2\<rparr>)"

sublocale framed_invariant \<subseteq> transport_invariant P I
proof
  fix t h k hash p
  assume t: "I t"
  show "keeps I (andThen (finish_kex P h k hash t) (\<lambda>_ t. send_newkeys P t))"
    "keeps I (on_newkeys P t)" "keeps I (write_packet P p t)" "keeps I (send_ecdh_init P t)"
    by (rule keeps_by_frame [OF frame_exchange framed [OF t]] keeps_by_frame [OF frame_on_newkeys framed [OF t]]
        keeps_by_frame [OF frame_writes framed [OF t]] keeps_by_frame [OF frame_announce framed [OF t]]; assumption)+
qed (blast intro: framed tframe_updates [OF tframe_refl] tframe_accept_kexinit [OF tframe_refl]
    rd_id rd_advance rd_rx rd_compact cfg_polled cfg_taken cfg_obfuscation cfg_max cfg_limits)+

definition has_session :: "bytes \<Rightarrow> ('r, 'z) transport \<Rightarrow> bool" where
  "has_session sid t \<longleftrightarrow> t_session_id t = Some sid"

interpretation session: framed_invariant P "has_session sid" for P sid
  by unfold_locales (auto simp: has_session_def tframe_def compact_rx_def)

text \<open>After the decision to disconnect the output can only be drained.\<close>

definition closed_with :: "bytes \<Rightarrow> ('r, 'z) transport \<Rightarrow> bool" where
  "closed_with out t \<longleftrightarrow> t_closing t \<and> (t_tx t = out \<or> t_tx t = [])"

interpretation closed: framed_invariant P "closed_with out" for P out
  by unfold_locales (auto simp: closed_with_def tframe_def compact_rx_def)

section \<open>Counting packets in a key epoch\<close>

lemma after_seal_counts:
  "t_tx_packets_since_rekey (after_seal P p t) = t_tx_packets_since_rekey t + 1"
  "t_tx_seq (after_seal P p t) = t_tx_seq t + 1"
  "t_closing (after_seal P p t) \<longleftrightarrow> t_closing t \<or> t_tx_packets_since_rekey t + 1 \<ge> EPOCH_HARD_PACKETS"
  by (simp_all add: after_seal_def Let_def activate_compression_def)

lemma write_packet_counts:
  assumes P: "prims_safe P" and t: "t_wf t" "\<not> t_closing t" and len: "length p \<le> payload_max"
    and w: "write_packet P p t = (r, s)"
  shows "r = Ok ()" and "unat (t_tx_packets_since_rekey s) = unat (t_tx_packets_since_rekey t) + 1"
    and "t_tx_seq s = t_tx_seq t + 1"
    and "t_closing s \<longleftrightarrow> unat (t_tx_packets_since_rekey t) + 1 \<ge> 2 ^ 31"
proof -
  have c: "t_tx_packets_since_rekey t < EPOCH_HARD_PACKETS" using t by (simp add: t_wf_def)
  then have small: "unat (t_tx_packets_since_rekey t) < 2 ^ 31"
    by (simp add: EPOCH_HARD_PACKETS_def word_less_nat_alt)
  have un: "unat (t_tx_packets_since_rekey t + 1) = unat (t_tx_packets_since_rekey t) + 1"
    using small by (simp add: unat_word_ariths)
  obtain u where
    s: "r = Ok ()" "s = after_seal P p u" "t_closing u = t_closing t" "t_tx_seq u = t_tx_seq t"
      "t_tx_packets_since_rekey u = t_tx_packets_since_rekey t"
    by (rule write_packet_writes [OF P t(2) len]) (use w in \<open>auto dest: meta_mp\<close>)
  show "r = Ok ()" by (rule s(1))
  show "unat (t_tx_packets_since_rekey s) = unat (t_tx_packets_since_rekey t) + 1"
    "t_tx_seq s = t_tx_seq t + 1"
    using s un by (simp_all add: after_seal_counts)
  show "t_closing s \<longleftrightarrow> unat (t_tx_packets_since_rekey t) + 1 \<ge> 2 ^ 31"
    using s t(2) un by (simp add: after_seal_counts EPOCH_HARD_PACKETS_def word_le_nat_alt)
qed

lemma write_packets_closed: "t_closing t \<Longrightarrow> write_packets P ps t = (Ok (), t)"
  by (induction ps) (simp_all add: write_packet_def)

lemma write_packets_counts:
  assumes P: "prims_safe P"
  shows "t_wf t \<Longrightarrow> \<not> t_closing t \<Longrightarrow> \<forall>p\<in>set ps. length p \<le> payload_max \<Longrightarrow> write_packets P ps t = (r, s) \<Longrightarrow>
    (let n = min (length ps) (2 ^ 31 - unat (t_tx_packets_since_rekey t)) in
      r = Ok () \<and> unat (t_tx_packets_since_rekey s) = unat (t_tx_packets_since_rekey t) + n \<and>
      t_tx_seq s = t_tx_seq t + of_nat n \<and>
      (t_closing s \<longleftrightarrow> unat (t_tx_packets_since_rekey t) + length ps \<ge> 2 ^ 31))"
proof (induction ps arbitrary: t)
  case Nil
  then have "unat (t_tx_packets_since_rekey t) < 2 ^ 31"
    by (simp add: t_wf_def EPOCH_HARD_PACKETS_def word_less_nat_alt)
  with Nil show ?case by simp
next
  case (Cons p ps)
  obtain r1 t1 where w: "write_packet P p t = (r1, t1)" by fastforce
  have len: "length p \<le> payload_max" using Cons.prems(3) by simp
  note c = write_packet_counts [OF P Cons.prems(1,2) len w]
  have wf: "t_wf t1" using t_wf_write_packet [OF P Cons.prems(1) len] w by (simp add: holds_def)
  have small: "unat (t_tx_packets_since_rekey t) < 2 ^ 31"
    using Cons.prems(1,2) by (simp add: t_wf_def EPOCH_HARD_PACKETS_def word_less_nat_alt)
  show ?case
  proof (cases "t_closing t1")
    case True
    then have one: "2 ^ 31 - unat (t_tx_packets_since_rekey t) = 1" using c(4) small by linarith
    have "(r, s) = (Ok (), t1)" using Cons.prems(4) w c(1) write_packets_closed [OF True, of P ps] by simp
    then show ?thesis using c True unfolding one by (simp add: Let_def)
  next
    case False
    have "write_packets P ps t1 = (r, s)" using Cons.prems(4) w c(1) by simp
    note ih = Cons.IH [OF wf False _ this]
    define k where "k = unat (t_tx_packets_since_rekey t)"
    have n: "min (length (p # ps)) (2 ^ 31 - k) = Suc (min (length ps) (2 ^ 31 - (k + 1)))"
      using small unfolding k_def [symmetric] by (auto simp: min_def)
    show ?thesis
      using ih Cons.prems(3) unfolding k_def [symmetric] n c(2,3) Let_def by (simp add: add.assoc)
  qed
qed

section \<open>Properties\<close>

text \<open>A concrete established transport for the witnesses: an encrypted server between exchanges.\<close>

definition sample_established :: "(nat, nat) transport" where
  "sample_established = (transport_init Server 0 (Some \<lparr>hk_signing = replicate 32 1\<rparr>) None None)
     \<lparr>t_phase := PhaseEstablished, t_initial_kex_done := True, t_peer_id := Some (str ''SSH-2.0-x''),
      t_session_id := Some (replicate 32 7), t_tx := [], t_kexinit_sent := False, t_strict_kex := True,
      t_cipher_out := ChaCha20Poly1305 (replicate 32 1) (replicate 32 2),
      t_cipher_in := ChaCha20Poly1305 (replicate 32 3) (replicate 32 4)\<rparr>"

lemma sample_established_wf: "t_wf sample_established"
  by (simp add: sample_established_def transport_init_def t_wf_def offers_ok_def EPOCH_HARD_PACKETS_def)



text \<open>The session id never changes. Once the first key exchange has fixed it, no later call (re-keys
  included) and no byte from the peer replaces it.\<close>

theorem session_id_fixed:
  assumes "t_session_id t = Some sid" and "(api_step P)\<^sup>*\<^sup>* t t'"
  shows "t_session_id t' = Some sid"
proof -
  from assms(2) have "has_session sid t'"
    by (induction rule: rtranclp_induct) (use assms(1) session.keep_api_step in \<open>auto simp: has_session_def\<close>)
  then show ?thesis by (simp add: has_session_def)
qed

theorem session_id_fixed_witness:
  "t_session_id (snd (on_input sample_prims [20, 1] sample_established)) = Some (replicate 32 7)"
proof (rule session_id_fixed)
  show "t_session_id sample_established = Some (replicate 32 7)" by (simp add: sample_established_def)
  show "(api_step sample_prims)\<^sup>*\<^sup>* sample_established (snd (on_input sample_prims [20, 1] sample_established))"
    by (rule r_into_rtranclp) (rule api_step.step_input)
qed

text \<open>C9: Silence after a disconnect. Once the transport has decided to close, input is ignored without being
  buffered, and through any further calls it stays closing and its output buffer is never extended:
  it can only be drained.\<close>

theorem closing_is_final:
  assumes "t_closing t"
  shows "on_input P data t = (Ok (), t) \<and>
    ((api_step P)\<^sup>*\<^sup>* t t' \<longrightarrow> t_closing t' \<and> (t_tx t' = t_tx t \<or> t_tx t' = []))"
proof (intro conjI impI)
  show "on_input P data t = (Ok (), t)" using assms by (simp add: on_input_def)
  assume "(api_step P)\<^sup>*\<^sup>* t t'"
  then have "closed_with (t_tx t) t'"
    by (induction rule: rtranclp_induct) (use assms closed.keep_api_step in \<open>auto simp: closed_with_def\<close>)
  then show "t_closing t'" "t_tx t' = t_tx t \<or> t_tx t' = []" by (simp_all add: closed_with_def)
qed

theorem closing_is_final_witness:
  "on_input sample_prims [1] (sample_established\<lparr>t_closing := True\<rparr>) = (Ok (), sample_established\<lparr>t_closing := True\<rparr>)"
  using closing_is_final [of "sample_established\<lparr>t_closing := True\<rparr>" sample_prims "[1]"] by simp



end
