(* ===== verification/Transport_Kex.thy ===== *)
theory Transport_Kex
  imports Transport_Security
begin

text \<open>
  The key exchange between a client and a server transport: whatever the server computes from the
  client's announcement, the client that opens the server's reply verifies it, arrives at the same
  session id and at the mirror image of the server's ciphers.
\<close>

section \<open>What one side stages\<close>

lemma finish_kex_result:
  fixes h :: bytes and t :: "('r, 'z) transport"
  assumes P: "sizes_ok P" and n: "t_negotiated t = Some n" and c: "is_ok (cipher_key_len (n_cipher_c2s n))"
  defines "sid \<equiv> (case t_session_id t of Some s \<Rightarrow> s | None \<Rightarrow> h)"
  obtains kl il ks c2s s2c where "cipher_key_len (n_cipher_c2s n) = Ok kl" "cipher_iv_len (n_cipher_c2s n) = Ok il"
    and "keys_derive P k h sid kl il hash = Ok ks"
    and "cipher_new (n_cipher_c2s n) (enc_c2s ks) (iv_c2s ks) = Ok c2s"
    and "cipher_new (n_cipher_c2s n) (enc_s2c ks) (iv_s2c ks) = Ok s2c"
    and "finish_kex P h k hash t = (Ok (), t\<lparr>t_session_id := Some sid,
       t_pending := Some (case t_role t of Client \<Rightarrow> \<lparr>pk_out = c2s, pk_inn = s2c\<rparr>
                          | Server \<Rightarrow> \<lparr>pk_out = s2c, pk_inn = c2s\<rparr>),
       t_comp_out_name := (case t_role t of Client \<Rightarrow> n_comp_c2s n | Server \<Rightarrow> n_comp_s2c n),
       t_comp_in_name := (case t_role t of Client \<Rightarrow> n_comp_s2c n | Server \<Rightarrow> n_comp_c2s n)\<rparr>)"
proof -
  obtain kl il where l: "cipher_key_len (n_cipher_c2s n) = Ok kl" "cipher_iv_len (n_cipher_c2s n) = Ok il"
    using c by (auto simp: cipher_key_len_def cipher_iv_len_def split: if_splits)
  obtain ks where k: "keys_derive P k h sid kl il hash = Ok ks" "length (enc_c2s ks) = kl"
    "length (enc_s2c ks) = kl" "length (iv_c2s ks) = il" "length (iv_s2c ks) = il"
    by (rule keys_derive_Ok [OF P])
  obtain c2s s2c where cs: "cipher_new (n_cipher_c2s n) (enc_c2s ks) (iv_c2s ks) = Ok c2s"
    "cipher_new (n_cipher_c2s n) (enc_s2c ks) (iv_s2c ks) = Ok s2c"
    using cipher_new_Ok [OF l k(2,4)] cipher_new_Ok [OF l k(3,5)] by blast
  show thesis
    by (rule that [OF l k(1) cs])
      (use n l k(1) cs in \<open>simp add: finish_kex_def Let_def sid_def split: role.splits\<close>)
qed

lemma send_newkeys_fields:
  assumes "\<not> t_recv_newkeys t" and "t_pending t = Some p" and "send_newkeys P t = (Ok (), s)"
  shows "t_cipher_out s = pk_out p" and "t_pending s = Some (p\<lparr>pk_out := CNone\<rparr>)"
    and "t_session_id s = t_session_id t" and "t_events s = t_events t" and "t_sent_newkeys s"
    and "\<exists>bs. t_tx s = t_tx t @ bs" and "t_strict_kex t \<longrightarrow> t_tx_seq s = 0"
proof -
  obtain r u where w: "write_packet P [msg_NEWKEYS] t = (r, u)" by fastforce
  with assms(3) have r: "r = Ok ()" by (cases r) (auto simp: send_newkeys_def)
  have f: "wframe t u" by (rule write_packet_wframe [OF w])
  have tx: "\<exists>bs. t_tx u = t_tx t @ bs" using frame_writes [of t P "[msg_NEWKEYS]"] w by (simp add: keeps_def tframe_def)
  from assms(1,2) f have "send_newkeys P t =
      (Ok (), let v = u\<lparr>t_cipher_out := pk_out p, t_pending := Some (p\<lparr>pk_out := CNone\<rparr>)\<rparr>;
          v = (if t_comp_active u then v\<lparr>t_comp_out := compressor_new P (t_comp_out_name u)\<rparr> else v);
          v = (if t_strict_kex t then v\<lparr>t_tx_seq := 0\<rparr> else v)
        in v\<lparr>t_sent_newkeys := True\<rparr>)"
    by (simp add: send_newkeys_def w r wframe_def maybe_complete_kex_def Let_def)
  with assms(3) have s: "s = (let v = u\<lparr>t_cipher_out := pk_out p, t_pending := Some (p\<lparr>pk_out := CNone\<rparr>)\<rparr>;
          v = (if t_comp_active u then v\<lparr>t_comp_out := compressor_new P (t_comp_out_name u)\<rparr> else v);
          v = (if t_strict_kex t then v\<lparr>t_tx_seq := 0\<rparr> else v)
        in v\<lparr>t_sent_newkeys := True\<rparr>)" by simp
  show "t_cipher_out s = pk_out p" "t_pending s = Some (p\<lparr>pk_out := CNone\<rparr>)"
    "t_session_id s = t_session_id t" "t_events s = t_events t" "t_sent_newkeys s"
    "\<exists>bs. t_tx s = t_tx t @ bs" "t_strict_kex t \<longrightarrow> t_tx_seq s = 0"
    using f tx unfolding s by (simp_all add: wframe_def Let_def)
qed

section \<open>The two handlers on matching states\<close>

text \<open>The announcement the client sends and the reply the server answers with.\<close>

definition ecdh_init_payload :: "bytes \<Rightarrow> bytes" where
  "ecdh_init_payload blob = w_string (w_u8 writer_new msg_KEX_ECDH_INIT) blob"

definition ecdh_reply_payload :: "('r, 'z) prims \<Rightarrow> host_key \<Rightarrow> bytes \<Rightarrow> bytes \<Rightarrow> bytes" where
  "ecdh_reply_payload P hk q_s h =
     w_string (w_string (w_string (w_u8 writer_new msg_KEX_ECDH_REPLY) (host_public_blob P hk)) q_s)
       (sign_exchange_hash P hk h)"

lemma on_ecdh_init_steps:
  assumes len: "length blob < 2 ^ 32" and t: "\<not> t_skip_guess t" "t_host_key t = Some hk"
    and kind: "kind = transport_kex_kind P t"
    and res: "server_respond P kind (t_rng t) blob = (Ok (q_s, shared), r')"
    and h: "compute_exchange_hash P blob q_s (host_public_blob P hk) (kind_shared_secret kind shared)
      (kind_hash kind) (t\<lparr>t_rng := r'\<rparr>) = Ok h"
  shows "on_ecdh_init P (ecdh_init_payload blob) t =
    andThen (write_packet P (ecdh_reply_payload P hk q_s h) (t\<lparr>t_rng := r'\<rparr>)) (\<lambda>_ t.
      andThen (finish_kex P h (kind_shared_secret kind shared) (kind_hash kind) t) (\<lambda>_ t. send_newkeys P t))"
proof -
  have "r_u8 (rd [] (msg_KEX_ECDH_INIT # string_enc blob)) = Ok (msg_KEX_ECDH_INIT, rd [msg_KEX_ECDH_INIT] (string_enc blob))"
    using r_u8_rd [of "[]" msg_KEX_ECDH_INIT "string_enc blob"] by simp
  moreover have "r_string (rd [msg_KEX_ECDH_INIT] (string_enc blob)) = Ok (blob, rd (msg_KEX_ECDH_INIT # string_enc blob) [])"
    using r_string_rd [of blob "[msg_KEX_ECDH_INIT]" "[]"] len by (simp add: fits32_def)
  ultimately show ?thesis
    using t res h
    by (simp add: on_ecdh_init_def ecdh_init_payload_def writer_simps kind [symmetric] Let_def
        ecdh_reply_payload_def)
qed

lemma reply_read:
  assumes "length a < 2 ^ 32" "length b < 2 ^ 32" "length c < 2 ^ 32"
  defines "m \<equiv> msg_KEX_ECDH_REPLY # string_enc a @ string_enc b @ string_enc c"
  obtains r1 r2 r3 r4 where "r_u8 (rd [] m) = Ok (msg_KEX_ECDH_REPLY, r1)" "r_string r1 = Ok (a, r2)"
    "r_string r2 = Ok (b, r3)" "r_string r3 = Ok (c, r4)"
proof
  let ?h = "[msg_KEX_ECDH_REPLY]"
  show "r_u8 (rd [] m) = Ok (msg_KEX_ECDH_REPLY, rd ?h (string_enc a @ string_enc b @ string_enc c))"
    unfolding m_def using r_u8_rd [of "[]" msg_KEX_ECDH_REPLY "string_enc a @ string_enc b @ string_enc c"] by simp
  show "r_string (rd ?h (string_enc a @ string_enc b @ string_enc c)) = Ok (a, rd (?h @ string_enc a) (string_enc b @ string_enc c))"
    by (rule r_string_rd) (use assms in \<open>simp_all add: fits32_def\<close>)
  show "r_string (rd (?h @ string_enc a) (string_enc b @ string_enc c)) = Ok (b, rd ((?h @ string_enc a) @ string_enc b) (string_enc c))"
    by (rule r_string_rd) (use assms in \<open>simp_all add: fits32_def\<close>)
  show "r_string (rd ((?h @ string_enc a) @ string_enc b) (string_enc c)) = Ok (c, rd (((?h @ string_enc a) @ string_enc b) @ string_enc c) [])"
    using r_string_rd [of c "(?h @ string_enc a) @ string_enc b" "[]"] assms by (simp add: fits32_def)
qed

lemma on_ecdh_reply_steps:
  assumes P: "sizes_ok P" "ed25519_correct P" and len: "length q_s < 2 ^ 32" and t: "\<not> t_skip_guess t" "t_kex_eph t = Some eph"
    and ag: "client_agree P eph q_s = Ok (blob, shared, kind)"
    and h: "compute_exchange_hash P blob q_s (host_public_blob P hk) (kind_shared_secret kind shared)
      (kind_hash kind) (t\<lparr>t_kex_eph := None\<rparr>) = Ok h"
  shows "on_ecdh_reply P (ecdh_reply_payload P hk q_s h) t =
    andThen (finish_kex P h (kind_shared_secret kind shared) (kind_hash kind)
        (t\<lparr>t_kex_eph := None, t_events := t_events t @ [ServerHostKey (host_public P hk)]\<rparr>))
      (\<lambda>_ t. send_newkeys P t)"
proof -
  let ?blob = "host_public_blob P hk" and ?sig = "sign_exchange_hash P hk h"
  have l: "length ?blob < 2 ^ 32" "length ?sig < 2 ^ 32"
    using P(1) by (simp_all add: host_public_blob_def length_vk_blob sizes length_signature)
  obtain r1 r2 r3 r4 where rd: "r_u8 (rd [] (msg_KEX_ECDH_REPLY # string_enc ?blob @ string_enc q_s @ string_enc ?sig)) = Ok (msg_KEX_ECDH_REPLY, r1)"
    "r_string r1 = Ok (?blob, r2)" "r_string r2 = Ok (q_s, r3)" "r_string r3 = Ok (?sig, r4)"
    by (rule reply_read [OF l(1) len l(2)])
  have p: "host_parse_blob P ?blob = Ok (host_public P hk)"
    using host_parse_blob_own [of "ed25519_public P (hk_signing hk)" P] P
    by (simp add: host_public_blob_def host_public_def sizes ed25519_correct_def)
  show ?thesis
    unfolding on_ecdh_reply_def ecdh_reply_payload_def
    using t ag h rd p host_verify_own [OF P, of hk h]
    by (simp add: writer_simps Let_def)
qed

section \<open>Agreement\<close>

lemma write_packet_Ok:
  assumes "prims_safe P" and "length p \<le> payload_max"
  obtains s where "write_packet P p t = (Ok (), s)" and "wframe t s"
proof (cases "t_closing t")
  case True
  then show thesis using that [of t] by (simp add: write_packet_def)
next
  case False
  then show thesis
    by (rule write_packet_writes [OF assms(1) _ assms(2)]) (use that write_packet_wframe in blast)
qed

lemma maybe_complete_kex_idle: "\<not> t_recv_newkeys t \<Longrightarrow> maybe_complete_kex P t = (Ok (), t)"
  by (simp add: maybe_complete_kex_def)

lemma send_newkeys_Ok:
  assumes "prims_safe P" and "\<not> t_recv_newkeys t"
  obtains s where "send_newkeys P t = (Ok (), s)"
proof -
  obtain u where u: "write_packet P [msg_NEWKEYS] t = (Ok (), u)" "wframe t u"
    by (rule write_packet_Ok [OF assms(1), of "[msg_NEWKEYS]" t]) (simp_all add: payload_max_def)
  have "\<not> t_recv_newkeys u" using u(2) assms(2) by (simp add: wframe_def)
  then have "\<exists>s. send_newkeys P t = (Ok (), s)"
    by (cases "t_pending u") (simp_all add: send_newkeys_def u(1) Let_def maybe_complete_kex_idle)
  then show thesis using that by blast
qed

lemma client_agrees:
  assumes P: "prims_correct P" and g: "generate_ephemeral P kind r = (eph, blob, r')"
    and s: "server_respond P kind q blob = (Ok (q_s, k), q')"
  shows "client_agree P eph q_s = Ok (blob, k, kind)"
proof (cases kind)
  case KexClassical
  with g obtain kp where kp: "ecdh_generate P r = (kp, r')" "eph = EphClassical kp" "blob = kp_public kp"
    by (auto simp: generate_ephemeral_def split: prod.splits)
  have "ecdh_agree P kp q_s = Ok k"
    using classical.agreement [OF P kp(1)] s KexClassical kp(3) by (simp add: server_respond_def)
  then show ?thesis using kp KexClassical by (simp add: client_agree_def)
next
  case KexMlKem
  with g obtain hc where hc: "mlkem_generate P r = (hc, r')" "eph = EphMlKem hc" "blob = hc_init hc"
    by (auto simp: generate_ephemeral_def split: prod.splits)
  have "mlkem_agree P hc q_s = Ok k"
    using mlkem.agreement [OF P hc(1)] s KexMlKem hc(3) by (simp add: server_respond_def)
  then show ?thesis using hc KexMlKem by (simp add: client_agree_def)
next
  case KexSnTrup
  with g obtain hc where hc: "sntrup_generate P r = (hc, r')" "eph = EphSnTrup hc" "blob = hc_init hc"
    by (auto simp: generate_ephemeral_def split: prod.splits)
  have "sntrup_agree P hc q_s = Ok k"
    using sntrup.agreement [OF P hc(1)] s KexSnTrup hc(3) by (simp add: server_respond_def)
  then show ?thesis using hc KexSnTrup by (simp add: client_agree_def)
qed

text \<open>A client and a server that saw each other's identification and KEXINIT and negotiated alike.\<close>

definition paired :: "('r, 'z) transport \<Rightarrow> ('r, 'z) transport \<Rightarrow> bool" where
  "paired c s \<longleftrightarrow>
     t_role c = Client \<and> t_role s = Server \<and>
     t_peer_id c = Some (t_local_id s) \<and> t_peer_id s = Some (t_local_id c) \<and>
     map_option ki_payload (t_peer_kexinit c) = Some (t_local_kexinit s) \<and>
     map_option ki_payload (t_peer_kexinit s) = Some (t_local_kexinit c) \<and>
     t_negotiated c = t_negotiated s \<and> t_session_id c = t_session_id s \<and>
     \<not> t_skip_guess c \<and> \<not> t_skip_guess s \<and> \<not> t_recv_newkeys c \<and> \<not> t_recv_newkeys s"

lemma paired_hash:
  assumes "paired c s"
  shows "\<exists>h. compute_exchange_hash P q_c q_s b k hash (c\<lparr>t_kex_eph := e\<rparr>) = Ok h \<and>
    compute_exchange_hash P q_c q_s b k hash (s\<lparr>t_rng := r\<rparr>) = Ok h"
  using assms by (auto simp: paired_def compute_exchange_hash_def)

lemma seal_frame_length:
  assumes P: "sizes_ok P" and f: "seal_into P c q p r [] = Ok (c', r', f)"
  shows "length f \<le> length p + 64"
proof (cases c)
  case CNone
  then show ?thesis using f padding_len_byte [of "length p"] by (auto simp: seal_into_def length_encode_plain_into)
next
  case (ChaCha20Poly1305 k2 k1)
  then show ?thesis
    using f aead_padding_spec(3) [of 8 "length p"] length_random_padding [OF P] sizes(5) [OF P]
    by (auto simp: seal_into_def chacha_seal_into_def Let_def split_def CHACHA_BLOCK_def payload_cipher_def
        poly1305_tag_def)
next
  case (Aes256Gcm key iv)
  then show ?thesis
    using f aead_padding_spec(3) [of 16 "length p"] length_random_padding [OF P]
    by (auto simp: seal_into_def gcm_seal_into_def Let_def split_def GCM_BLOCK_def split: option.splits
        dest!: sizes(6) [OF P])
qed

text \<open>What a peer reads back from one packet written under no compression.\<close>

lemma write_packet_readable:
  assumes P: "prims_correct P" "prims_safe P" and t: "\<not> t_closing t" "t_comp_out t = CompNone"
    and n: "length p + 64 \<le> MAX_PACKET_LENGTH" and w: "write_packet P p t = (r, s)"
  obtains f where "r = Ok ()" and "t_tx s = t_tx t @ f"
    and "\<And>rest. cipher_open P (t_cipher_out t) (t_tx_seq t) (f @ rest) = (Ok (Some (p, length f)), t_cipher_out s)"
    and "length f \<le> length p + 64"
proof -
  have len: "length p \<le> payload_max" using n by (simp add: payload_max_def MAX_PACKET_LENGTH_def)
  obtain body co c' r' out where b: "write_body P p t = Ok (body, co)"
    and sl: "seal_into P (t_cipher_out t) (t_tx_seq t) body (t_rng t) (t_tx t) = Ok (c', r', out)"
    and ws: "write_packet P p t = (Ok (), after_seal P p (t\<lparr>t_comp_out := co, t_cipher_out := c', t_rng := r', t_tx := out\<rparr>))"
    by (rule write_packet_writes [OF P(2) t(1) len])
  have body: "body = p" using b t(2) by (simp add: write_body_def)
  obtain f where f: "seal_into P (t_cipher_out t) (t_tx_seq t) p (t_rng t) [] = Ok (c', r', f)" "out = t_tx t @ f"
    using sl unfolding body seal_into_append [of P "t_cipher_out t" "t_tx_seq t" p "t_rng t" "t_tx t"]
    by (auto simp: rbind_Ok_iff)
  have s: "t_tx s = out" "t_cipher_out s = c'" "r = Ok ()"
    using ws w by (auto simp: after_seal_def Let_def activate_compression_def)
  show thesis
    by (rule that [of f]) (use s f cipher_open_seal [OF P(1) sealable_le [OF n] f(1)]
        seal_frame_length [OF prims_safe_laws(1) [OF P(2)] f(1)] in simp_all)
qed

text \<open>The two ciphers (client to server, server to client) a secret and a transcript determine.\<close>

definition session_ciphers ::
    "('r, 'z) prims \<Rightarrow> bytes \<Rightarrow> shared_secret \<Rightarrow> bytes \<Rightarrow> bytes \<Rightarrow> kex_hash \<Rightarrow> (cipher \<times> cipher) result" where
  "session_ciphers P name k h sid hash =
     rbind (cipher_key_len name) (\<lambda>kl. rbind (cipher_iv_len name) (\<lambda>il.
     rbind (keys_derive P k h sid kl il hash) (\<lambda>ks.
     rbind (cipher_new name (enc_c2s ks) (iv_c2s ks)) (\<lambda>c2s.
     rbind (cipher_new name (enc_s2c ks) (iv_s2c ks)) (\<lambda>s2c. Ok (c2s, s2c))))))"

lemma finish_and_send_newkeys:
  assumes P: "prims_safe P" and n: "t_negotiated t = Some n" "is_ok (cipher_key_len (n_cipher_c2s n))"
    and rn: "\<not> t_recv_newkeys t" and sid: "sid = (case t_session_id t of Some s \<Rightarrow> s | None \<Rightarrow> h)"
  shows "\<exists>s c2s s2c. session_ciphers P (n_cipher_c2s n) k h sid hash = Ok (c2s, s2c) \<and>
    andThen (finish_kex P h k hash t) (\<lambda>_ t. send_newkeys P t) = (Ok (), s) \<and>
    t_session_id s = Some sid \<and> t_events s = t_events t \<and> (\<exists>g. t_tx s = t_tx t @ g) \<and>
    t_cipher_out s = (case t_role t of Client \<Rightarrow> c2s | Server \<Rightarrow> s2c) \<and>
    map_option pk_inn (t_pending s) = Some (case t_role t of Client \<Rightarrow> s2c | Server \<Rightarrow> c2s) \<and>
    c2s \<noteq> CNone \<and> s2c \<noteq> CNone"
proof -
  obtain kl il ks c2s s2c where r: "cipher_key_len (n_cipher_c2s n) = Ok kl" "cipher_iv_len (n_cipher_c2s n) = Ok il"
    "keys_derive P k h sid kl il hash = Ok ks"
    "cipher_new (n_cipher_c2s n) (enc_c2s ks) (iv_c2s ks) = Ok c2s"
    "cipher_new (n_cipher_c2s n) (enc_s2c ks) (iv_s2c ks) = Ok s2c"
    and f: "finish_kex P h k hash t = (Ok (), t\<lparr>t_session_id := Some sid,
       t_pending := Some (case t_role t of Client \<Rightarrow> \<lparr>pk_out = c2s, pk_inn = s2c\<rparr>
                          | Server \<Rightarrow> \<lparr>pk_out = s2c, pk_inn = c2s\<rparr>),
       t_comp_out_name := (case t_role t of Client \<Rightarrow> n_comp_c2s n | Server \<Rightarrow> n_comp_s2c n),
       t_comp_in_name := (case t_role t of Client \<Rightarrow> n_comp_s2c n | Server \<Rightarrow> n_comp_c2s n)\<rparr>)"
    (is "_ = (_, ?u)")
    unfolding sid by (rule finish_kex_result [OF prims_safe_laws(1) [OF P] n])
  have ne: "c2s \<noteq> CNone" "s2c \<noteq> CNone" using cipher_new_wf [OF r(4)] cipher_new_wf [OF r(5)] by simp_all
  obtain s where s: "send_newkeys P ?u = (Ok (), s)"
    by (rule send_newkeys_Ok [OF P, of ?u]) (use rn in simp_all)
  note fs = send_newkeys_fields [OF _ _ s, simplified, OF rn refl]
  show ?thesis
    by (intro exI [of _ s] exI [of _ c2s] exI [of _ s2c])
      (use r f s fs ne in \<open>simp add: session_ciphers_def split: role.splits\<close>)
qed

section \<open>Properties\<close>

text \<open>C2: The handshake agrees. Take a client that announced an ephemeral and a server that negotiated the
  same algorithms over the same identification strings and KEXINITs, for any of the three methods. If
  the server's side of the exchange succeeds, then the packet the server queues first, opened by
  the client, verifies there; both arrive at the same session id, each side's staged inbound cipher is
  the other's new outbound cipher, neither is the null cipher, and the client reports the server's own
  host key.\<close>

theorem handshake_agreement:
  assumes P: "prims_correct P" "prims_safe P" and pr: "paired c s"
    and n: "t_negotiated s = Some n" "is_ok (cipher_key_len (n_cipher_c2s n))"
    and hk: "t_host_key s = Some hk" and st: "\<not> t_closing s" "t_comp_out s = CompNone"
    and g: "generate_ephemeral P (kex_kind_of P (n_kex n)) r = (eph, blob, r')" "t_kex_eph c = Some eph"
    and res: "server_respond P (kex_kind_of P (n_kex n)) (t_rng s) blob = (Ok (q_s, shared), r2)"
  shows "\<exists>s' f g reply cf c'. on_ecdh_init P (ecdh_init_payload blob) s = (Ok (), s') \<and>
    t_tx s' = t_tx s @ f @ g \<and>
    cipher_open P (t_cipher_out s) (t_tx_seq s) (f @ g) = (Ok (Some (reply, length f)), cf) \<and>
    on_ecdh_reply P reply c = (Ok (), c') \<and>
    t_session_id c' = t_session_id s' \<and> t_session_id c' \<noteq> None \<and>
    map_option pk_inn (t_pending c') = Some (t_cipher_out s') \<and>
    map_option pk_inn (t_pending s') = Some (t_cipher_out c') \<and>
    t_cipher_out c' \<noteq> CNone \<and> t_cipher_out s' \<noteq> CNone \<and>
    t_events c' = t_events c @ [ServerHostKey (host_public P hk)]"
proof -
  let ?kind = "kex_kind_of P (n_kex n)" and ?hash = "kind_hash (kex_kind_of P (n_kex n))"
  let ?k = "kind_shared_secret ?kind shared" and ?b = "host_public_blob P hk"
  note sz = prims_correct_laws(1) [OF P(1)]
  have pc: "t_role c = Client" "t_role s = Server" "t_negotiated c = Some n" "t_session_id c = t_session_id s"
    "\<not> t_skip_guess c" "\<not> t_skip_guess s" "\<not> t_recv_newkeys c" "\<not> t_recv_newkeys s"
    using pr n(1) by (simp_all add: paired_def)
  obtain h where h: "compute_exchange_hash P blob q_s ?b ?k ?hash (c\<lparr>t_kex_eph := None\<rparr>) = Ok h"
    "compute_exchange_hash P blob q_s ?b ?k ?hash (s\<lparr>t_rng := r2\<rparr>) = Ok h"
    using paired_hash [OF pr] by blast
  define sid where "sid = (case t_session_id s of Some x \<Rightarrow> x | None \<Rightarrow> h)"
  have lq: "length q_s \<le> 2048" by (rule server_respond_length [OF sz res])
  have lb: "length blob \<le> 2048" by (rule ephemeral_length [OF sz g(1)])
  let ?reply = "ecdh_reply_payload P hk q_s h"
  have lr: "length ?reply + 64 \<le> MAX_PACKET_LENGTH"
    using lq sz by (simp add: ecdh_reply_payload_def writer_simps host_public_blob_def length_vk_blob sizes
        length_signature MAX_PACKET_LENGTH_def)
  have ss: "on_ecdh_init P (ecdh_init_payload blob) s =
    andThen (write_packet P ?reply (s\<lparr>t_rng := r2\<rparr>)) (\<lambda>_ t.
      andThen (finish_kex P h ?k ?hash t) (\<lambda>_ t. send_newkeys P t))"
    by (rule on_ecdh_init_steps [OF _ pc(6) hk _ res h(2)]) (use lb n(1) in \<open>simp_all add: transport_kex_kind_def\<close>)
  obtain w u where w: "write_packet P ?reply (s\<lparr>t_rng := r2\<rparr>) = (w, u)" by fastforce
  obtain f where f: "w = Ok ()" "t_tx u = t_tx s @ f"
    "\<And>rest. cipher_open P (t_cipher_out s) (t_tx_seq s) (f @ rest) = (Ok (Some (?reply, length f)), t_cipher_out u)"
    by (rule write_packet_readable [OF P _ _ lr w]) (use st that in simp_all)
  have wu: "t_role u = Server" "t_negotiated u = Some n" "t_session_id u = t_session_id s" "\<not> t_recv_newkeys u"
    using write_packet_wframe [OF w] pc n(1) by (simp_all add: wframe_def)
  have usid: "sid = (case t_session_id u of Some x \<Rightarrow> x | None \<Rightarrow> h)" by (simp add: wu(3) sid_def)
  obtain s' c2s s2c where s': "session_ciphers P (n_cipher_c2s n) ?k h sid ?hash = Ok (c2s, s2c)"
    "andThen (finish_kex P h ?k ?hash u) (\<lambda>_ t. send_newkeys P t) = (Ok (), s')"
    "t_session_id s' = Some sid" "\<exists>g. t_tx s' = t_tx u @ g" "t_cipher_out s' = s2c"
    "map_option pk_inn (t_pending s') = Some c2s" "c2s \<noteq> CNone" "s2c \<noteq> CNone"
    using finish_and_send_newkeys [OF P(2) wu(2) n(2) wu(4) usid, of ?k ?hash] wu(1) by auto
  have cs: "on_ecdh_reply P ?reply c =
    andThen (finish_kex P h ?k ?hash (c\<lparr>t_kex_eph := None, t_events := t_events c @ [ServerHostKey (host_public P hk)]\<rparr>))
      (\<lambda>_ t. send_newkeys P t)"
    by (rule on_ecdh_reply_steps [OF sz prims_correct_laws(4) [OF P(1)] _ pc(5) g(2) client_agrees [OF P(1) g(1) res] h(1)])
      (use lq in simp)
  let ?c = "c\<lparr>t_kex_eph := None, t_events := t_events c @ [ServerHostKey (host_public P hk)]\<rparr>"
  have csid: "sid = (case t_session_id ?c of Some x \<Rightarrow> x | None \<Rightarrow> h)" using pc(4) by (simp add: sid_def)
  obtain c' where c': "on_ecdh_reply P ?reply c = (Ok (), c')" "t_session_id c' = Some sid"
    "t_events c' = t_events c @ [ServerHostKey (host_public P hk)]" "t_cipher_out c' = c2s"
    "map_option pk_inn (t_pending c') = Some s2c"
    using finish_and_send_newkeys [OF P(2) _ n(2) _ csid, of ?k ?hash] pc(1,3,7) s'(1) unfolding cs by auto
  from s'(4) obtain g' where "t_tx s' = t_tx s @ f @ g'" using f(2) by auto
  moreover have "on_ecdh_init P (ecdh_init_payload blob) s = (Ok (), s')" using ss w f(1) s'(2) by simp
  ultimately show ?thesis
    by (intro exI [of _ s'] exI [of _ f] exI [of _ g'] exI [of _ ?reply] exI [of _ "t_cipher_out u"] exI [of _ c'])
      (simp add: f(3) s' c' del: map_option_eq_Some)
qed

definition sample_negotiated :: negotiated where
  "sample_negotiated = \<lparr>n_kex = KEX_MLKEM768_X25519, n_host_key = HOSTKEY_ED25519,
     n_cipher_c2s = CIPHER_CHACHA20_POLY1305, n_cipher_s2c = CIPHER_CHACHA20_POLY1305,
     n_comp_c2s = COMPRESSION_NONE, n_comp_s2c = COMPRESSION_NONE\<rparr>"

definition sample_client :: "(nat, nat) transport" where
  "sample_client = (transport_init Client 0 None None None)
     \<lparr>t_phase := Handshake, t_peer_id := Some LOCAL_ID,
      t_local_kexinit := ki_payload (ours_with True (replicate 16 1) False CIPHERS COMPRESSIONS),
      t_peer_kexinit := Some (ours_with True (replicate 16 2) True CIPHERS COMPRESSIONS),
      t_negotiated := Some sample_negotiated,
      t_kex_eph := Some (fst (generate_ephemeral sample_prims KexMlKem 7))\<rparr>"

definition sample_server :: "(nat, nat) transport" where
  "sample_server = (transport_init Server 5 (Some \<lparr>hk_signing = replicate 32 1\<rparr>) None None)
     \<lparr>t_phase := Handshake, t_peer_id := Some LOCAL_ID,
      t_local_kexinit := ki_payload (ours_with True (replicate 16 2) True CIPHERS COMPRESSIONS),
      t_peer_kexinit := Some (ours_with True (replicate 16 1) False CIPHERS COMPRESSIONS),
      t_negotiated := Some sample_negotiated\<rparr>"

theorem handshake_agreement_witness:
  "\<exists>s' reply c'. on_ecdh_init sample_prims
       (ecdh_init_payload (hc_init (fst (mlkem_generate sample_prims 7)))) sample_server = (Ok (), s') \<and>
     on_ecdh_reply sample_prims reply sample_client = (Ok (), c') \<and>
     t_session_id c' = t_session_id s' \<and> map_option pk_inn (t_pending c') = Some (t_cipher_out s')"
proof -
  let ?kind = "kex_kind_of sample_prims (n_kex sample_negotiated)"
  have kind: "?kind = KexMlKem" by code_simp
  have g: "generate_ephemeral sample_prims ?kind 7 = (EphMlKem (fst (mlkem_generate sample_prims 7)),
      hc_init (fst (mlkem_generate sample_prims 7)), snd (mlkem_generate sample_prims 7))"
    by (simp add: kind generate_ephemeral_def Let_def split_def)
  have "\<exists>q k s'. mlkem_server_respond sample_prims 5 (hc_init (fst (mlkem_generate sample_prims 7))) = (Ok (q, k), s')"
    by (simp add: mlkem_server_respond_def mlkem_generate_def ecdh_generate_def ecdh_agree_def
        sample_prims_def kex_lens Let_def)
  then obtain q k s' where r: "server_respond sample_prims ?kind (t_rng sample_server)
      (hc_init (fst (mlkem_generate sample_prims 7))) = (Ok (q, k), s')"
    by (auto simp: kind sample_server_def transport_init_def server_respond_def)
  have "paired sample_client sample_server"
    by (simp add: paired_def sample_client_def sample_server_def transport_init_def)
  moreover have "t_negotiated sample_server = Some sample_negotiated"
    "t_host_key sample_server = Some \<lparr>hk_signing = replicate 32 1\<rparr>" "\<not> t_closing sample_server"
    "t_comp_out sample_server = CompNone"
    by (simp_all add: sample_server_def transport_init_def)
  moreover have "is_ok (cipher_key_len (n_cipher_c2s sample_negotiated))"
    by (simp add: sample_negotiated_def cipher_key_len_def)
  moreover have "t_kex_eph sample_client = Some (EphMlKem (fst (mlkem_generate sample_prims 7)))"
    by (simp add: sample_client_def transport_init_def generate_ephemeral_def Let_def split_def)
  ultimately show ?thesis
    using handshake_agreement [OF sample_correct sample_safe _ _ _ _ _ _ g _ r] by blast
qed

end
