(* ===== verification/Transport_Stream.thy ===== *)
theory Transport_Stream
  imports Transport_Kex
begin

text \<open>
  What a peer receives: the packets one transport sends, in order, are the packet events the other
  reports, whatever the cipher. The link between the two is the relation \<open>sealed_stream\<close>, a byte
  stream that opens packet by packet.
\<close>

inductive sealed_stream :: "('r, 'z) prims \<Rightarrow> cipher \<Rightarrow> u32 \<Rightarrow> bytes list \<Rightarrow> bytes \<Rightarrow> cipher \<Rightarrow> bool"
  for P :: "('r, 'z) prims" where
  stream_Nil: "sealed_stream P c q [] [] c"
| stream_Cons: "(\<And>rest. cipher_open P c q (f @ rest) = (Ok (Some (p, length f)), c1)) \<Longrightarrow>
    sealed_stream P c1 (q + 1) ps g c2 \<Longrightarrow> sealed_stream P c q (p # ps) (f @ g) c2"

section \<open>The sender\<close>

text \<open>A sender whose epoch has room for \<open>n\<close> more packets of \<open>b\<close> bytes in all.\<close>

definition can_send :: "('r, 'z) transport \<Rightarrow> nat \<Rightarrow> nat \<Rightarrow> bool" where
  "can_send t n b \<longleftrightarrow>
     t_phase t = PhaseEstablished \<and> \<not> t_rekeying t \<and> \<not> t_closing t \<and> t_comp_out t = CompNone \<and>
     (t_role t = Server \<longrightarrow> t_comp_active t \<or> t_comp_out_name t \<noteq> COMPRESSION_ZLIB_OPENSSH) \<and>
     unat (t_tx_packets_since_rekey t) + n < min (2 ^ 31) (unat (t_rekey_packets_limit t)) \<and>
     unat (t_bytes_since_rekey t) + b < unat (t_rekey_bytes_limit t)"

lemma unat_sat_add_le: "unat (sat_add a b) \<le> unat a + unat b"
  by (simp add: unat_sat_add)

lemma unat_Suc_below: "unat (a :: u64) + Suc n < 2 ^ 64 \<Longrightarrow> unat (a + 1) = Suc (unat a)"
  by (simp add: unat_word_ariths)

lemma send_packet_stream:
  assumes P: "prims_correct P" "prims_safe P" and t: "can_send t (Suc n) (length p + b)"
    and len: "length p + 64 \<le> MAX_PACKET_LENGTH"
  obtains s f where "send_packet P p t = (Ok (), s)" and "t_tx s = t_tx t @ f" and "t_tx_seq s = t_tx_seq t + 1"
    and "\<And>rest. cipher_open P (t_cipher_out t) (t_tx_seq t) (f @ rest) = (Ok (Some (p, length f)), t_cipher_out s)"
    and "can_send s n b" and "length f \<le> length p + 64"
proof -
  obtain r u where w: "write_packet P p t = (r, u)" by fastforce
  have c: "\<not> t_closing t" "t_comp_out t = CompNone" using t by (simp_all add: can_send_def)
  obtain f where f: "r = Ok ()" "t_tx u = t_tx t @ f"
    "\<And>rest. cipher_open P (t_cipher_out t) (t_tx_seq t) (f @ rest) = (Ok (Some (p, length f)), t_cipher_out u)"
    "length f \<le> length p + 64"
    by (rule write_packet_readable [OF P c len w]) (rule that)
  obtain body co c' r' out where ws: "co = CompNone \<longleftrightarrow> t_comp_out t = CompNone"
    "write_packet P p t = (Ok (), after_seal P p (t\<lparr>t_comp_out := co, t_cipher_out := c', t_rng := r', t_tx := out\<rparr>))"
    by (rule write_packet_writes [OF P(2) c(1), of p]) (use len in \<open>auto simp: payload_max_def MAX_PACKET_LENGTH_def\<close>)
  have k: "unat (t_tx_packets_since_rekey t + 1) = Suc (unat (t_tx_packets_since_rekey t))"
    by (rule unat_Suc_below [of _ n]) (use t in \<open>simp add: can_send_def\<close>)
  have u: "u = t\<lparr>t_comp_out := CompNone, t_cipher_out := c', t_rng := r', t_tx := out,
      t_tx_packets_since_rekey := t_tx_packets_since_rekey t + 1, t_tx_seq := t_tx_seq t + 1\<rparr>"
    using ws w t k by (auto simp: after_seal_def Let_def can_send_def EPOCH_HARD_PACKETS_def word_le_nat_alt)
  let ?s = "u\<lparr>t_bytes_since_rekey := sat_add (t_bytes_since_rekey t) (of_nat (length p))\<rparr>"
  have b: "unat (sat_add (t_bytes_since_rekey t) (of_nat (length p))) \<le> unat (t_bytes_since_rekey t) + length p"
    by (rule order_trans [OF unat_sat_add_le]) (simp add: unat_of_nat)
  have "send_packet P p t = (Ok (), ?s)"
    using t b k unfolding send_packet_def w f(1) by (simp add: u can_send_def Let_def word_le_nat_alt)
  then show thesis
    by (rule that [of ?s f]) (use f t b k in \<open>simp_all add: u can_send_def\<close>)
qed

lemma send_packets_stream:
  assumes P: "prims_correct P" "prims_safe P"
  shows "can_send t (length ps) (sum_list (map length ps)) \<Longrightarrow> \<forall>p\<in>set ps. length p + 64 \<le> MAX_PACKET_LENGTH \<Longrightarrow>
    \<exists>s f. send_packets P ps t = (Ok (), s) \<and> t_tx s = t_tx t @ f \<and>
      sealed_stream P (t_cipher_out t) (t_tx_seq t) ps f (t_cipher_out s) \<and>
      length f \<le> sum_list (map (\<lambda>p. length p + 64) ps)"
proof (induction ps arbitrary: t)
  case Nil
  then show ?case by (auto intro: stream_Nil)
next
  case (Cons p ps)
  obtain u f where u: "send_packet P p t = (Ok (), u)" "t_tx u = t_tx t @ f" "t_tx_seq u = t_tx_seq t + 1"
    "\<And>rest. cipher_open P (t_cipher_out t) (t_tx_seq t) (f @ rest) = (Ok (Some (p, length f)), t_cipher_out u)"
    "can_send u (length ps) (sum_list (map length ps))" "length f \<le> length p + 64"
    by (rule send_packet_stream [OF P, of t "length ps" p "sum_list (map length ps)"])
      (use Cons.prems that in auto)
  with Cons.IH [of u] Cons.prems(2) obtain s g where s: "send_packets P ps u = (Ok (), s)" "t_tx s = t_tx u @ g"
    "sealed_stream P (t_cipher_out u) (t_tx_seq t + 1) ps g (t_cipher_out s)"
    "length g \<le> sum_list (map (\<lambda>p. length p + 64) ps)" by auto
  have "sealed_stream P (t_cipher_out t) (t_tx_seq t) (p # ps) (f @ g) (t_cipher_out s)"
    by (rule stream_Cons [OF u(4) s(3)])
  with u(1,2,6) s(1,2,4) show ?case by auto
qed

section \<open>The receiver\<close>

text \<open>Payloads that are not the transport's own messages, and a receiver whose epoch has room for \<open>n\<close>
  packets of \<open>b\<close> bytes in all.\<close>

definition app_payload :: "bytes \<Rightarrow> bool" where
  "app_payload p \<longleftrightarrow> p \<noteq> [] \<and>
     hd p \<notin> {msg_DISCONNECT, msg_IGNORE, msg_DEBUG, msg_KEXINIT, msg_NEWKEYS, msg_KEX_ECDH_INIT, msg_KEX_ECDH_REPLY}"

definition can_receive :: "('r, 'z) transport \<Rightarrow> nat \<Rightarrow> nat \<Rightarrow> bool" where
  "can_receive t n b \<longleftrightarrow>
     t_phase t = PhaseEstablished \<and> \<not> t_closing t \<and> t_comp_in t = DecompNone \<and> t_rx_pos t \<le> length (t_rx t) \<and>
     (t_role t = Client \<longrightarrow> t_comp_active t \<or> t_comp_in_name t \<noteq> COMPRESSION_ZLIB_OPENSSH) \<and>
     unat (t_rx_packets_since_rekey t) + n < min (2 ^ 31) (unat (t_rekey_packets_limit t)) \<and>
     unat (t_rx_bytes_since_rekey t) + b < unat (t_rekey_bytes_limit t)"

lemma cipher_open_empty: "cipher_open P c q [] = (Ok None, c)"
  by (cases c) (simp_all add: cipher_open_def decode_plain_def chacha_open_def gcm_open_def)

lemma drive_step_packet:
  assumes t: "can_receive t (Suc n) (length f + b)" and p: "app_payload p"
    and rx: "drop (t_rx_pos t) (t_rx t) = f @ g"
    and op: "cipher_open P (t_cipher_in t) (t_rx_seq t) (f @ g) = (Ok (Some (p, length f)), c)"
  obtains s where "drive_step P t = (Ok True, s)" and "t_events s = t_events t @ [Packet p]"
    and "t_cipher_in s = c" and "t_rx_seq s = t_rx_seq t + 1" and "drop (t_rx_pos s) (t_rx s) = g"
    and "can_receive s n b"
proof -
  define s where "s = t\<lparr>t_cipher_in := c, t_rx_pos := t_rx_pos t + length f, t_rx_seq := t_rx_seq t + 1,
      t_rx_bytes_since_rekey := sat_add (t_rx_bytes_since_rekey t) (of_nat (length f)),
      t_rx_packets_since_rekey := t_rx_packets_since_rekey t + 1,
      t_consecutive_peer_rekeys := 0, t_events := t_events t @ [Packet p]\<rparr>"
  have k: "unat (t_rx_packets_since_rekey t + 1) = Suc (unat (t_rx_packets_since_rekey t))"
    by (rule unat_Suc_below [of _ n]) (use t in \<open>simp add: can_receive_def\<close>)
  have bb: "unat (sat_add (t_rx_bytes_since_rekey t) (of_nat (length f))) \<le> unat (t_rx_bytes_since_rekey t) + length f"
    by (rule order_trans [OF unat_sat_add_le]) (simp add: unat_of_nat)
  have "length (f @ g) = length (t_rx t) - t_rx_pos t" using rx by (metis length_drop)
  moreover have "t_rx_pos t \<le> length (t_rx t)" using t by (simp add: can_receive_def)
  ultimately have pos: "t_rx_pos t + length f \<le> length (t_rx t)" by simp
  obtain x xs where px: "p = x # xs" using p by (cases p) (simp_all add: app_payload_def)
  have "drive_step P t = (Ok True, s)"
    using t p bb k
    by (auto simp: drive_step_def can_receive_def slice_from_def rx op Let_def process_packet_def decompress_in_def
        handle_packet_def first_byte_def px app_payload_def EPOCH_HARD_PACKETS_def word_le_nat_alt s_def)
  moreover have "drop (t_rx_pos s) (t_rx s) = g"
    using arg_cong [OF rx, of "drop (length f)"] by (simp add: s_def add.commute)
  moreover have "can_receive s n b" using t bb k pos by (simp add: s_def can_receive_def)
  ultimately show thesis by (intro that) (simp_all add: s_def)
qed

lemma drive_stream:
  assumes "sealed_stream P c q ps f c'"
  shows "can_receive t (length ps) (length f) \<Longrightarrow> t_cipher_in t = c \<Longrightarrow> t_rx_seq t = q \<Longrightarrow>
    drop (t_rx_pos t) (t_rx t) = f \<Longrightarrow> \<forall>p\<in>set ps. app_payload p \<Longrightarrow>
    \<exists>s. drive P t = (Ok (), s) \<and> t_events s = t_events t @ map Packet ps \<and> t_cipher_in s = c' \<and>
      t_rx_seq s = q + of_nat (length ps) \<and> t_rx s = [] \<and> t_rx_pos s = 0"
  using assms
proof (induction arbitrary: t rule: sealed_stream.induct)
  case (stream_Nil c q)
  have "t_rx_pos t = length (t_rx t)" using stream_Nil by (simp add: can_receive_def)
  moreover have "cipher_open P c q [] = (Ok None, c)" by (rule cipher_open_empty)
  ultimately show ?case using stream_Nil
    by (subst drive.simps)
      (simp add: drive_step_def can_receive_def slice_from_def compact_rx_def Let_def)
next
  case (stream_Cons c q f p c1 ps g c2)
  obtain u where u: "drive_step P t = (Ok True, u)" "t_events u = t_events t @ [Packet p]" "t_cipher_in u = c1"
    "t_rx_seq u = t_rx_seq t + 1" "drop (t_rx_pos u) (t_rx u) = g" "can_receive u (length ps) (length g)"
    by (rule drive_step_packet [of t "length ps" f "length g" p g P c1]) (use stream_Cons in auto)
  with stream_Cons.IH [of u] stream_Cons.prems show ?case
    by (subst drive.simps) (auto simp: add.assoc)
qed

section \<open>Properties\<close>

text \<open>C6: Packets are delivered in order. Whatever the cipher, when the receiver's inbound cipher and
  sequence number are the sender's outbound ones and both epochs have room: the bytes the sender
  appends to its output for the packets \<open>ps\<close>, fed to the receiver, make it report exactly those
  packets in that order, and leave the two sides matched for the next ones.\<close>

theorem packets_delivered:
  assumes "prims_correct P" and "prims_safe P"
    and "can_send t (length ps) (sum_list (map length ps))"
    and "\<forall>p\<in>set ps. app_payload p \<and> length p + 64 \<le> MAX_PACKET_LENGTH"
    and "t_cipher_in u = t_cipher_out t" and "t_rx_seq u = t_tx_seq t" and "t_rx u = []" and "t_rx_pos u = 0"
    and "can_receive u (length ps) (sum_list (map (\<lambda>p. length p + 64) ps))"
  shows "\<exists>s f v. send_packets P ps t = (Ok (), s) \<and> t_tx s = t_tx t @ f \<and> on_input P f u = (Ok (), v) \<and>
    t_events v = t_events u @ map Packet ps \<and> t_cipher_in v = t_cipher_out s \<and>
    t_rx_seq v = t_tx_seq t + of_nat (length ps) \<and> t_rx v = [] \<and> t_rx_pos v = 0"
proof -
  from assms(4) have "\<forall>p\<in>set ps. length p + 64 \<le> MAX_PACKET_LENGTH" by blast
  from send_packets_stream [OF assms(1-3) this] obtain s f where s: "send_packets P ps t = (Ok (), s)"
    "t_tx s = t_tx t @ f" "sealed_stream P (t_cipher_out t) (t_tx_seq t) ps f (t_cipher_out s)"
    "length f \<le> sum_list (map (\<lambda>p. length p + 64) ps)" by blast
  then have "can_receive (u\<lparr>t_rx := f\<rparr>) (length ps) (length f)" "\<not> t_closing u"
    using assms(8,9) by (simp_all add: can_receive_def)
  with drive_stream [OF s(3), of "u\<lparr>t_rx := f\<rparr>"] assms(4-8) s(1,2) show ?thesis
    by (auto simp: on_input_def)
qed

theorem packets_delivered_witness:
  "\<exists>s f v. send_packets sample_prims [[94, 1], [95]] sample_established = (Ok (), s) \<and>
     t_tx s = f \<and> on_input sample_prims f (sample_established\<lparr>t_cipher_in := t_cipher_out sample_established\<rparr>) = (Ok (), v) \<and>
     t_events v = [Packet [94, 1], Packet [95]]"
proof -
  let ?u = "sample_established\<lparr>t_cipher_in := t_cipher_out sample_established\<rparr>"
  have lim: "unat REKEY_BYTES = 2 ^ 30" "unat REKEY_PACKETS = 2 ^ 28"
    by (simp_all add: REKEY_BYTES_def REKEY_PACKETS_def)
  have nz: "COMPRESSION_NONE \<noteq> COMPRESSION_ZLIB_OPENSSH" by code_simp
  have send: "can_send sample_established (Suc (Suc 0)) (Suc (Suc (Suc 0)))"
    by (simp add: can_send_def sample_established_def transport_init_def lim nz)
  have "\<exists>s f v. send_packets sample_prims [[94, 1], [95]] sample_established = (Ok (), s) \<and>
     t_tx s = t_tx sample_established @ f \<and> on_input sample_prims f ?u = (Ok (), v) \<and>
     t_events v = t_events ?u @ map Packet [[94, 1], [95]] \<and> t_cipher_in v = t_cipher_out s \<and>
     t_rx_seq v = t_tx_seq sample_established + of_nat (length [[94, 1], [95 :: byte]]) \<and> t_rx v = [] \<and> t_rx_pos v = 0"
    by (rule packets_delivered [OF sample_correct sample_safe])
      (use send in \<open>simp_all add: app_payload_def msg_defs MAX_PACKET_LENGTH_def sample_established_def transport_init_def
        can_receive_def lim nz\<close>)
  then show ?thesis by (auto simp: sample_established_def transport_init_def)
qed

text \<open>C29: The re-key flood guard. On an established transport that has not itself started a key exchange, a
  peer KEXINIT beyond the allowed number of consecutive ones is answered with a single DISCONNECT and
  the connection closes: no key material is generated, nothing is negotiated or staged, and no later
  packet of the peer is read.\<close>

theorem rekey_flood_closes:
  assumes "prims_safe P" and "is_established t" and "\<not> t_kexinit_sent t" and "\<not> t_closing t"
    and "t_max_consecutive_peer_rekeys t < t_consecutive_peer_rekeys t + 1"
  shows "\<exists>s u. on_peer_kexinit P payload t = (Ok (), s) \<and> t_closing s \<and> drive_step P s = (Ok False, s) \<and>
    write_packet P (disconnect_msg disconnect_PROTOCOL_ERROR (str ''re-key rate exceeded''))
      (t\<lparr>t_consecutive_peer_rekeys := t_consecutive_peer_rekeys t + 1\<rparr>) = (Ok (), u) \<and> t_tx s = t_tx u \<and>
    t_negotiated s = t_negotiated t \<and> t_pending s = t_pending t \<and> t_kex_eph s = t_kex_eph t \<and>
    t_local_kexinit s = t_local_kexinit t \<and> \<not> t_kexinit_sent s \<and> t_rekeying s = t_rekeying t"
proof -
  let ?t = "t\<lparr>t_consecutive_peer_rekeys := t_consecutive_peer_rekeys t + 1\<rparr>"
  let ?m = "disconnect_msg disconnect_PROTOCOL_ERROR (str ''re-key rate exceeded'')"
  obtain u where u: "write_packet P ?m ?t = (Ok (), u)" "wframe ?t u"
    by (rule write_packet_Ok [OF assms(1), of ?m ?t]) (simp_all add: disconnect_msg_def writer_simps payload_max_def)
  have "on_peer_kexinit P payload t = (Ok (), u\<lparr>t_closing := True\<rparr>)"
    using assms(2-5) u(1) by (simp add: on_peer_kexinit_def is_established_def Let_def disconnect_def)
  with u assms(3) show ?thesis by (auto simp: wframe_def drive_step_def)
qed

theorem rekey_flood_closes_witness:
  "\<exists>s. on_peer_kexinit sample_prims [20] (sample_established\<lparr>t_consecutive_peer_rekeys := 3\<rparr>) = (Ok (), s) \<and> t_closing s"
proof -
  let ?t = "sample_established\<lparr>t_consecutive_peer_rekeys := 3\<rparr>"
  have "is_established ?t" "\<not> t_kexinit_sent ?t" "\<not> t_closing ?t"
    "t_max_consecutive_peer_rekeys ?t < t_consecutive_peer_rekeys ?t + 1"
    by (simp_all add: sample_established_def transport_init_def is_established_def
        DEFAULT_MAX_CONSECUTIVE_PEER_REKEYS_def)
  from rekey_flood_closes [OF sample_safe this, of "[20]"] show ?thesis by blast
qed

section \<open>Strict key exchange and deferred traffic\<close>

definition latched :: "bool \<Rightarrow> ('r, 'z) transport \<Rightarrow> bool" where
  "latched b t \<longleftrightarrow> t_initial_kex_done t \<and> t_strict_kex t = b"

interpretation strict: framed_invariant P "latched b" for P b
  by unfold_locales (auto simp: latched_def tframe_def compact_rx_def)

lemma write_packets_wframe: "write_packets P ps t = (r, s) \<Longrightarrow> wframe t s"
proof (induction ps arbitrary: t)
  case (Cons p ps)
  obtain x u where u: "write_packet P p t = (x, u)" by fastforce
  have "wframe t u" by (rule write_packet_wframe [OF u])
  moreover have "s = u \<or> wframe u s" using Cons u by (cases x) auto
  ultimately show ?case using wframe_trans by blast
qed simp

lemma maybe_complete_kex_rx_seq: "t_rx_seq (snd (maybe_complete_kex P t)) = t_rx_seq t"
proof -
  have "t_rx_seq (snd (write_packets P ps u)) = t_rx_seq u" for ps and u :: "('a, 'b) transport"
    using write_packets_wframe [of P ps u] by (cases "write_packets P ps u") (simp add: wframe_def)
  then show ?thesis by (simp add: maybe_complete_kex_def Let_def)
qed

lemma on_newkeys_rx_seq:
  assumes "on_newkeys P t = (Ok (), s)" and "t_strict_kex t"
  shows "t_rx_seq s = 0"
proof -
  obtain p where "t_pending t = Some p" using assms(1) by (cases "t_pending t") (simp_all add: on_newkeys_def)
  with assms(2) have "t_rx_seq (snd (on_newkeys P t)) = 0"
    by (cases "t_comp_active t") (simp_all add: on_newkeys_def Let_def maybe_complete_kex_rx_seq)
  then show ?thesis by (simp add: assms(1))
qed



text \<open>A transport that may write \<open>n\<close> more packets before the hard limit of the epoch.\<close>

definition can_write :: "('r, 'z) transport \<Rightarrow> nat \<Rightarrow> bool" where
  "can_write t n \<longleftrightarrow> \<not> t_closing t \<and> t_comp_out t = CompNone \<and>
     (t_role t = Server \<longrightarrow> t_comp_active t \<or> t_comp_out_name t \<noteq> COMPRESSION_ZLIB_OPENSSH) \<and>
     unat (t_tx_packets_since_rekey t) + n < 2 ^ 31"

lemma write_packets_stream:
  assumes P: "prims_correct P" "prims_safe P"
  shows "can_write t (length ps) \<Longrightarrow> \<forall>p\<in>set ps. length p + 64 \<le> MAX_PACKET_LENGTH \<Longrightarrow>
    \<exists>s f. write_packets P ps t = (Ok (), s) \<and> t_tx s = t_tx t @ f \<and>
      sealed_stream P (t_cipher_out t) (t_tx_seq t) ps f (t_cipher_out s)"
proof (induction ps arbitrary: t)
  case Nil
  then show ?case by (auto intro: stream_Nil)
next
  case (Cons p ps)
  have c: "\<not> t_closing t" "t_comp_out t = CompNone" and len: "length p + 64 \<le> MAX_PACKET_LENGTH"
    using Cons.prems by (simp_all add: can_write_def)
  obtain r u where w: "write_packet P p t = (r, u)" by fastforce
  obtain f where f: "r = Ok ()" "t_tx u = t_tx t @ f"
    "\<And>rest. cipher_open P (t_cipher_out t) (t_tx_seq t) (f @ rest) = (Ok (Some (p, length f)), t_cipher_out u)"
    by (rule write_packet_readable [OF P c len w]) (use that in blast)
  have k: "unat (t_tx_packets_since_rekey t + 1) = Suc (unat (t_tx_packets_since_rekey t))"
    by (rule unat_Suc_below [of _ "length ps"]) (use Cons.prems(1) in \<open>simp add: can_write_def\<close>)
  obtain body co c' r' out where "co = CompNone \<longleftrightarrow> t_comp_out t = CompNone"
    "write_packet P p t = (Ok (), after_seal P p (t\<lparr>t_comp_out := co, t_cipher_out := c', t_rng := r', t_tx := out\<rparr>))"
    by (rule write_packet_writes [OF P(2) c(1), of p]) (use len in \<open>auto simp: payload_max_def MAX_PACKET_LENGTH_def\<close>)
  then have u: "can_write u (length ps)" "t_tx_seq u = t_tx_seq t + 1"
    using w Cons.prems(1) k
    by (auto simp: after_seal_def Let_def can_write_def EPOCH_HARD_PACKETS_def word_le_nat_alt)
  obtain s g where s: "write_packets P ps u = (Ok (), s)" "t_tx s = t_tx u @ g"
    "sealed_stream P (t_cipher_out u) (t_tx_seq t + 1) ps g (t_cipher_out s)"
    using Cons.IH [OF u(1)] Cons.prems(2) u(2) by auto
  have "sealed_stream P (t_cipher_out t) (t_tx_seq t) (p # ps) (f @ g) (t_cipher_out s)"
    by (rule stream_Cons [OF f(3) s(3)])
  then show ?case using s w f by (intro exI [of _ s] exI [of _ "f @ g"]) simp
qed



end
