(* ===== verification/Auth.thy ===== *)
theory Auth
  imports Kdf Hostkey
begin

text \<open>
  The user authentication messages (\<^verbatim>\<open>crates/ssh-transport/src/auth.rs\<close>): builders and the server's
  parser for the \<^verbatim>\<open>none\<close>, \<^verbatim>\<open>password\<close> and \<^verbatim>\<open>publickey\<close> methods, user keys, and the data a \<^verbatim>\<open>publickey\<close> signature
  covers. Texts are their UTF-8 bytes; scrubbing a password on drop has no result and is left out.
\<close>

definition SERVICE_USERAUTH :: bytes where "SERVICE_USERAUTH = str ''ssh-userauth''"
definition SERVICE_CONNECTION :: bytes where "SERVICE_CONNECTION = str ''ssh-connection''"
definition METHOD_NONE :: bytes where "METHOD_NONE = str ''none''"
definition METHOD_PASSWORD :: bytes where "METHOD_PASSWORD = str ''password''"
definition METHOD_PUBLICKEY :: bytes where "METHOD_PUBLICKEY = str ''publickey''"

record user_public_key =
  up_verifying :: bytes

record user_keypair =
  uk_signing :: bytes

definition user_parse_blob :: "('r, 'z) prims \<Rightarrow> bytes \<Rightarrow> user_public_key result" where
  "user_parse_blob P blob =
     rbind (r_utf8 (reader_new blob)) (\<lambda>(alg, r).
     if alg \<noteq> HOSTKEY_ED25519 then Err (Protocol ''unsupported public key algorithm'')
     else
       rbind (r_string r) (\<lambda>(key, r).
       if length key \<noteq> 32 then Err (Protocol ''ed25519 key is not 32 bytes'')
       else if \<not> ed25519_valid P key then Err (Protocol ''invalid ed25519 key'')
       else Ok \<lparr>up_verifying = key\<rparr>))"

definition user_from_ed25519_bytes :: "('r, 'z) prims \<Rightarrow> bytes \<Rightarrow> user_public_key result" where
  "user_from_ed25519_bytes P bs =
     (if ed25519_valid P bs then Ok \<lparr>up_verifying = bs\<rparr> else Err (Protocol ''invalid ed25519 key''))"

definition user_blob :: "user_public_key \<Rightarrow> bytes" where
  "user_blob k =
     (let w = writer_new;
          w = w_string w HOSTKEY_ED25519;
          w = w_string w (up_verifying k)
      in w)"

definition user_verify :: "('r, 'z) prims \<Rightarrow> user_public_key \<Rightarrow> bytes \<Rightarrow> bytes \<Rightarrow> unit result" where
  "user_verify P k signed_data sig_blob =
     rbind (r_utf8 (reader_new sig_blob)) (\<lambda>(alg, r).
     if alg \<noteq> HOSTKEY_ED25519 then Err (Protocol ''unsupported signature algorithm'')
     else
       rbind (r_string r) (\<lambda>(sig, r).
       if length sig \<noteq> 64 then Err (Protocol ''signature is not 64 bytes'')
       else if ed25519_verify_strict P (up_verifying k) signed_data sig then Ok ()
       else Err AuthFailed))"

definition user_from_seed :: "bytes \<Rightarrow> user_keypair" where
  "user_from_seed seed = \<lparr>uk_signing = seed\<rparr>"

definition user_generate :: "('r, 'z) prims \<Rightarrow> 'r \<Rightarrow> user_keypair \<times> 'r" where
  "user_generate P r = (let (sk, r) = ed25519_generate P r in (\<lparr>uk_signing = sk\<rparr>, r))"

definition user_public :: "('r, 'z) prims \<Rightarrow> user_keypair \<Rightarrow> user_public_key" where
  "user_public P k = \<lparr>up_verifying = ed25519_public P (uk_signing k)\<rparr>"

definition user_sign :: "('r, 'z) prims \<Rightarrow> user_keypair \<Rightarrow> bytes \<Rightarrow> bytes" where
  "user_sign P k signed_data =
     (let sig = ed25519_sign P (uk_signing k) signed_data;
          w = writer_new;
          w = w_string w HOSTKEY_ED25519;
          w = w_string w sig
      in w)"

definition publickey_signed_data :: "bytes \<Rightarrow> bytes \<Rightarrow> bytes \<Rightarrow> bytes \<Rightarrow> bytes \<Rightarrow> bytes" where
  "publickey_signed_data session_id user service key_algo key_blob =
     (let w = writer_new;
          w = w_string w session_id;
          w = w_u8 w msg_USERAUTH_REQUEST;
          w = w_string w user;
          w = w_string w service;
          w = w_string w METHOD_PUBLICKEY;
          w = w_boolean w True;
          w = w_string w key_algo;
          w = w_string w key_blob
      in w)"

section \<open>Message builders\<close>

definition service_request :: "bytes \<Rightarrow> bytes" where
  "service_request service =
     (let w = writer_new; w = w_u8 w msg_SERVICE_REQUEST; w = w_string w service in w)"

definition service_accept :: "bytes \<Rightarrow> bytes" where
  "service_accept service =
     (let w = writer_new; w = w_u8 w msg_SERVICE_ACCEPT; w = w_string w service in w)"

definition userauth_failure :: "bytes list \<Rightarrow> bool \<Rightarrow> bytes" where
  "userauth_failure methods partial =
     (let w = writer_new;
          w = w_u8 w msg_USERAUTH_FAILURE;
          w = w_name_list w methods;
          w = w_boolean w partial
      in w)"

definition userauth_success :: bytes where
  "userauth_success = [msg_USERAUTH_SUCCESS]"

definition userauth_banner :: "bytes \<Rightarrow> bytes" where
  "userauth_banner message =
     (let w = writer_new;
          w = w_u8 w msg_USERAUTH_BANNER;
          w = w_string w message;
          w = w_string w []
      in w)"

definition userauth_pk_ok :: "bytes \<Rightarrow> bytes \<Rightarrow> bytes" where
  "userauth_pk_ok key_algo key_blob =
     (let w = writer_new;
          w = w_u8 w msg_USERAUTH_PK_OK;
          w = w_string w key_algo;
          w = w_string w key_blob
      in w)"

definition password_request :: "bytes \<Rightarrow> bytes \<Rightarrow> bytes \<Rightarrow> bytes" where
  "password_request user service password =
     (let w = writer_new;
          w = w_u8 w msg_USERAUTH_REQUEST;
          w = w_string w user;
          w = w_string w service;
          w = w_string w METHOD_PASSWORD;
          w = w_boolean w False;
          w = w_string w password
      in w)"

definition none_request :: "bytes \<Rightarrow> bytes \<Rightarrow> bytes" where
  "none_request user service =
     (let w = writer_new;
          w = w_u8 w msg_USERAUTH_REQUEST;
          w = w_string w user;
          w = w_string w service;
          w = w_string w METHOD_NONE
      in w)"

definition publickey_request :: "bytes \<Rightarrow> bytes \<Rightarrow> bytes \<Rightarrow> bytes \<Rightarrow> bytes option \<Rightarrow> bytes" where
  "publickey_request user service key_algo key_blob signature =
     (let w = writer_new;
          w = w_u8 w msg_USERAUTH_REQUEST;
          w = w_string w user;
          w = w_string w service;
          w = w_string w METHOD_PUBLICKEY;
          w = w_boolean w (case signature of Some _ \<Rightarrow> True | None \<Rightarrow> False);
          w = w_string w key_algo;
          w = w_string w key_blob
      in case signature of Some sig \<Rightarrow> w_string w sig | None \<Rightarrow> w)"

section \<open>The request parser\<close>

datatype auth_method =
    MethodNone
  | MethodPassword bytes
  | MethodPublicKey bytes bytes "bytes option"
  | MethodUnknown bytes

record auth_request =
  ar_user :: bytes
  ar_service :: bytes
  ar_method :: auth_method

definition parse_method :: "bytes \<Rightarrow> reader \<Rightarrow> auth_method result" where
  "parse_method method_name r =
     (if method_name = METHOD_NONE then Ok MethodNone
      else if method_name = METHOD_PASSWORD then
        rbind (r_boolean r) (\<lambda>(_, r).
        rbind (r_utf8 r) (\<lambda>(password, r). Ok (MethodPassword password)))
      else if method_name = METHOD_PUBLICKEY then
        rbind (r_boolean r) (\<lambda>(has_sig, r).
        rbind (r_utf8 r) (\<lambda>(key_algo, r).
        rbind (r_string r) (\<lambda>(key_blob, r).
        if has_sig then
          rbind (r_string r) (\<lambda>(sig, r). Ok (MethodPublicKey key_algo key_blob (Some sig)))
        else Ok (MethodPublicKey key_algo key_blob None))))
      else Ok (MethodUnknown method_name))"

definition auth_request_parse :: "bytes \<Rightarrow> auth_request result" where
  "auth_request_parse payload =
     rbind (r_u8 (reader_new payload)) (\<lambda>(m, r).
     if m \<noteq> msg_USERAUTH_REQUEST then Err (Protocol ''expected USERAUTH_REQUEST'')
     else
       rbind (r_utf8 r) (\<lambda>(user, r).
       rbind (r_utf8 r) (\<lambda>(service, r).
       rbind (r_utf8 r) (\<lambda>(method_name, r).
       rbind (parse_method method_name r) (\<lambda>meth.
       Ok \<lparr>ar_user = user, ar_service = service, ar_method = meth\<rparr>)))))"

section \<open>Lemmas\<close>

lemma method_names [simp]:
  "utf8_ok METHOD_NONE" "utf8_ok METHOD_PASSWORD" "utf8_ok METHOD_PUBLICKEY"
  "fits32 METHOD_NONE" "fits32 METHOD_PASSWORD" "fits32 METHOD_PUBLICKEY"
  "METHOD_PASSWORD \<noteq> METHOD_NONE" "METHOD_PUBLICKEY \<noteq> METHOD_NONE" "METHOD_PUBLICKEY \<noteq> METHOD_PASSWORD"
  by (simp_all add: METHOD_NONE_def METHOD_PASSWORD_def METHOD_PUBLICKEY_def fits32_def str_def)

lemma not_crashed_auth [simp]:
  "\<not> crashed (user_parse_blob P blob)" "\<not> crashed (user_verify P k d s)" "\<not> crashed (parse_method n r)"
  "\<not> crashed (auth_request_parse p)"
  by (simp_all add: user_parse_blob_def user_verify_def parse_method_def auth_request_parse_def crashed_rbind split_def)

lemma r_string_end: "fits32 bs \<Longrightarrow> length pre + 4 + length bs < 2 ^ 64 \<Longrightarrow>
    r_string (rd pre (string_enc bs)) = Ok (bs, rd (pre @ string_enc bs) [])"
  using r_string_rd [of bs pre "[]"] by simp

lemma r_utf8_end: "fits32 bs \<Longrightarrow> utf8_ok bs \<Longrightarrow> length pre + 4 + length bs < 2 ^ 64 \<Longrightarrow>
    r_utf8 (rd pre (string_enc bs)) = Ok (bs, rd (pre @ string_enc bs) [])"
  using r_utf8_rd [of bs pre "[]"] by simp

lemmas reads = r_u8_rd r_boolean_rd r_u32_rd r_string_rd r_utf8_rd r_string_end r_utf8_end

lemma method_lengths [simp]: "length METHOD_NONE = 4" "length METHOD_PASSWORD = 8" "length METHOD_PUBLICKEY = 9"
  by (simp_all add: METHOD_NONE_def METHOD_PASSWORD_def METHOD_PUBLICKEY_def str_def)

text \<open>A text the wire can carry.\<close>

definition text_ok :: "bytes \<Rightarrow> bool" where
  "text_ok t \<longleftrightarrow> utf8_ok t \<and> length t < 2 ^ 32"

lemma text_okD: "text_ok t \<Longrightarrow> utf8_ok t" "text_ok t \<Longrightarrow> fits32 t" "text_ok t \<Longrightarrow> length t < 2 ^ 32"
  by (simp_all add: text_ok_def fits32_def)

text \<open>The common head of the three requests: what is left to read is the method's own part.\<close>

lemma parse_head:
  assumes u: "text_ok user" "text_ok service" "text_ok m"
  shows "\<exists>pre. length pre < 2 ^ 35 \<and>
    auth_request_parse (msg_USERAUTH_REQUEST # string_enc user @ string_enc service @ string_enc m @ body) =
     rbind (parse_method m (rd pre body)) (\<lambda>meth. Ok \<lparr>ar_user = user, ar_service = service, ar_method = meth\<rparr>)"
proof -
  let ?h = "[msg_USERAUTH_REQUEST]"
  have "auth_request_parse (msg_USERAUTH_REQUEST # string_enc user @ string_enc service @ string_enc m @ body) =
     rbind (parse_method m (rd (((?h @ string_enc user) @ string_enc service) @ string_enc m) body))
       (\<lambda>meth. Ok \<lparr>ar_user = user, ar_service = service, ar_method = meth\<rparr>)"
    using text_okD [OF u(1)] text_okD [OF u(2)] text_okD [OF u(3)]
    by (simp add: auth_request_parse_def reads)
  then show ?thesis
    using text_okD(3) [OF u(1)] text_okD(3) [OF u(2)] text_okD(3) [OF u(3)]
    by (intro exI [of _ "((?h @ string_enc user) @ string_enc service) @ string_enc m"]) simp
qed

lemma requests_parse:
  assumes "text_ok user" and "text_ok service"
  shows "auth_request_parse (none_request user service) =
      Ok \<lparr>ar_user = user, ar_service = service, ar_method = MethodNone\<rparr>"
    "text_ok password \<Longrightarrow> auth_request_parse (password_request user service password) =
      Ok \<lparr>ar_user = user, ar_service = service, ar_method = MethodPassword password\<rparr>"
    "text_ok algo \<Longrightarrow> length blob < 2 ^ 32 \<Longrightarrow> \<forall>s\<in>set_option sig. length s < 2 ^ 32 \<Longrightarrow>
      auth_request_parse (publickey_request user service algo blob sig) =
      Ok \<lparr>ar_user = user, ar_service = service, ar_method = MethodPublicKey algo blob sig\<rparr>"
proof -
  have m: "text_ok METHOD_NONE" "text_ok METHOD_PASSWORD" "text_ok METHOD_PUBLICKEY"
    by (simp_all add: text_ok_def)
  show "auth_request_parse (none_request user service) =
      Ok \<lparr>ar_user = user, ar_service = service, ar_method = MethodNone\<rparr>"
    using parse_head [OF assms m(1), of "[]"] by (auto simp: none_request_def writer_simps parse_method_def)
  show "text_ok password \<Longrightarrow> auth_request_parse (password_request user service password) =
      Ok \<lparr>ar_user = user, ar_service = service, ar_method = MethodPassword password\<rparr>"
    using parse_head [OF assms m(2), of "0 # string_enc password"] text_okD [of password]
    by (auto simp: password_request_def writer_simps parse_method_def reads)
  assume algo: "text_ok algo" and blob: "length blob < 2 ^ 32" and sig: "\<forall>s\<in>set_option sig. length s < 2 ^ 32"
  show "auth_request_parse (publickey_request user service algo blob sig) =
      Ok \<lparr>ar_user = user, ar_service = service, ar_method = MethodPublicKey algo blob sig\<rparr>"
  proof (cases sig)
    case None
    then show ?thesis
      using parse_head [OF assms m(3), of "0 # string_enc algo @ string_enc blob"] text_okD [OF algo] blob
      by (auto simp: publickey_request_def writer_simps parse_method_def reads fits32_def)
  next
    case (Some s)
    then show ?thesis
      using parse_head [OF assms m(3), of "1 # string_enc algo @ string_enc blob @ string_enc s"]
        text_okD [OF algo] blob sig
      by (auto simp: publickey_request_def writer_simps parse_method_def reads fits32_def)
  qed
qed

lemma user_key_correct:
  assumes "sizes_ok P" and "ed25519_correct P"
  shows "user_parse_blob P (user_blob (user_public P k)) = Ok (user_public P k)"
    and "user_verify P (user_public P k) d (user_sign P k d) = Ok ()"
proof -
  have "user_blob (user_public P k) = vk_blob (ed25519_public P (uk_signing k))"
    by (simp add: user_blob_def vk_blob_def user_public_def)
  then show "user_parse_blob P (user_blob (user_public P k)) = Ok (user_public P k)"
    using assms(1,2)
    by (simp add: user_parse_blob_def vk_blob_enc blob_read sizes user_public_def ed25519_correct_def)
  show "user_verify P (user_public P k) d (user_sign P k d) = Ok ()"
    using assms(1,2) sizes(11) [OF assms(1), of "uk_signing k" d]
    by (simp add: user_verify_def user_sign_def user_public_def Let_def writer_simps blob_read ed25519_correct_def)
qed

section \<open>Properties\<close>

text \<open>The server reads the request the client wrote. For every user and service name, the three request
  builders are undone by the server's parser: \<^verbatim>\<open>none\<close>, \<^verbatim>\<open>password\<close> with any password text, and \<^verbatim>\<open>publickey\<close> as a
  probe (no signature) and with a signature, never one taken for the other.\<close>

theorem auth_request_roundtrip:
  assumes "text_ok user" and "text_ok service" and "text_ok password" and "text_ok algo"
    and "length blob < 2 ^ 32" and "\<forall>s\<in>set_option sig. length s < 2 ^ 32"
  shows "auth_request_parse (none_request user service) =
      Ok \<lparr>ar_user = user, ar_service = service, ar_method = MethodNone\<rparr> \<and>
    auth_request_parse (password_request user service password) =
      Ok \<lparr>ar_user = user, ar_service = service, ar_method = MethodPassword password\<rparr> \<and>
    auth_request_parse (publickey_request user service algo blob sig) =
      Ok \<lparr>ar_user = user, ar_service = service, ar_method = MethodPublicKey algo blob sig\<rparr>"
  using requests_parse [OF assms(1,2)] assms(3-6) by blast

theorem auth_request_roundtrip_witness:
  "auth_request_parse (publickey_request (str ''root'') SERVICE_CONNECTION HOSTKEY_ED25519 [1, 2] (Some [3])) =
     Ok \<lparr>ar_user = str ''root'', ar_service = SERVICE_CONNECTION,
        ar_method = MethodPublicKey HOSTKEY_ED25519 [1, 2] (Some [3])\<rparr>"
  using auth_request_roundtrip [of "str ''root''" SERVICE_CONNECTION "[]" HOSTKEY_ED25519 "[1, 2]" "Some [3]"]
  by (simp add: text_ok_def SERVICE_CONNECTION_def str_def)

text \<open>Public-key proofs are bound to the session and the request. The server that parses the client's key
  blob verifies the client's own signature; and the signed data of two requests are equal only when session id,
  user, service, algorithm and key all agree, so a signature made for one session or one user
  is a signature of no other.\<close>

theorem user_signature_bound:
  assumes "sizes_ok P" and "ed25519_correct P"
    and "\<forall>t\<in>{sid, user, service, algo, blob, sid', user', service', algo', blob'}. length t < 2 ^ 32"
  shows "user_parse_blob P (user_blob (user_public P k)) = Ok (user_public P k) \<and>
    user_verify P (user_public P k) d (user_sign P k d) = Ok () \<and>
    (publickey_signed_data sid user service algo blob = publickey_signed_data sid' user' service' algo' blob' \<longrightarrow>
      sid = sid' \<and> user = user' \<and> service = service' \<and> algo = algo' \<and> blob = blob')"
proof (intro conjI impI)
  show "user_parse_blob P (user_blob (user_public P k)) = Ok (user_public P k)"
    "user_verify P (user_public P k) d (user_sign P k d) = Ok ()"
    by (rule user_key_correct [OF assms(1,2)])+
  assume eq: "publickey_signed_data sid user service algo blob = publickey_signed_data sid' user' service' algo' blob'"
  have f: "fits32 t" if "t \<in> {sid, user, service, algo, blob, sid', user', service', algo', blob'}" for t
    using assms(3) that unfolding fits32_def by blast
  have "string_enc blob = string_enc blob' \<longleftrightarrow> blob = blob'"
    using f string_enc_eq [of blob blob' "[]" "[]"] by simp
  with eq f show "sid = sid'" "user = user'" "service = service'" "algo = algo'" "blob = blob'"
    by (simp_all add: publickey_signed_data_def writer_simps string_enc_eq)
qed

theorem user_signature_bound_witness:
  "user_verify sample_prims (user_public sample_prims \<lparr>uk_signing = replicate 32 5\<rparr>) [1, 2]
     (user_sign sample_prims \<lparr>uk_signing = replicate 32 5\<rparr> [1, 2]) = Ok ()"
  using user_signature_bound [OF prims_correct_laws(1,4) [OF sample_correct], of "[]" "[]" "[]" "[]" "[]" "[]" "[]" "[]" "[]" "[]"
      "\<lparr>uk_signing = replicate 32 5\<rparr>" "[1, 2]"] by simp

end
