(* ===== verification/Connection.thy ===== *)
theory Connection
  imports Auth
begin

text \<open>
  Session channels (\<^verbatim>\<open>crates/ssh-transport/src/connection.rs\<close>): the flow-control bookkeeping of a channel
  and the connection protocol's message builders. Windows are 32-bit words; the loop that drains
  queued output is a function that also returns the messages it emits, in order.
\<close>

definition DEFAULT_WINDOW :: u32 where "DEFAULT_WINDOW = 1024 * 1024"
definition MAX_PACKET :: u32 where "MAX_PACKET = 32768"
definition MIN_REMOTE_MAX_PACKET :: u32 where "MIN_REMOTE_MAX_PACKET = 256"
definition CHANNEL_SESSION :: bytes where "CHANNEL_SESSION = str ''session''"
definition ADMINISTRATIVELY_PROHIBITED :: u32 where "ADMINISTRATIVELY_PROHIBITED = 1"
definition UNKNOWN_CHANNEL_TYPE :: u32 where "UNKNOWN_CHANNEL_TYPE = 3"

record pty_info =
  pty_term :: bytes
  pty_cols :: u16
  pty_rows :: u16
  pty_width_px :: u32
  pty_height_px :: u32
  pty_modes :: bytes

record out_item =
  oi_ext :: bool
  oi_buf :: bytes
  oi_sent :: nat

record channel =
  ch_local_id :: u32
  ch_remote_id :: u32
  ch_local_window :: u32
  ch_remote_window :: u32
  ch_remote_max_packet :: u32
  ch_unacked :: u32
  ch_flushed_out :: u64
  ch_out :: "out_item list"
  ch_sent_eof :: bool
  ch_sent_close :: bool
  ch_recv_close :: bool
  ch_exit_status :: "u32 option"
  ch_want_close :: bool
  ch_want_eof :: bool
  ch_pty :: "pty_info option"

section \<open>Message builders\<close>

definition channel_open_session :: "u32 \<Rightarrow> bytes" where
  "channel_open_session sender_channel =
     (let w = writer_new;
          w = w_u8 w msg_CHANNEL_OPEN;
          w = w_string w CHANNEL_SESSION;
          w = w_u32 w sender_channel;
          w = w_u32 w DEFAULT_WINDOW;
          w = w_u32 w MAX_PACKET
      in w)"

definition channel_open_confirmation :: "u32 \<Rightarrow> u32 \<Rightarrow> bytes" where
  "channel_open_confirmation recipient sender =
     (let w = writer_new;
          w = w_u8 w msg_CHANNEL_OPEN_CONFIRMATION;
          w = w_u32 w recipient;
          w = w_u32 w sender;
          w = w_u32 w DEFAULT_WINDOW;
          w = w_u32 w MAX_PACKET
      in w)"

definition channel_open_failure :: "u32 \<Rightarrow> u32 \<Rightarrow> bytes \<Rightarrow> bytes" where
  "channel_open_failure recipient reason description =
     (let w = writer_new;
          w = w_u8 w msg_CHANNEL_OPEN_FAILURE;
          w = w_u32 w recipient;
          w = w_u32 w reason;
          w = w_string w description;
          w = w_string w []
      in w)"

definition channel_request_exec :: "u32 \<Rightarrow> bool \<Rightarrow> bytes \<Rightarrow> bytes" where
  "channel_request_exec recipient want_reply command =
     (let w = writer_new;
          w = w_u8 w msg_CHANNEL_REQUEST;
          w = w_u32 w recipient;
          w = w_string w (str ''exec'');
          w = w_boolean w want_reply;
          w = w_string w command
      in w)"

definition channel_request_shell :: "u32 \<Rightarrow> bool \<Rightarrow> bytes" where
  "channel_request_shell recipient want_reply =
     (let w = writer_new;
          w = w_u8 w msg_CHANNEL_REQUEST;
          w = w_u32 w recipient;
          w = w_string w (str ''shell'');
          w = w_boolean w want_reply
      in w)"

definition channel_request_pty :: "u32 \<Rightarrow> bool \<Rightarrow> pty_info \<Rightarrow> bytes" where
  "channel_request_pty recipient want_reply pty =
     (let w = writer_new;
          w = w_u8 w msg_CHANNEL_REQUEST;
          w = w_u32 w recipient;
          w = w_string w (str ''pty-req'');
          w = w_boolean w want_reply;
          w = w_string w (pty_term pty);
          w = w_u32 w (ucast (pty_cols pty));
          w = w_u32 w (ucast (pty_rows pty));
          w = w_u32 w (pty_width_px pty);
          w = w_u32 w (pty_height_px pty)
      in if pty_modes pty = [] then w_string w [0] else w_string w (pty_modes pty))"

definition channel_request_window_change :: "u32 \<Rightarrow> u16 \<Rightarrow> u16 \<Rightarrow> u32 \<Rightarrow> u32 \<Rightarrow> bytes" where
  "channel_request_window_change recipient cols rows width_px height_px =
     (let w = writer_new;
          w = w_u8 w msg_CHANNEL_REQUEST;
          w = w_u32 w recipient;
          w = w_string w (str ''window-change'');
          w = w_boolean w False;
          w = w_u32 w (ucast cols);
          w = w_u32 w (ucast rows);
          w = w_u32 w width_px;
          w = w_u32 w height_px
      in w)"

definition channel_request_exit_status :: "u32 \<Rightarrow> u32 \<Rightarrow> bytes" where
  "channel_request_exit_status recipient status =
     (let w = writer_new;
          w = w_u8 w msg_CHANNEL_REQUEST;
          w = w_u32 w recipient;
          w = w_string w (str ''exit-status'');
          w = w_boolean w False;
          w = w_u32 w status
      in w)"

definition channel_success :: "u32 \<Rightarrow> bytes" where
  "channel_success recipient =
     (let w = writer_new; w = w_u8 w msg_CHANNEL_SUCCESS; w = w_u32 w recipient in w)"

definition channel_failure :: "u32 \<Rightarrow> bytes" where
  "channel_failure recipient =
     (let w = writer_new; w = w_u8 w msg_CHANNEL_FAILURE; w = w_u32 w recipient in w)"

definition channel_data :: "u32 \<Rightarrow> bytes \<Rightarrow> bytes" where
  "channel_data recipient data =
     (let w = writer_new;
          w = w_u8 w msg_CHANNEL_DATA;
          w = w_u32 w recipient;
          w = w_string w data
      in w)"

definition channel_extended_data :: "u32 \<Rightarrow> u32 \<Rightarrow> bytes \<Rightarrow> bytes" where
  "channel_extended_data recipient data_type data =
     (let w = writer_new;
          w = w_u8 w msg_CHANNEL_EXTENDED_DATA;
          w = w_u32 w recipient;
          w = w_u32 w data_type;
          w = w_string w data
      in w)"

definition channel_window_adjust :: "u32 \<Rightarrow> u32 \<Rightarrow> bytes" where
  "channel_window_adjust recipient bytes_to_add =
     (let w = writer_new;
          w = w_u8 w msg_CHANNEL_WINDOW_ADJUST;
          w = w_u32 w recipient;
          w = w_u32 w bytes_to_add
      in w)"

definition channel_eof :: "u32 \<Rightarrow> bytes" where
  "channel_eof recipient =
     (let w = writer_new; w = w_u8 w msg_CHANNEL_EOF; w = w_u32 w recipient in w)"

definition channel_close :: "u32 \<Rightarrow> bytes" where
  "channel_close recipient =
     (let w = writer_new; w = w_u8 w msg_CHANNEL_CLOSE; w = w_u32 w recipient in w)"

section \<open>The channel\<close>

definition channel_new :: "u32 \<Rightarrow> channel" where
  "channel_new local_id =
     \<lparr>ch_local_id = local_id, ch_remote_id = 0, ch_local_window = DEFAULT_WINDOW, ch_remote_window = 0,
      ch_remote_max_packet = 0, ch_unacked = 0, ch_flushed_out = 0, ch_out = [],
      ch_sent_eof = False, ch_sent_close = False, ch_recv_close = False, ch_exit_status = None,
      ch_want_close = False, ch_want_eof = False, ch_pty = None\<rparr>"

definition set_pty :: "pty_info \<Rightarrow> channel \<Rightarrow> channel" where
  "set_pty pty ch = ch\<lparr>ch_pty := Some pty\<rparr>"

definition update_pty_size :: "u16 \<Rightarrow> u16 \<Rightarrow> u32 \<Rightarrow> u32 \<Rightarrow> channel \<Rightarrow> bool \<times> channel" where
  "update_pty_size cols rows width_px height_px ch =
     (case ch_pty ch of
        Some pty \<Rightarrow>
          (True, ch\<lparr>ch_pty := Some (pty\<lparr>pty_cols := cols, pty_rows := rows,
                      pty_width_px := width_px, pty_height_px := height_px\<rparr>)\<rparr>)
      | None \<Rightarrow> (False, ch))"

definition request_close :: "channel \<Rightarrow> channel" where
  "request_close ch = ch\<lparr>ch_want_close := True\<rparr>"

definition request_eof :: "channel \<Rightarrow> channel" where
  "request_eof ch = ch\<lparr>ch_want_eof := True\<rparr>"

definition set_remote :: "u32 \<Rightarrow> u32 \<Rightarrow> u32 \<Rightarrow> channel \<Rightarrow> channel" where
  "set_remote remote_id remote_window remote_max_packet ch =
     ch\<lparr>ch_remote_id := remote_id, ch_remote_window := remote_window,
        ch_remote_max_packet := max remote_max_packet 1\<rparr>"

definition enqueue_stdout :: "bytes \<Rightarrow> channel \<Rightarrow> channel" where
  "enqueue_stdout data ch =
     (if data \<noteq> [] then ch\<lparr>ch_out := ch_out ch @ [\<lparr>oi_ext = False, oi_buf = data, oi_sent = 0\<rparr>]\<rparr> else ch)"

definition enqueue_stderr :: "bytes \<Rightarrow> channel \<Rightarrow> channel" where
  "enqueue_stderr data ch =
     (if data \<noteq> [] then ch\<lparr>ch_out := ch_out ch @ [\<lparr>oi_ext = True, oi_buf = data, oi_sent = 0\<rparr>]\<rparr> else ch)"

definition add_remote_window :: "u32 \<Rightarrow> channel \<Rightarrow> channel" where
  "add_remote_window n ch = ch\<lparr>ch_remote_window := sat_add (ch_remote_window ch) n\<rparr>"

definition out_is_empty :: "channel \<Rightarrow> bool" where
  "out_is_empty ch = (ch_out ch = [])"

text \<open>The payload limit of the next data message, the message for a chunk, and one iteration of the
  draining loop: no message when the queue is empty or the limit is zero. The slice panics when more
  was sent than the buffer holds.\<close>

definition drain_limit :: "u32 option \<Rightarrow> channel \<Rightarrow> nat" where
  "drain_limit max_chunk ch =
     (let limit = unat (min (ch_remote_window ch) (ch_remote_max_packet ch))
      in case max_chunk of Some mc \<Rightarrow> min limit (unat (max mc 1)) | None \<Rightarrow> limit)"

definition data_message :: "u32 \<Rightarrow> bool \<Rightarrow> bytes \<Rightarrow> bytes" where
  "data_message remote_id ext chunk =
     (if ext then channel_extended_data remote_id extended_data_STDERR chunk
      else channel_data remote_id chunk)"

definition drain_step :: "u32 option \<Rightarrow> channel \<Rightarrow> (bytes option \<times> channel) result" where
  "drain_step max_chunk ch =
     (case ch_out ch of
        [] \<Rightarrow> Ok (None, ch)
      | front # rest \<Rightarrow>
          let limit = drain_limit max_chunk ch in
          if limit = 0 then Ok (None, ch)
          else if oi_sent front > length (oi_buf front) then Crash ''attempt to subtract with overflow''
          else
            let n = min (length (oi_buf front) - oi_sent front) limit;
                chunk = take n (drop (oi_sent front) (oi_buf front));
                out_msg = data_message (ch_remote_id ch) (oi_ext front) chunk;
                front = front\<lparr>oi_sent := oi_sent front + n\<rparr>;
                items = (if oi_sent front = length (oi_buf front) then rest else front # rest)
            in Ok (Some out_msg, ch\<lparr>ch_out := items, ch_remote_window := ch_remote_window ch - of_nat n,
                     ch_flushed_out := ch_flushed_out ch + of_nat n\<rparr>))"

definition out_work :: "channel \<Rightarrow> nat" where
  "out_work ch = sum_list (map (\<lambda>i. Suc (length (oi_buf i) - oi_sent i)) (ch_out ch))"

lemma drain_step_progress:
  assumes "drain_step mc ch = Ok (Some m, ch')"
  shows "out_work ch' < out_work ch"
  using assms
  by (auto simp: drain_step_def out_work_def Let_def split: list.splits if_splits)

function drain_output :: "u32 option \<Rightarrow> channel \<Rightarrow> (channel, bytes list) outcome" where
  "drain_output max_chunk ch =
     (case drain_step max_chunk ch of
        Ok (None, ch') \<Rightarrow> (Ok [], ch')
      | Ok (Some m, ch') \<Rightarrow> andThen (drain_output max_chunk ch') (\<lambda>ms ch. (Ok (m # ms), ch))
      | Err e \<Rightarrow> (Err e, ch)
      | Crash e \<Rightarrow> (Crash e, ch))"
  by pat_completeness auto
termination
  by (relation "measure (\<lambda>(mc, ch). out_work ch)") (auto intro: drain_step_progress)

declare drain_output.simps [simp del]

definition consume_incoming :: "u32 \<Rightarrow> channel \<Rightarrow> bool \<times> channel" where
  "consume_incoming len ch =
     (if len > ch_local_window ch then (False, ch)
      else (True, ch\<lparr>ch_local_window := ch_local_window ch - len\<rparr>))"

definition ack_incoming :: "u32 \<Rightarrow> channel \<Rightarrow> u32 option \<times> channel" where
  "ack_incoming len ch =
     (let outstanding = DEFAULT_WINDOW - ch_local_window ch;
          unacked = min (sat_add (ch_unacked ch) len) outstanding
      in if unacked \<ge> DEFAULT_WINDOW div 2 \<or> (ch_local_window ch = 0 \<and> unacked > 0)
         then (Some unacked, ch\<lparr>ch_unacked := 0, ch_local_window := ch_local_window ch + unacked\<rparr>)
         else (None, ch\<lparr>ch_unacked := unacked\<rparr>))"

definition take_flushed_out :: "channel \<Rightarrow> u64 \<times> channel" where
  "take_flushed_out ch = (ch_flushed_out ch, ch\<lparr>ch_flushed_out := 0\<rparr>)"

section \<open>Lemmas on draining\<close>

text \<open>What a channel promises about its output: the queued bytes, each tagged with its stream (stderr or
  not), form one sequence. No queued item is already finished.\<close>

definition out_stream :: "channel \<Rightarrow> (bool \<times> byte) list" where
  "out_stream ch = concat (map (\<lambda>i. map (Pair (oi_ext i)) (drop (oi_sent i) (oi_buf i))) (ch_out ch))"

definition items_ok :: "channel \<Rightarrow> bool" where
  "items_ok ch \<longleftrightarrow> (\<forall>i\<in>set (ch_out ch). oi_sent i < length (oi_buf i))"

definition chunk_fits :: "u32 option \<Rightarrow> channel \<Rightarrow> bytes \<Rightarrow> bool" where
  "chunk_fits mc ch c \<longleftrightarrow> c \<noteq> [] \<and> length c \<le> unat (ch_remote_max_packet ch) \<and>
     (\<forall>m. mc = Some m \<longrightarrow> length c \<le> unat (max m 1))"

lemma drain_limit_bounds:
  "drain_limit mc ch \<le> unat (ch_remote_window ch)" "drain_limit mc ch \<le> unat (ch_remote_max_packet ch)"
  "mc = Some m \<Longrightarrow> drain_limit mc ch \<le> unat (max m 1)"
  by (auto simp: drain_limit_def Let_def min_def word_le_nat_alt split: option.splits)

lemma drain_limit_zero:
  assumes "1 \<le> ch_remote_max_packet ch"
  shows "drain_limit mc ch = 0 \<longleftrightarrow> ch_remote_window ch = 0"
proof -
  have "unat (max m 1) \<noteq> 0" for m :: u32 by (auto simp: max_def unat_eq_zero)
  moreover have "ch_remote_max_packet ch \<noteq> 0" using assms by auto
  ultimately show ?thesis
    by (auto simp: drain_limit_def Let_def min_def unat_eq_zero split: option.splits if_splits)
qed

lemma drain_step_items:
  assumes "items_ok ch"
  shows "drain_step mc ch \<noteq> Crash e" "drain_step mc ch \<noteq> Err e'"
  using assms by (auto simp: drain_step_def items_ok_def Let_def split: list.splits)

lemma drain_step_sends:
  assumes ok: "items_ok ch" and st: "drain_step mc ch = Ok (Some m, ch')"
  obtains e c where "m = data_message (ch_remote_id ch) e c" and "chunk_fits mc ch c"
    and "length c \<le> unat (ch_remote_window ch)" and "out_stream ch = map (Pair e) c @ out_stream ch'"
    and "items_ok ch'" and "ch' = ch\<lparr>ch_out := ch_out ch', ch_remote_window := ch_remote_window ch - of_nat (length c),
        ch_flushed_out := ch_flushed_out ch + of_nat (length c)\<rparr>"
proof -
  let ?l = "drain_limit mc ch"
  obtain i rest where o: "ch_out ch = i # rest" and l: "?l \<noteq> 0"
    using st by (auto simp: drain_step_def Let_def split: list.splits if_splits)
  have i: "oi_sent i < length (oi_buf i)" and r: "\<forall>j\<in>set rest. oi_sent j < length (oi_buf j)"
    using ok o by (simp_all add: items_ok_def)
  define n where "n = min (length (oi_buf i) - oi_sent i) ?l"
  define c where "c = take n (drop (oi_sent i) (oi_buf i))"
  have n: "0 < n" "oi_sent i + n \<le> length (oi_buf i)" "n \<le> ?l" using i l by (auto simp: n_def)
  have lc: "length c = n" using n(2) by (simp add: c_def)
  let ?items = "if oi_sent i + n = length (oi_buf i) then rest else i\<lparr>oi_sent := oi_sent i + n\<rparr> # rest"
  have st': "m = data_message (ch_remote_id ch) (oi_ext i) c"
    "ch' = ch\<lparr>ch_out := ?items, ch_remote_window := ch_remote_window ch - of_nat n, ch_flushed_out := ch_flushed_out ch + of_nat n\<rparr>"
    using st i l unfolding drain_step_def o list.case Let_def n_def [symmetric] c_def [symmetric] by simp_all
  have split: "drop (oi_sent i) (oi_buf i) = c @ drop (oi_sent i + n) (oi_buf i)"
    by (metis append_take_drop_id c_def drop_drop add.commute)
  have "out_stream ch = map (Pair (oi_ext i)) c @ out_stream ch'"
    using n(2) by (simp add: out_stream_def o st'(2) split)
  moreover have "items_ok ch'" using n(2) r by (simp add: st'(2) items_ok_def)
  moreover have "chunk_fits mc ch c"
    using n lc drain_limit_bounds(2) [of mc ch] drain_limit_bounds(3) [of mc _ ch] by (fastforce simp: chunk_fits_def)
  moreover have "length c \<le> unat (ch_remote_window ch)" using n(3) lc drain_limit_bounds(1) [of mc ch] by simp
  ultimately show thesis by (intro that [of "oi_ext i" c]) (simp_all add: st' lc)
qed

lemma drain_output_spec:
  "items_ok ch \<Longrightarrow> 1 \<le> ch_remote_max_packet ch \<Longrightarrow>
   \<exists>chunks items n. n = min (unat (ch_remote_window ch)) (length (out_stream ch)) \<and>
     drain_output mc ch = (Ok (map (\<lambda>(e, c). data_message (ch_remote_id ch) e c) chunks),
       ch\<lparr>ch_out := items, ch_remote_window := ch_remote_window ch - of_nat n, ch_flushed_out := ch_flushed_out ch + of_nat n\<rparr>) \<and>
     concat (map (\<lambda>(e, c). map (Pair e) c) chunks) = take n (out_stream ch) \<and>
     out_stream (ch\<lparr>ch_out := items\<rparr>) = drop n (out_stream ch) \<and> items_ok (ch\<lparr>ch_out := items\<rparr>) \<and>
     (\<forall>(e, c)\<in>set chunks. chunk_fits mc ch c)"
proof (induction mc ch rule: drain_output.induct)
  case (1 mc ch)
  note IH = "1.IH" and ok = "1.prems"(1) and mp = "1.prems"(2)
  show ?case
  proof (cases "drain_step mc ch")
    case (Ok v)
    obtain mo ch' where v: "v = (mo, ch')" by fastforce
    show ?thesis
    proof (cases mo)
      case None
      have "ch' = ch" "ch_out ch = [] \<or> ch_remote_window ch = 0"
        using Ok v None drain_limit_zero [OF mp, of mc]
        by (auto simp: drain_step_def Let_def split: list.splits if_splits)
      then have n: "min (unat (ch_remote_window ch)) (length (out_stream ch)) = 0" "ch' = ch"
        by (auto simp: out_stream_def)
      have d: "drain_output mc ch = (Ok [], ch)" by (subst drain_output.simps) (simp add: Ok v None n(2))
      show ?thesis
        by (rule exI [of _ "[]"], rule exI [of _ "ch_out ch"]) (use d ok in \<open>simp add: n(1)\<close>)
    next
      case (Some m)
      obtain e c where c: "m = data_message (ch_remote_id ch) e c" "chunk_fits mc ch c"
        "length c \<le> unat (ch_remote_window ch)" "out_stream ch = map (Pair e) c @ out_stream ch'" "items_ok ch'"
        "ch' = ch\<lparr>ch_out := ch_out ch', ch_remote_window := ch_remote_window ch - of_nat (length c),
          ch_flushed_out := ch_flushed_out ch + of_nat (length c)\<rparr>"
        using Ok v Some drain_step_sends [OF ok] by metis
      have same: "ch_remote_id ch' = ch_remote_id ch" "ch_remote_max_packet ch' = ch_remote_max_packet ch"
        "chunk_fits mc ch' = chunk_fits mc ch"
        by (subst c(6), simp add: chunk_fits_def fun_eq_iff)+
      have rw: "unat (ch_remote_window ch') = unat (ch_remote_window ch) - length c"
      proof -
        have "unat (ch_remote_window ch) < 2 ^ LENGTH(32)" by (rule unsigned_less)
        from le_less_trans [OF c(3) this] have "length c < 2 ^ 32" by simp
        then show ?thesis using c(3) by (subst c(6)) (simp add: unat_sub word_le_nat_alt unat_of_nat)
      qed
      obtain chunks items n where r: "n = min (unat (ch_remote_window ch')) (length (out_stream ch'))"
        "drain_output mc ch' = (Ok (map (\<lambda>(e, c). data_message (ch_remote_id ch) e c) chunks),
           ch'\<lparr>ch_out := items, ch_remote_window := ch_remote_window ch' - of_nat n, ch_flushed_out := ch_flushed_out ch' + of_nat n\<rparr>)"
        "concat (map (\<lambda>(e, c). map (Pair e) c) chunks) = take n (out_stream ch')"
        "out_stream (ch'\<lparr>ch_out := items\<rparr>) = drop n (out_stream ch')" "items_ok (ch'\<lparr>ch_out := items\<rparr>)"
        "\<forall>(e, c)\<in>set chunks. chunk_fits mc ch c"
        using IH [OF Ok [unfolded v Some] refl refl c(5)] mp same by auto
      define k where "k = length c + n"
      have k: "k = min (unat (ch_remote_window ch)) (length (out_stream ch))"
        using c(3,4) r(1) rw by (simp add: k_def)
      have res: "ch'\<lparr>ch_out := items, ch_remote_window := ch_remote_window ch' - of_nat n, ch_flushed_out := ch_flushed_out ch' + of_nat n\<rparr>
          = ch\<lparr>ch_out := items, ch_remote_window := ch_remote_window ch - of_nat k, ch_flushed_out := ch_flushed_out ch + of_nat k\<rparr>"
        by (subst (1 2 3) c(6)) (simp add: k_def)
      have d: "drain_output mc ch = (Ok (m # map (\<lambda>(e, c). data_message (ch_remote_id ch) e c) chunks),
          ch\<lparr>ch_out := items, ch_remote_window := ch_remote_window ch - of_nat k, ch_flushed_out := ch_flushed_out ch + of_nat k\<rparr>)"
        by (subst drain_output.simps) (simp add: Ok v Some r(2) res)
      have o: "out_stream (ch\<lparr>ch_out := items\<rparr>) = drop k (out_stream ch)" "items_ok (ch\<lparr>ch_out := items\<rparr>)"
        using r(4,5) c(4) by (simp_all add: out_stream_def items_ok_def k_def)
      have t: "concat (map (\<lambda>(e, c). map (Pair e) c) ((e, c) # chunks)) = take k (out_stream ch)"
        by (simp add: r(3) c(4) k_def)
      show ?thesis
        by (intro exI [of _ "(e, c) # chunks"] exI [of _ items] exI [of _ k] conjI)
          (use k d o t r(6) c(1,2) in simp_all)
    qed
  qed (use drain_step_items [OF ok] in auto)
qed

section \<open>Lemmas on the receive window\<close>

definition window_ok :: "channel \<Rightarrow> bool" where
  "window_ok ch \<longleftrightarrow> unat (ch_local_window ch) + unat (ch_unacked ch) \<le> unat DEFAULT_WINDOW"

lemma default_window: "unat DEFAULT_WINDOW = 1048576" "unat (DEFAULT_WINDOW div 2) = 524288"
  by (simp_all add: DEFAULT_WINDOW_def)

lemma consume_incoming_window:
  assumes "consume_incoming len ch = (True, ch')"
  shows "unat (ch_local_window ch') + unat len = unat (ch_local_window ch)" and "ch_unacked ch' = ch_unacked ch"
  using assms by (auto simp: consume_incoming_def unat_sub word_le_nat_alt not_less split: if_splits)

lemma ack_incoming_window:
  assumes ok: "window_ok ch" and a: "ack_incoming len ch = (r, ch')"
  shows "window_ok ch'"
    and "unat (ch_local_window ch') = unat (ch_local_window ch) + (case r of None \<Rightarrow> 0 | Some n \<Rightarrow> unat n)"
    and "unat (ch_unacked ch') + (case r of None \<Rightarrow> 0 | Some n \<Rightarrow> unat n) \<le> unat (ch_unacked ch) + unat len"
proof -
  define out where "out = DEFAULT_WINDOW - ch_local_window ch"
  define un where "un = min (sat_add (ch_unacked ch) len) out"
  have le: "ch_local_window ch \<le> DEFAULT_WINDOW" using ok by (simp add: window_ok_def word_le_nat_alt)
  then have uo: "unat out = unat DEFAULT_WINDOW - unat (ch_local_window ch)" by (simp add: out_def unat_sub)
  have un: "unat un \<le> unat out" "unat un \<le> unat (ch_unacked ch) + unat len"
    by (auto simp: un_def min_def unat_sat_add word_le_nat_alt)
  have sum: "unat (ch_local_window ch) + unat un \<le> 1048576"
    using un(1) uo le by (simp add: word_le_nat_alt default_window)
  then have add: "unat (ch_local_window ch + un) = unat (ch_local_window ch) + unat un"
    by (simp add: unat_word_ariths)
  have "r = Some un \<and> ch' = ch\<lparr>ch_unacked := 0, ch_local_window := ch_local_window ch + un\<rparr> \<or>
    r = None \<and> ch' = ch\<lparr>ch_unacked := un\<rparr>"
    using a by (auto simp: ack_incoming_def Let_def out_def un_def split: if_splits)
  then show "window_ok ch'"
    "unat (ch_local_window ch') = unat (ch_local_window ch) + (case r of None \<Rightarrow> 0 | Some n \<Rightarrow> unat n)"
    "unat (ch_unacked ch') + (case r of None \<Rightarrow> 0 | Some n \<Rightarrow> unat n) \<le> unat (ch_unacked ch) + unat len"
    using add sum un(2) by (auto simp: window_ok_def default_window)
qed

text \<open>A channel's life as its receive window sees it: data accepted from the peer, data the application has
  consumed, and credit granted back to the peer, in bytes.\<close>

inductive flow :: "channel \<Rightarrow> nat \<Rightarrow> nat \<Rightarrow> nat \<Rightarrow> bool" where
  flow_new: "flow (channel_new local_id) 0 0 0"
| flow_recv: "flow ch a k g \<Longrightarrow> consume_incoming len ch = (True, ch') \<Longrightarrow> flow ch' (a + unat len) k g"
| flow_ack: "flow ch a k g \<Longrightarrow> ack_incoming len ch = (r, ch') \<Longrightarrow>
    flow ch' a (k + unat len) (g + (case r of None \<Rightarrow> 0 | Some n \<Rightarrow> unat n))"
| flow_other: "flow ch a k g \<Longrightarrow> ch_local_window ch' = ch_local_window ch \<Longrightarrow> ch_unacked ch' = ch_unacked ch \<Longrightarrow>
    flow ch' a k g"

lemma flow_inv:
  "flow ch a k g \<Longrightarrow> window_ok ch \<and> a + unat (ch_local_window ch) = 1048576 + g \<and> g + unat (ch_unacked ch) \<le> k"
proof (induction rule: flow.induct)
  case (flow_new local_id)
  then show ?case by (simp add: channel_new_def window_ok_def default_window)
next
  case (flow_recv ch a k g len ch')
  then show ?case using consume_incoming_window [OF flow_recv.hyps(2)] by (simp add: window_ok_def)
next
  case (flow_ack ch a k g len r ch')
  from ack_incoming_window [OF _ flow_ack.hyps(2)] flow_ack.IH show ?case by auto
qed (simp add: window_ok_def)

section \<open>Properties\<close>

text \<open>C31: Draining implements the byte stream. The queued output of a channel is one sequence of bytes, each
  marked stdout or stderr. Draining emits exactly the longest prefix of it that the peer's window
  admits, in order, in data messages of the right kind, none empty and none longer than the peer's
  maximum packet or the obfuscation cap; the rest stays queued, and window and flush counter move by
  exactly the number of bytes sent. The loop always ends and never panics.\<close>

theorem drain_output_refines:
  assumes "items_ok ch" and "1 \<le> ch_remote_max_packet ch"
  shows "\<exists>chunks s. drain_output mc ch = (Ok (map (\<lambda>(e, c). data_message (ch_remote_id ch) e c) chunks), s) \<and>
    (let n = min (unat (ch_remote_window ch)) (length (out_stream ch)) in
      concat (map (\<lambda>(e, c). map (Pair e) c) chunks) = take n (out_stream ch) \<and>
      out_stream s = drop n (out_stream ch) \<and> items_ok s \<and>
      ch_remote_window s = ch_remote_window ch - of_nat n \<and> ch_flushed_out s = ch_flushed_out ch + of_nat n \<and>
      (\<forall>(e, c)\<in>set chunks. chunk_fits mc ch c))"
proof -
  obtain chunks items n where r: "n = min (unat (ch_remote_window ch)) (length (out_stream ch))"
     "drain_output mc ch = (Ok (map (\<lambda>(e, c). data_message (ch_remote_id ch) e c) chunks),
       ch\<lparr>ch_out := items, ch_remote_window := ch_remote_window ch - of_nat n, ch_flushed_out := ch_flushed_out ch + of_nat n\<rparr>)"
     "concat (map (\<lambda>(e, c). map (Pair e) c) chunks) = take n (out_stream ch)"
     "out_stream (ch\<lparr>ch_out := items\<rparr>) = drop n (out_stream ch)" "items_ok (ch\<lparr>ch_out := items\<rparr>)"
     "\<forall>(e, c)\<in>set chunks. chunk_fits mc ch c"
    using drain_output_spec [OF assms, of mc] by blast
  show ?thesis unfolding Let_def r(1) [symmetric]
    by (rule exI, rule exI, rule conjI, rule r(2)) (use r(3-6) in \<open>simp add: out_stream_def items_ok_def\<close>)
qed

theorem drain_output_refines_witness:
  "\<exists>ms s. drain_output None (enqueue_stdout [1, 2, 3, 4, 5] (set_remote 7 3 2 (channel_new 0))) = (Ok ms, s) \<and>
     out_stream s = [(False, 4), (False, 5)] \<and> ch_remote_window s = 0"
proof -
  let ?ch = "enqueue_stdout [1, 2, 3, 4, 5] (set_remote 7 3 2 (channel_new 0))"
  have "items_ok ?ch" "1 \<le> ch_remote_max_packet ?ch" "ch_remote_window ?ch = 3"
    "out_stream ?ch = [(False, 1), (False, 2), (False, 3), (False, 4), (False, 5)]"
    by (simp_all add: items_ok_def enqueue_stdout_def set_remote_def channel_new_def out_stream_def max_def word_le_nat_alt)
  with drain_output_refines [of ?ch None] show ?thesis by (auto simp: Let_def)
qed

text \<open>C32: Flow control bounds what the peer can make us hold. Over any sequence of received data,
  application consumption and other channel operations: bytes accepted and window left always sum to
  the initial window plus the credit granted, credit is never granted for bytes not yet consumed, so
  at most the default window of one mebibyte is ever unconsumed; data beyond the window is refused and
  leaves the channel unchanged; and a peer stalled at a zero window is always released by the next
  consumed byte.\<close>

theorem flow_control_bounded:
  assumes "flow ch accepted acked granted"
  shows "accepted \<le> acked + unat DEFAULT_WINDOW \<and> granted \<le> acked \<and>
    accepted + unat (ch_local_window ch) = unat DEFAULT_WINDOW + granted \<and>
    (accepted + unat len > unat DEFAULT_WINDOW + granted \<longrightarrow> consume_incoming len ch = (False, ch)) \<and>
    (ch_local_window ch = 0 \<and> len > 0 \<longrightarrow> (\<exists>n ch'. ack_incoming len ch = (Some n, ch') \<and> n > 0 \<and> ch_local_window ch' = n))"
proof -
  note inv = flow_inv [OF assms]
  have "\<exists>n ch'. ack_incoming len ch = (Some n, ch') \<and> n > 0 \<and> ch_local_window ch' = n"
    if z: "ch_local_window ch = 0" "len > 0"
  proof -
    have s: "sat_add (ch_unacked ch) len > 0" using z(2) by (simp add: word_less_nat_alt unat_sat_add)
    have "min (sat_add (ch_unacked ch) len) DEFAULT_WINDOW > 0" using s by (simp add: DEFAULT_WINDOW_def)
    with z show ?thesis by (simp add: ack_incoming_def Let_def)
  qed
  moreover have "consume_incoming len ch = (False, ch)" if "accepted + unat len > unat DEFAULT_WINDOW + granted"
    using that inv by (simp add: consume_incoming_def word_less_nat_alt default_window)
  ultimately show ?thesis using inv by (auto simp: default_window)
qed

theorem flow_control_bounded_witness:
  "consume_incoming 1048576 (snd (consume_incoming 1 (channel_new 5))) = (False, snd (consume_incoming 1 (channel_new 5)))"
proof -
  have "consume_incoming 1 (channel_new 5) = (True, snd (consume_incoming 1 (channel_new 5)))"
    by (simp add: consume_incoming_def channel_new_def DEFAULT_WINDOW_def)
  from flow_recv [OF flow_new this] have "flow (snd (consume_incoming 1 (channel_new 5))) 1 0 0" by simp
  from flow_control_bounded [OF this, of 1048576] show ?thesis by (simp add: default_window)
qed

end
