(* ===== verification/Session_Base.thy ===== *)
theory Session_Base
  imports Transport_Stream Connection
begin

text \<open>
  What the client and the server session share: how a method of the enclosing object calls a method of
  its transport, what such calls leave alone (they report no event, so the loops over the transport's
  events end), and the well-formedness of the optional channel.
\<close>

section \<open>Calling a component\<close>

text \<open>A call on a field: the field's new value is stored, the result is the call's.\<close>

definition on_field :: "('s \<Rightarrow> 't) \<Rightarrow> ('t \<Rightarrow> 's \<Rightarrow> 's) \<Rightarrow> ('t \<Rightarrow> ('t, 'a) outcome) \<Rightarrow> 's \<Rightarrow> ('s, 'a) outcome" where
  "on_field get put f s = (let (r, t) = f (get s) in (r, put t s))"

lemma keeps_on_field: "(\<And>r t. f (get s) = (r, t) \<Longrightarrow> I (put t s)) \<Longrightarrow> keeps I (on_field get put f s)"
  by (simp add: on_field_def keeps_def split: prod.splits)

lemma holds_on_field:
  assumes "holds J (f (get s))" and "\<And>r t. f (get s) = (r, t) \<Longrightarrow> J t \<Longrightarrow> I (put t s)"
  shows "holds I (on_field get put f s)"
  using assms by (cases "f (get s)") (simp add: on_field_def holds_def)

text \<open>A loop through \<open>andThen\<close> runs on the state the first call returned.\<close>

lemma andThen_cong [fundef_cong]:
  "m = m' \<Longrightarrow> (\<And>x s. m' = (Ok x, s) \<Longrightarrow> k x s = k' x s) \<Longrightarrow> andThen m k = andThen m' k'"
  by (cases m') (auto simp: andThen_def split: result.splits)

section \<open>What sending leaves alone\<close>

text \<open>\<open>calm a b\<close>: from \<open>a\<close> to \<open>b\<close> nothing was read, nothing reported, and nothing written if closing.\<close>

definition calm :: "('r, 'z) transport \<Rightarrow> ('r, 'z) transport \<Rightarrow> bool" where
  "calm a b \<longleftrightarrow> t_events b = t_events a \<and> t_phase b = t_phase a \<and> t_session_id b = t_session_id a \<and>
     t_role b = t_role a \<and> t_rx b = t_rx a \<and> t_rx_pos b = t_rx_pos a \<and>
     (t_closing a \<longrightarrow> t_closing b \<and> t_tx b = t_tx a)"

lemma calm_refl [simp]: "calm a a"
  by (simp add: calm_def)

lemma calm_trans: "calm a b \<Longrightarrow> calm b c \<Longrightarrow> calm a c"
  by (simp add: calm_def)

lemma calm_updates:
  assumes "calm a t"
  shows "calm a (t\<lparr>t_rng := r\<rparr>)" "calm a (t\<lparr>t_closing := True\<rparr>)"
    "calm a (t\<lparr>t_local_kexinit := pl, t_kexinit_sent := b\<rparr>)" "calm a (t\<lparr>t_tx_app_queue := q\<rparr>)"
    "calm a (t\<lparr>t_bytes_since_rekey := w\<rparr>)"
    "calm a (t\<lparr>t_rekeying := b, t_sent_newkeys := b1, t_recv_newkeys := b2, t_peer_kexinit := k,
       t_negotiated := n, t_kex_eph := e, t_skip_guess := b3\<rparr>)"
  using assms by (simp_all add: calm_def)

lemma calm_write_packet: "calm a t \<Longrightarrow> keeps (calm a) (write_packet P p t)"
proof -
  assume a: "calm a t"
  obtain r s where w: "write_packet P p t = (r, s)" by fastforce
  have "t_closing t \<longrightarrow> t_closing s \<and> t_tx s = t_tx t" using w by (auto simp: write_packet_def)
  with write_packet_wframe [OF w] a show ?thesis by (simp add: keeps_def w calm_def wframe_def)
qed

lemma calm_disconnect: "calm a t \<Longrightarrow> keeps (calm a) (disconnect P reason d t)"
  unfolding disconnect_def by (intro keep_intros calm_write_packet calm_updates)

lemma calm_send_kexinit: "calm a t \<Longrightarrow> keeps (calm a) (send_kexinit P t)"
  unfolding send_kexinit_def by (intro keep_intros calm_write_packet calm_updates)

lemma calm_initiate_rekey: "calm a t \<Longrightarrow> keeps (calm a) (initiate_rekey P t)"
  unfolding initiate_rekey_def begin_rekey_round_def by (intro keep_intros calm_send_kexinit calm_updates)

lemma calm_send_packet: "calm a t \<Longrightarrow> keeps (calm a) (send_packet P p t)"
  unfolding send_packet_def
  by (intro keeps_Let_state keep_intros calm_write_packet calm_initiate_rekey calm_updates)

lemma calm_send_packets: "calm a t \<Longrightarrow> keeps (calm a) (send_packets P ps t)"
  by (induction ps arbitrary: t) (auto intro!: keep_intros calm_send_packet)

lemma calm_build_chaff: "calm a t \<Longrightarrow> build_chaff P t = (m, s) \<Longrightarrow> calm a s"
  by (auto simp: build_chaff_def Let_def calm_def split: prod.splits)

lemma calm_chaff_loop: "calm a t \<Longrightarrow> keeps (calm a) (chaff_loop P n t)"
proof (induction n arbitrary: t)
  case (Suc n)
  obtain m s where b: "build_chaff P t = (m, s)" by fastforce
  have "keeps (calm a) (send_packet P m s)" by (rule calm_send_packet [OF calm_build_chaff [OF Suc.prems b]])
  then show ?case using Suc.IH by (simp add: b keeps_andThen)
qed (simp add: keeps_def)

lemma calm_send_chaff: "calm a t \<Longrightarrow> keeps (calm a) (send_chaff P t)"
  by (cases "build_chaff P t") (simp add: send_chaff_def keeps_return calm_send_packet calm_build_chaff)

lemma calm_send_chaff_burst: "calm a t \<Longrightarrow> keeps (calm a) (send_chaff_burst P t)"
  unfolding send_chaff_burst_def by (intro keep_intros calm_chaff_loop calm_updates)

lemmas calm_ops = calm_disconnect calm_send_packet calm_send_packets calm_send_chaff_burst calm_send_chaff
  calm_initiate_rekey

lemma calm_result: "f t = (r, s) \<Longrightarrow> keeps (calm t) (f t) \<Longrightarrow> calm t s"
  by (simp add: keeps_def)

section \<open>Sending succeeds\<close>

lemma send_kexinit_Ok:
  assumes P: "prims_safe P" and "offers_ok t"
  shows "fst (send_kexinit P t) = Ok ()"
proof -
  obtain seed rng where sd: "fill_bytes P 32 (t_rng t) = (seed, rng)" by fastforce
  have "length (shake128 P seed 16) = 16" using prims_safe_laws(1) [OF P] by (simp add: sizes)
  note len = kexinit_payload_length [OF assms(2) this, of "feature_sntrup761 P" "t_role t = Server"]
  obtain s where "write_packet P (ki_payload (ours_with (feature_sntrup761 P) (shake128 P seed 16) (t_role t = Server)
      (case t_offered_ciphers t of Some pref \<Rightarrow> pref | None \<Rightarrow> CIPHERS)
      (case t_offered_compression t of Some pref \<Rightarrow> pref | None \<Rightarrow> COMPRESSIONS))) (t\<lparr>t_rng := rng\<rparr>) = (Ok (), s)"
    by (rule write_packet_Ok [OF P len])
  then show ?thesis by (simp add: send_kexinit_def Let_def sd)
qed

lemma send_packet_Ok:
  assumes P: "prims_safe P" and t: "t_wf t" "t_phase t = PhaseEstablished" and len: "length p \<le> payload_max"
  obtains s where "send_packet P p t = (Ok (), s)"
proof -
  have rekey: "fst (initiate_rekey P u) = Ok ()" if "offers_ok u" for u :: "('a, 'b) transport"
    using send_kexinit_Ok [OF P, of "u\<lparr>t_rekeying := True, t_sent_newkeys := False, t_recv_newkeys := False,
        t_peer_kexinit := None, t_negotiated := None, t_kex_eph := None, t_skip_guess := False\<rparr>"] that
    by (simp add: initiate_rekey_def begin_rekey_round_def offers_ok_def)
  obtain u where u: "write_packet P p t = (Ok (), u)" "wframe t u" by (rule write_packet_Ok [OF P len])
  have "offers_ok u" using t(1) u(2) by (simp add: t_wf_def wframe_def offers_ok_def)
  then have "offers_ok (u\<lparr>t_bytes_since_rekey := w\<rparr>)" for w by (simp add: offers_ok_def)
  with u(1) t(2) rekey have "fst (send_packet P p t) = Ok ()"
    by (simp add: send_packet_def Let_def)
  then show thesis using that by (cases "send_packet P p t") simp
qed

lemma disconnect_closes:
  assumes "prims_safe P" and "length d \<le> 1024"
  obtains t' where "disconnect P reason d t = (Ok (), t')" and "t_closing t'"
proof -
  have "length (disconnect_msg reason d) \<le> payload_max" using assms(2) by (simp add: disconnect_msg_def writer_simps payload_max_def)
  then obtain u where "write_packet P (disconnect_msg reason d) t = (Ok (), u)"
    using write_packet_Ok [OF assms(1), of "disconnect_msg reason d" t] by blast
  then show thesis by (cases "t_closing t") (auto simp: disconnect_def intro: that)
qed

section \<open>What the transport reports\<close>

text \<open>Packet events are reported only once established, and are short.\<close>

definition events_ok :: "('r, 'z) prims \<Rightarrow> ('r, 'z) transport \<Rightarrow> bool" where
  "events_ok P t \<longleftrightarrow> (prims_safe P \<longrightarrow> (\<forall>p. Packet p \<in> set (t_events t) \<longrightarrow>
     length p \<le> MAX_PACKET_LENGTH \<and> t_phase t = PhaseEstablished))"

lemma opened_short: "prims_safe P \<Longrightarrow> opened P p \<Longrightarrow> length p \<le> MAX_PACKET_LENGTH"
proof -
  assume P: "prims_safe P" and "opened P p"
  then obtain q t s where q: "length q \<le> MAX_PACKET_LENGTH" "decompress_in P q t = (Ok p, s)"
    unfolding opened_def by blast
  show ?thesis
  proof (cases "t_comp_in t")
    case DecompNone
    with q show ?thesis by (simp add: decompress_in_def)
  next
    case (DecompZlib d)
    from decompress_loop_returns [OF prims_safe_laws(3,4) [OF P], of "total_in P d" d q "[]" "64 + length q * 2"]
    show ?thesis using q(2) DecompZlib by (auto simp: decompress_in_def decompress_def Let_def split: prod.splits)
  qed
qed

lemma events_ok_same:
  "events_ok P a \<Longrightarrow> t_events b = t_events a \<Longrightarrow> t_phase b = t_phase a \<Longrightarrow> events_ok P b"
  by (simp add: events_ok_def)

lemma events_ok_wframe: "events_ok P a \<Longrightarrow> wframe a b \<Longrightarrow> events_ok P b"
  by (simp add: events_ok_def wframe_def)

lemma events_ok_write_packets: "events_ok P t \<Longrightarrow> keeps (events_ok P) (write_packets P ps t)"
  using write_packets_wframe [of P ps t] events_ok_wframe
  by (cases "write_packets P ps t") (auto simp: keeps_def)

lemma events_ok_write_packet: "events_ok P t \<Longrightarrow> keeps (events_ok P) (write_packet P p t)"
  using write_packet_wframe [of P p t] events_ok_wframe by (cases "write_packet P p t") (auto simp: keeps_def)

lemma events_ok_maybe_complete_kex: "events_ok P t \<Longrightarrow> keeps (events_ok P) (maybe_complete_kex P t)"
  unfolding maybe_complete_kex_def Let_def
  by (intro keep_intros events_ok_write_packets) (auto simp: events_ok_def)

lemma events_ok_send_newkeys: "events_ok P t \<Longrightarrow> keeps (events_ok P) (send_newkeys P t)"
  unfolding send_newkeys_def
  by (intro keep_intros events_ok_write_packet events_ok_maybe_complete_kex)
    (auto elim: events_ok_same split: option.splits)

lemma events_ok_on_newkeys: "events_ok P t \<Longrightarrow> keeps (events_ok P) (on_newkeys P t)"
  unfolding on_newkeys_def
  by (intro keep_intros events_ok_maybe_complete_kex) (auto elim: events_ok_same)

lemma events_ok_finish_kex: "events_ok P t \<Longrightarrow> keeps (events_ok P) (finish_kex P h k hash t)"
  unfolding finish_kex_def Let_def by (intro keep_intros) (auto elim: events_ok_same)

interpretation reported: transport_invariant P "events_ok P" for P
proof
  fix t :: "('a, 'b) transport" and h k hash p
  assume t: "events_ok P t"
  show "keeps (events_ok P) (write_packet P p t)" "keeps (events_ok P) (on_newkeys P t)"
    by (simp_all add: t events_ok_write_packet events_ok_on_newkeys)
  show "keeps (events_ok P) (send_ecdh_init P t)"
    unfolding send_ecdh_init_def
    by (intro keep_intros events_ok_write_packet) (use t in \<open>auto elim: events_ok_same\<close>)
  show "keeps (events_ok P) (andThen (finish_kex P h k hash t) (\<lambda>_ t. send_newkeys P t))"
    by (intro keep_intros events_ok_finish_kex events_ok_send_newkeys t)
qed (auto simp: events_ok_def accept_kexinit_def activate_compression_def compact_rx_def Let_def opened_short)

text \<open>An established transport stays established.\<close>

definition up :: "('r, 'z) transport \<Rightarrow> bool" where
  "up t \<longleftrightarrow> t_phase t = PhaseEstablished"

interpretation established: framed_invariant P up for P
  by unfold_locales (auto simp: up_def tframe_def compact_rx_def)

lemma established_stays: "t_phase t = PhaseEstablished \<longrightarrow> t_phase (snd (on_input P data t)) = PhaseEstablished"
  using established.keep_on_input [of t P data] by (simp add: keeps_def up_def)

section \<open>The channel of a session\<close>

definition channel_wf :: "channel \<Rightarrow> bool" where
  "channel_wf ch \<longleftrightarrow> items_ok ch \<and> window_ok ch"

lemma channel_wf_updates:
  assumes "channel_wf ch"
  shows "channel_wf (set_pty p ch)" "channel_wf (enqueue_stdout d ch)" "channel_wf (enqueue_stderr d ch)"
    "channel_wf (add_remote_window w ch)" "channel_wf (request_close ch)" "channel_wf (request_eof ch)"
    "channel_wf (snd (update_pty_size c r x y ch))" "channel_wf (snd (consume_incoming n ch))"
    "channel_wf (snd (ack_incoming n ch))" "channel_wf (snd (take_flushed_out ch))"
    "channel_wf (ch\<lparr>ch_exit_status := st\<rparr>)" "channel_wf (ch\<lparr>ch_sent_eof := b, ch_sent_close := b'\<rparr>)"
    "channel_wf (ch\<lparr>ch_sent_eof := b\<rparr>)" "channel_wf (ch\<lparr>ch_recv_close := b, ch_sent_close := b'\<rparr>)"
    "channel_wf (ch\<lparr>ch_recv_close := b\<rparr>)" "channel_wf (ch\<lparr>ch_sent_close := b\<rparr>)"
    "channel_wf (set_remote i w m ch)"
proof -
  show "channel_wf (snd (ack_incoming n ch))"
    using assms ack_incoming_window(1) [of ch n] items_ok_def
    by (cases "ack_incoming n ch") (auto simp: channel_wf_def ack_incoming_def Let_def items_ok_def split: if_splits)
  show "channel_wf (snd (consume_incoming n ch))"
    using assms consume_incoming_window [of n ch]
    by (cases "consume_incoming n ch")
      (auto simp: channel_wf_def consume_incoming_def items_ok_def window_ok_def split: if_splits)
qed (use assms in \<open>auto simp: channel_wf_def items_ok_def window_ok_def set_pty_def enqueue_stdout_def enqueue_stderr_def
    add_remote_window_def request_close_def request_eof_def update_pty_size_def take_flushed_out_def set_remote_def
    split: option.splits\<close>)

lemma channel_wf_new: "channel_wf (channel_new i)"
  by (simp add: channel_wf_def items_ok_def window_ok_def channel_new_def)

lemma length_data_message: "length (data_message rid e c) \<le> length c + 13"
  by (simp add: data_message_def channel_data_def channel_extended_data_def writer_simps)

text \<open>Draining a well-formed channel never panics, whatever the peer announced.\<close>

lemma drain_output_calm:
  "channel_wf ch \<Longrightarrow> \<exists>ms s. drain_output mc ch = (Ok ms, s) \<and> channel_wf s \<and> ch_local_id s = ch_local_id ch \<and>
     (\<forall>m\<in>set ms. length m \<le> payload_max)"
proof (induction mc ch rule: drain_output.induct)
  case (1 mc ch)
  note IH = "1.IH" and wf = "1.prems"
  have ok: "items_ok ch" using wf by (simp add: channel_wf_def)
  show ?case
  proof (cases "drain_step mc ch")
    case (Ok v)
    obtain mo ch' where v: "v = (mo, ch')" by fastforce
    show ?thesis
    proof (cases mo)
      case None
      have "ch' = ch" using Ok v None by (auto simp: drain_step_def Let_def split: list.splits if_splits)
      then show ?thesis using wf by (subst drain_output.simps) (simp add: Ok v None)
    next
      case (Some m)
      obtain e c where c: "m = data_message (ch_remote_id ch) e c" "length c \<le> unat (ch_remote_window ch)" "items_ok ch'"
        "ch' = ch\<lparr>ch_out := ch_out ch', ch_remote_window := ch_remote_window ch - of_nat (length c),
          ch_flushed_out := ch_flushed_out ch + of_nat (length c)\<rparr>"
        using Ok v Some drain_step_sends [OF ok] by metis
      have same: "ch_local_window ch' = ch_local_window ch" "ch_unacked ch' = ch_unacked ch" "ch_local_id ch' = ch_local_id ch"
        by (subst c(4), simp)+
      have wf': "channel_wf ch'" using wf c(3) same by (simp add: channel_wf_def window_ok_def)
      have "unat (ch_remote_window ch) < 2 ^ LENGTH(32)" by (rule unsigned_less)
      from le_less_trans [OF c(2) this] have len: "length m \<le> payload_max"
        using length_data_message [of "ch_remote_id ch" e c] by (simp add: c(1) payload_max_def)
      obtain ms s where "drain_output mc ch' = (Ok ms, s)" "channel_wf s" "ch_local_id s = ch_local_id ch'"
        "\<forall>m\<in>set ms. length m \<le> payload_max"
        using IH [OF Ok [unfolded v Some] refl refl wf'] by auto
      then show ?thesis using len same(3) by (subst drain_output.simps) (simp add: Ok v Some)
    qed
  qed (use drain_step_items [OF ok] in auto)
qed

lemma t_wf_send_packets:
  "prims_safe P \<Longrightarrow> t_wf t \<Longrightarrow> \<forall>p\<in>set ps. length p \<le> payload_max \<Longrightarrow> holds t_wf (send_packets P ps t)"
  by (induction ps arbitrary: t) (auto intro!: hold_intros t_wf_send_packet)

text \<open>Reading never changes the buffer, and no string is longer than it.\<close>

lemma read_buf:
  "r_u8 r = Ok (b, r') \<Longrightarrow> rd_buf r' = rd_buf r" "r_boolean r = Ok (v, r') \<Longrightarrow> rd_buf r' = rd_buf r"
  "r_u32 r = Ok (w, r') \<Longrightarrow> rd_buf r' = rd_buf r"
  "r_string r = Ok (s, r') \<Longrightarrow> rd_buf r' = rd_buf r \<and> length s \<le> length (rd_buf r)"
  "r_utf8 r = Ok (s, r') \<Longrightarrow> rd_buf r' = rd_buf r \<and> length s \<le> length (rd_buf r)"
proof -
  show "r_string r = Ok (s, r') \<Longrightarrow> rd_buf r' = rd_buf r \<and> length s \<le> length (rd_buf r)"
    using r_string_Ok [of r s r'] by (metis add_leD2)
  then show "r_utf8 r = Ok (s, r') \<Longrightarrow> rd_buf r' = rd_buf r \<and> length s \<le> length (rd_buf r)"
    by (blast dest: r_utf8_string)
qed (auto simp: r_u8_def r_boolean_def r_u32_Ok rbind_Ok_iff r_take_Ok split: prod.splits)

lemma auth_request_short:
  assumes "auth_request_parse payload = Ok req" and "ar_method req = MethodPublicKey algo blob sig"
  shows "length algo \<le> length payload" and "length blob \<le> length payload"
  using assms
  by (auto simp: auth_request_parse_def parse_method_def rbind_Ok_iff reader_new_def dest!: read_buf
      split: if_splits prod.splits simp del: reader_new_rd)

end
