(* ===== verification/Server.thy ===== *)
theory Server
  imports Session_Base
begin

text \<open>
  The server session (\<^verbatim>\<open>crates/ssh-transport/src/server.rs\<close>): user authentication and the connection
  protocol on top of the transport. The embedding application's \<^verbatim>\<open>ServerAuthHandler\<close> is a record of
  functions over a handler state, an argument of the definitions that call it; \<open>default_auth_handler\<close>
  has the trait's default methods. The counters of failures and requests are 32-bit words.
\<close>

record 'h auth_handler =
  h_banner :: "'h \<Rightarrow> bytes option \<times> 'h"
  h_allow_none :: "bytes \<Rightarrow> 'h \<Rightarrow> bool \<times> 'h"
  h_verify_password :: "bytes \<Rightarrow> bytes \<Rightarrow> 'h \<Rightarrow> bool \<times> 'h"
  h_is_authorized_key :: "bytes \<Rightarrow> user_public_key \<Rightarrow> 'h \<Rightarrow> bool \<times> 'h"
  h_methods :: "'h \<Rightarrow> bytes list"
  h_max_auth_attempts :: "'h \<Rightarrow> u32"
  h_max_auth_requests :: "'h \<Rightarrow> u32"

definition default_auth_handler :: "'h auth_handler" where
  "default_auth_handler =
     \<lparr>h_banner = (\<lambda>h. (None, h)),
      h_allow_none = (\<lambda>_ h. (False, h)),
      h_verify_password = (\<lambda>_ _ h. (False, h)),
      h_is_authorized_key = (\<lambda>_ _ h. (False, h)),
      h_methods = (\<lambda>_. [METHOD_PUBLICKEY, METHOD_PASSWORD]),
      h_max_auth_attempts = (\<lambda>_. 6),
      h_max_auth_requests = (\<lambda>_. 50)\<rparr>"

datatype server_event =
    Authenticated bytes
  | ExecRequest u32 bytes
  | ShellRequest u32
  | SubsystemRequest u32 bytes
  | WindowChange u32 u16 u16
  | SrvChannelData u32 bytes
  | SrvChannelEof u32
  | SrvChannelClose u32
  | SrvDisconnect u32 bytes
  | AuthExhausted

record ('r, 'z, 'h) server =
  s_transport :: "('r, 'z) transport"
  s_handler :: 'h
  s_authenticated :: "bytes option"
  s_banner_sent :: bool
  s_channel :: "channel option"
  s_pending_reply :: bool
  s_allow_pty :: bool
  s_auth_failures :: u32
  s_auth_requests :: u32
  s_program_started :: bool
  s_events :: "server_event list"

definition LOCAL_CHANNEL :: u32 where "LOCAL_CHANNEL = 0"

text \<open>A call on the transport, and an event for the driver.\<close>

definition s_via :: "(('r, 'z) transport \<Rightarrow> (('r, 'z) transport, 'a) outcome) \<Rightarrow>
    ('r, 'z, 'h) server \<Rightarrow> (('r, 'z, 'h) server, 'a) outcome" where
  "s_via f s = on_field s_transport (\<lambda>t s. s\<lparr>s_transport := t\<rparr>) f s"

abbreviation s_send :: "('r, 'z) prims \<Rightarrow> bytes \<Rightarrow> ('r, 'z, 'h) server \<Rightarrow> (('r, 'z, 'h) server, unit) outcome" where
  "s_send P payload \<equiv> s_via (send_packet P payload)"

definition s_push :: "server_event \<Rightarrow> ('r, 'z, 'h) server \<Rightarrow> ('r, 'z, 'h) server" where
  "s_push e s = s\<lparr>s_events := s_events s @ [e]\<rparr>"

definition server_new ::
    "('r, 'z) prims \<Rightarrow> 'r \<Rightarrow> host_key \<Rightarrow> 'h \<Rightarrow> (('r, 'z, 'h) server, unit) outcome" where
  "server_new P rng host_key handler =
     (let (r, t) = new_server P rng host_key
      in (r, \<lparr>s_transport = t, s_handler = handler, s_authenticated = None, s_banner_sent = False,
              s_channel = None, s_pending_reply = False, s_allow_pty = False,
              s_auth_failures = 0, s_auth_requests = 0, s_program_started = False, s_events = []\<rparr>))"

section \<open>Output\<close>

definition server_remote_id :: "('r, 'z, 'h) server \<Rightarrow> u32" where
  "server_remote_id s = (case s_channel s of Some c \<Rightarrow> ch_remote_id c | None \<Rightarrow> 0)"

text \<open>\<^verbatim>\<open>channel_for\<close>: the open channel if it has the given local id.\<close>

definition server_channel_for :: "u32 \<Rightarrow> ('r, 'z, 'h) server \<Rightarrow> channel option" where
  "server_channel_for channel s =
     (case s_channel s of
        Some ch \<Rightarrow> if ch_local_id ch = channel then Some ch else None
      | None \<Rightarrow> None)"

definition server_with_channel ::
    "u32 \<Rightarrow> (channel \<Rightarrow> channel) \<Rightarrow> ('r, 'z, 'h) server \<Rightarrow> ('r, 'z, 'h) server" where
  "server_with_channel channel f s =
     (case server_channel_for channel s of
        Some ch \<Rightarrow> s\<lparr>s_channel := Some (f ch)\<rparr>
      | None \<Rightarrow> s)"

text \<open>\<^verbatim>\<open>flush_channel\<close>: drain what the peer's window admits, hand it to the transport until one packet is
  refused, add chaff behind real data, and finish a requested close once everything is out.\<close>

definition server_finish_close ::
    "('r, 'z) prims \<Rightarrow> channel \<Rightarrow> ('r, 'z, 'h) server \<Rightarrow> (('r, 'z, 'h) server, unit) outcome" where
  "server_finish_close P ch s =
     (if out_is_empty ch \<and> ch_want_close ch \<and> \<not> ch_sent_close ch then
        let s = s\<lparr>s_channel := Some (ch\<lparr>ch_sent_eof := True, ch_sent_close := True\<rparr>)\<rparr>;
            remote = ch_remote_id ch;
            status = (case ch_exit_status ch of Some v \<Rightarrow> v | None \<Rightarrow> 0)
        in
        andThen (s_send P (channel_request_exit_status remote status) s) (\<lambda>_ s.
        andThen (s_send P (channel_eof remote) s) (\<lambda>_ s.
          s_send P (channel_close remote) s))
      else (Ok (), s))"

definition server_flush_channel ::
    "('r, 'z) prims \<Rightarrow> ('r, 'z, 'h) server \<Rightarrow> (('r, 'z, 'h) server, unit) outcome" where
  "server_flush_channel P s =
     (case s_channel s of
        None \<Rightarrow> (Ok (), s)
      | Some ch \<Rightarrow>
          let max_chunk = ob_max_chunk (t_obfuscation (s_transport s));
              (drained, ch) = drain_output max_chunk ch;
              s = s\<lparr>s_channel := Some ch\<rparr>
          in
          onOk drained s (\<lambda>msgs.
          andThen (s_via (send_packets P msgs) s) (\<lambda>_ s.
          andThen (if msgs \<noteq> [] then s_via (send_chaff_burst P) s else (Ok (), s)) (\<lambda>_ s.
            server_finish_close P ch s))))"

definition server_channel_stdout ::
    "('r, 'z) prims \<Rightarrow> u32 \<Rightarrow> bytes \<Rightarrow> ('r, 'z, 'h) server \<Rightarrow> (('r, 'z, 'h) server, unit) outcome" where
  "server_channel_stdout P channel data s =
     server_flush_channel P (server_with_channel channel (enqueue_stdout data) s)"

definition server_channel_stderr ::
    "('r, 'z) prims \<Rightarrow> u32 \<Rightarrow> bytes \<Rightarrow> ('r, 'z, 'h) server \<Rightarrow> (('r, 'z, 'h) server, unit) outcome" where
  "server_channel_stderr P channel data s =
     server_flush_channel P (server_with_channel channel (enqueue_stderr data) s)"

definition server_channel_exit ::
    "('r, 'z) prims \<Rightarrow> u32 \<Rightarrow> u32 \<Rightarrow> ('r, 'z, 'h) server \<Rightarrow> (('r, 'z, 'h) server, unit) outcome" where
  "server_channel_exit P channel status s =
     server_flush_channel P
       (server_with_channel channel (\<lambda>ch. request_close (ch\<lparr>ch_exit_status := Some status\<rparr>)) s)"

definition server_channel_consumed ::
    "('r, 'z) prims \<Rightarrow> u32 \<Rightarrow> u32 \<Rightarrow> ('r, 'z, 'h) server \<Rightarrow> (('r, 'z, 'h) server, unit) outcome" where
  "server_channel_consumed P channel len s =
     (case server_channel_for channel s of
        None \<Rightarrow> (Ok (), s)
      | Some ch \<Rightarrow>
          let (adjust, ch') = ack_incoming len ch;
              s = s\<lparr>s_channel := Some ch'\<rparr>
          in case adjust of
               Some add \<Rightarrow> s_send P (channel_window_adjust (ch_remote_id ch) add) s
             | None \<Rightarrow> (Ok (), s))"

definition server_take_flushed_output :: "u32 \<Rightarrow> ('r, 'z, 'h) server \<Rightarrow> u64 \<times> ('r, 'z, 'h) server" where
  "server_take_flushed_output channel s =
     (case server_channel_for channel s of
        Some ch \<Rightarrow> let (n, ch) = take_flushed_out ch in (n, s\<lparr>s_channel := Some ch\<rparr>)
      | None \<Rightarrow> (0, s))"

definition server_channel_pty :: "u32 \<Rightarrow> ('r, 'z, 'h) server \<Rightarrow> pty_info option" where
  "server_channel_pty channel s =
     (case server_channel_for channel s of Some ch \<Rightarrow> ch_pty ch | None \<Rightarrow> None)"

section \<open>Authentication\<close>

definition server_send_failure ::
    "('r, 'z) prims \<Rightarrow> 'h auth_handler \<Rightarrow> ('r, 'z, 'h) server \<Rightarrow> (('r, 'z, 'h) server, unit) outcome" where
  "server_send_failure P H s =
     (let s = s\<lparr>s_auth_failures := s_auth_failures s + 1\<rparr> in
      if s_auth_failures s \<ge> h_max_auth_attempts H (s_handler s) then
        andThen (s_via (disconnect P disconnect_NO_MORE_AUTH_METHODS_AVAILABLE
                          (str ''too many authentication failures'')) s) (\<lambda>_ s.
          (Ok (), s_push AuthExhausted s))
      else
        let methods = h_methods H (s_handler s)
        in s_send P (userauth_failure methods False) s)"

definition server_finish_auth ::
    "('r, 'z) prims \<Rightarrow> 'h auth_handler \<Rightarrow> bytes \<Rightarrow> bool \<Rightarrow> ('r, 'z, 'h) server \<Rightarrow>
     (('r, 'z, 'h) server, unit) outcome" where
  "server_finish_auth P H user granted s =
     (if granted then
        andThen (s_send P userauth_success s) (\<lambda>_ s.
          (Ok (), s_push (Authenticated user) (s\<lparr>s_authenticated := Some user\<rparr>)))
      else server_send_failure P H s)"

definition server_handle_publickey ::
    "('r, 'z) prims \<Rightarrow> 'h auth_handler \<Rightarrow> auth_request \<Rightarrow> bytes \<Rightarrow> bytes \<Rightarrow> bytes option \<Rightarrow>
     ('r, 'z, 'h) server \<Rightarrow> (('r, 'z, 'h) server, unit) outcome" where
  "server_handle_publickey P H req key_algo key_blob signature s =
     (case user_parse_blob P key_blob of
        Err _ \<Rightarrow> server_send_failure P H s
      | Crash m \<Rightarrow> (Crash m, s)
      | Ok key \<Rightarrow>
          let (authorized, h) = h_is_authorized_key H (ar_user req) key (s_handler s);
              s = s\<lparr>s_handler := h\<rparr>
          in
          if \<not> authorized then server_send_failure P H s
          else
            (case signature of
               None \<Rightarrow> s_send P (userauth_pk_ok key_algo key_blob) s
             | Some sig \<Rightarrow>
                 onOk (ok_or (t_session_id (s_transport s)) (Protocol ''no session id'')) s (\<lambda>session_id.
                 let signed = publickey_signed_data session_id (ar_user req) (ar_service req) key_algo key_blob;
                     ok = (case user_verify P key signed sig of Ok _ \<Rightarrow> True | _ \<Rightarrow> False)
                 in server_finish_auth P H (ar_user req) ok s)))"

definition server_handle_userauth ::
    "('r, 'z) prims \<Rightarrow> 'h auth_handler \<Rightarrow> bytes \<Rightarrow> ('r, 'z, 'h) server \<Rightarrow> (('r, 'z, 'h) server, unit) outcome" where
  "server_handle_userauth P H payload s =
     (let s = s\<lparr>s_auth_requests := s_auth_requests s + 1\<rparr> in
      if s_auth_requests s > h_max_auth_requests H (s_handler s) then
        andThen (s_via (disconnect P disconnect_PROTOCOL_ERROR (str ''too many authentication requests'')) s) (\<lambda>_ s.
          (Ok (), s_push AuthExhausted s))
      else
        onOk (auth_request_parse payload) s (\<lambda>req.
        case ar_method req of
          MethodNone \<Rightarrow>
            let (granted, h) = h_allow_none H (ar_user req) (s_handler s)
            in server_finish_auth P H (ar_user req) granted (s\<lparr>s_handler := h\<rparr>)
        | MethodPassword password \<Rightarrow>
            let (granted, h) = h_verify_password H (ar_user req) password (s_handler s)
            in server_finish_auth P H (ar_user req) granted (s\<lparr>s_handler := h\<rparr>)
        | MethodPublicKey key_algo key_blob signature \<Rightarrow>
            server_handle_publickey P H req key_algo key_blob signature s
        | MethodUnknown _ \<Rightarrow> server_finish_auth P H (ar_user req) False s))"

definition server_handle_service_request ::
    "('r, 'z) prims \<Rightarrow> 'h auth_handler \<Rightarrow> bytes \<Rightarrow> ('r, 'z, 'h) server \<Rightarrow> (('r, 'z, 'h) server, unit) outcome" where
  "server_handle_service_request P H payload s =
     onOk (r_u8 (reader_new payload)) s (\<lambda>(_, r).
     onOk (r_utf8 r) s (\<lambda>(service, r).
     if service \<noteq> SERVICE_USERAUTH then
       s_via (disconnect P disconnect_PROTOCOL_ERROR (str ''service not available'')) s
     else
       andThen (s_send P (service_accept SERVICE_USERAUTH) s) (\<lambda>_ s.
       if \<not> s_banner_sent s then
         let s = s\<lparr>s_banner_sent := True\<rparr>;
             (banner, h) = h_banner H (s_handler s);
             s = s\<lparr>s_handler := h\<rparr>
         in case banner of
              Some text \<Rightarrow> s_send P (userauth_banner text) s
            | None \<Rightarrow> (Ok (), s)
       else (Ok (), s))))"

definition server_handle_preauth ::
    "('r, 'z) prims \<Rightarrow> 'h auth_handler \<Rightarrow> bytes \<Rightarrow> ('r, 'z, 'h) server \<Rightarrow> (('r, 'z, 'h) server, unit) outcome" where
  "server_handle_preauth P H payload s =
     (if first_byte payload = Some msg_SERVICE_REQUEST then server_handle_service_request P H payload s
      else if first_byte payload = Some msg_USERAUTH_REQUEST then server_handle_userauth P H payload s
      else (Ok (), s))"

section \<open>The connection protocol\<close>

definition server_handle_channel_open ::
    "('r, 'z) prims \<Rightarrow> bytes \<Rightarrow> ('r, 'z, 'h) server \<Rightarrow> (('r, 'z, 'h) server, unit) outcome" where
  "server_handle_channel_open P payload s =
     onOk (r_u8 (reader_new payload)) s (\<lambda>(_, r).
     onOk (r_utf8 r) s (\<lambda>(ch_type, r).
     onOk (r_u32 r) s (\<lambda>(sender, r).
     onOk (r_u32 r) s (\<lambda>(window, r).
     onOk (r_u32 r) s (\<lambda>(max_packet, r).
     if ch_type \<noteq> CHANNEL_SESSION then
       s_send P (channel_open_failure sender UNKNOWN_CHANNEL_TYPE (str ''only session channels are supported'')) s
     else if s_channel s \<noteq> None then
       s_send P (channel_open_failure sender ADMINISTRATIVELY_PROHIBITED (str ''only one channel supported'')) s
     else if max_packet < MIN_REMOTE_MAX_PACKET then
       s_send P (channel_open_failure sender ADMINISTRATIVELY_PROHIBITED (str ''maximum packet size too small'')) s
     else
       let ch = set_remote sender window max_packet (channel_new LOCAL_CHANNEL)
       in s_send P (channel_open_confirmation sender LOCAL_CHANNEL)
            (s\<lparr>s_channel := Some ch, s_program_started := False\<rparr>))))))"

text \<open>\<^verbatim>\<open>u16::try_from(n).unwrap_or(u16::MAX)\<close>.\<close>

definition clamp_u16 :: "u32 \<Rightarrow> u16" where
  "clamp_u16 n = (if n \<le> 0xFFFF then ucast n else 0xFFFF)"

text \<open>The reply to a request that wants one.\<close>

definition server_reply ::
    "('r, 'z) prims \<Rightarrow> bool \<Rightarrow> bool \<Rightarrow> ('r, 'z, 'h) server \<Rightarrow> (('r, 'z, 'h) server, unit) outcome" where
  "server_reply P want_reply success s =
     (if want_reply then
        let remote = server_remote_id s
        in s_send P (if success then channel_success remote else channel_failure remote) s
      else (Ok (), s))"

definition server_start_program ::
    "bool \<Rightarrow> server_event \<Rightarrow> ('r, 'z, 'h) server \<Rightarrow> (('r, 'z, 'h) server, unit) outcome" where
  "server_start_program want_reply e s =
     (Ok (), s_push e (s\<lparr>s_pending_reply := want_reply, s_program_started := True\<rparr>))"

definition server_pty_req ::
    "('r, 'z) prims \<Rightarrow> bool \<Rightarrow> reader \<Rightarrow> ('r, 'z, 'h) server \<Rightarrow> (('r, 'z, 'h) server, unit) outcome" where
  "server_pty_req P want_reply r s =
     onOk (r_utf8 r) s (\<lambda>(term, r).
     onOk (r_u32 r) s (\<lambda>(cols, r).
     onOk (r_u32 r) s (\<lambda>(rows, r).
     onOk (r_u32 r) s (\<lambda>(width_px, r).
     onOk (r_u32 r) s (\<lambda>(height_px, r).
     onOk (r_string r) s (\<lambda>(modes, r).
     let granted = (s_allow_pty s \<and> s_channel s \<noteq> None);
         pty = \<lparr>pty_term = term, pty_cols = clamp_u16 cols, pty_rows = clamp_u16 rows,
                pty_width_px = width_px, pty_height_px = height_px, pty_modes = modes\<rparr>;
         s = (if granted then s\<lparr>s_channel := map_option (set_pty pty) (s_channel s)\<rparr> else s)
     in server_reply P want_reply granted s))))))"

text \<open>The resize of the open channel's terminal, and the accounting of received data: whether it was
  applied (the data was within the window), and the state left.\<close>

definition server_apply_resize ::
    "u16 \<Rightarrow> u16 \<Rightarrow> u32 \<Rightarrow> u32 \<Rightarrow> ('r, 'z, 'h) server \<Rightarrow> bool \<times> ('r, 'z, 'h) server" where
  "server_apply_resize cols rows width_px height_px s =
     (case s_channel s of
        Some ch \<Rightarrow>
          let (applied, ch) = update_pty_size cols rows width_px height_px ch
          in (applied, s\<lparr>s_channel := Some ch\<rparr>)
      | None \<Rightarrow> (False, s))"

definition server_consume :: "u32 \<Rightarrow> ('r, 'z, 'h) server \<Rightarrow> bool \<times> ('r, 'z, 'h) server" where
  "server_consume len s =
     (case s_channel s of
        Some ch \<Rightarrow> let (ok, ch) = consume_incoming len ch in (ok, s\<lparr>s_channel := Some ch\<rparr>)
      | None \<Rightarrow> (True, s))"

definition server_window_change ::
    "('r, 'z) prims \<Rightarrow> bool \<Rightarrow> reader \<Rightarrow> ('r, 'z, 'h) server \<Rightarrow> (('r, 'z, 'h) server, unit) outcome" where
  "server_window_change P want_reply r s =
     onOk (r_u32 r) s (\<lambda>(cols, r).
     onOk (r_u32 r) s (\<lambda>(rows, r).
     onOk (r_u32 r) s (\<lambda>(width_px, r).
     onOk (r_u32 r) s (\<lambda>(height_px, r).
     let cols = clamp_u16 cols;
         rows = clamp_u16 rows;
         (applied, s) = server_apply_resize cols rows width_px height_px s;
         s = (if applied then s_push (WindowChange LOCAL_CHANNEL cols rows) s else s)
     in server_reply P want_reply applied s))))"

definition server_handle_channel_request ::
    "('r, 'z) prims \<Rightarrow> bytes \<Rightarrow> ('r, 'z, 'h) server \<Rightarrow> (('r, 'z, 'h) server, unit) outcome" where
  "server_handle_channel_request P payload s =
     onOk (r_u8 (reader_new payload)) s (\<lambda>(_, r).
     onOk (r_u32 r) s (\<lambda>(_, r).
     onOk (r_utf8 r) s (\<lambda>(request, r).
     onOk (r_boolean r) s (\<lambda>(want_reply, r).
     if request \<in> {str ''exec'', str ''shell'', str ''subsystem''} \<and> s_program_started s then
       server_reply P want_reply False s
     else if request = str ''exec'' then
       onOk (r_utf8 r) s (\<lambda>(command, r).
         server_start_program want_reply (ExecRequest LOCAL_CHANNEL command) s)
     else if request = str ''shell'' then
       server_start_program want_reply (ShellRequest LOCAL_CHANNEL) s
     else if request = str ''subsystem'' then
       onOk (r_utf8 r) s (\<lambda>(name, r).
         server_start_program want_reply (SubsystemRequest LOCAL_CHANNEL name) s)
     else if request = str ''env'' then server_reply P want_reply True s
     else if request = str ''pty-req'' then server_pty_req P want_reply r s
     else if request = str ''window-change'' then server_window_change P want_reply r s
     else server_reply P want_reply False s))))"

definition server_accept_channel ::
    "('r, 'z) prims \<Rightarrow> u32 \<Rightarrow> ('r, 'z, 'h) server \<Rightarrow> (('r, 'z, 'h) server, unit) outcome" where
  "server_accept_channel P channel s =
     server_reply P (s_pending_reply s) True (s\<lparr>s_pending_reply := False\<rparr>)"

definition server_reject_channel ::
    "('r, 'z) prims \<Rightarrow> u32 \<Rightarrow> ('r, 'z, 'h) server \<Rightarrow> (('r, 'z, 'h) server, unit) outcome" where
  "server_reject_channel P channel s =
     server_reply P (s_pending_reply s) False (s\<lparr>s_pending_reply := False\<rparr>)"

definition server_handle_channel_data ::
    "('r, 'z) prims \<Rightarrow> bytes \<Rightarrow> ('r, 'z, 'h) server \<Rightarrow> (('r, 'z, 'h) server, unit) outcome" where
  "server_handle_channel_data P payload s =
     onOk (r_u8 (reader_new payload)) s (\<lambda>(_, r).
     onOk (r_u32 r) s (\<lambda>(_, r).
     onOk (r_string r) s (\<lambda>(data, r).
     let (within, s) = server_consume (of_nat (length data)) s
     in if \<not> within then
          s_via (disconnect P disconnect_PROTOCOL_ERROR (str ''channel window exceeded'')) s
        else (Ok (), s_push (SrvChannelData LOCAL_CHANNEL data) s))))"

definition server_handle_window_adjust ::
    "('r, 'z) prims \<Rightarrow> bytes \<Rightarrow> ('r, 'z, 'h) server \<Rightarrow> (('r, 'z, 'h) server, unit) outcome" where
  "server_handle_window_adjust P payload s =
     onOk (r_u8 (reader_new payload)) s (\<lambda>(_, r).
     onOk (r_u32 r) s (\<lambda>(_, r).
     onOk (r_u32 r) s (\<lambda>(add, r).
       server_flush_channel P (s\<lparr>s_channel := map_option (add_remote_window add) (s_channel s)\<rparr>))))"

definition server_handle_channel_close ::
    "('r, 'z) prims \<Rightarrow> ('r, 'z, 'h) server \<Rightarrow> (('r, 'z, 'h) server, unit) outcome" where
  "server_handle_channel_close P s =
     (let remote = server_remote_id s in
      andThen
        (case s_channel s of
           Some ch \<Rightarrow>
             if \<not> ch_sent_close ch then
               s_send P (channel_close remote)
                 (s\<lparr>s_channel := Some (ch\<lparr>ch_recv_close := True, ch_sent_close := True\<rparr>)\<rparr>)
             else (Ok (), s\<lparr>s_channel := Some (ch\<lparr>ch_recv_close := True\<rparr>)\<rparr>)
         | None \<Rightarrow> (Ok (), s))
        (\<lambda>_ s. (Ok (), s_push (SrvChannelClose LOCAL_CHANNEL)
                  (s\<lparr>s_channel := None, s_program_started := False\<rparr>))))"

definition server_handle_connection ::
    "('r, 'z) prims \<Rightarrow> bytes \<Rightarrow> ('r, 'z, 'h) server \<Rightarrow> (('r, 'z, 'h) server, unit) outcome" where
  "server_handle_connection P payload s =
     (if first_byte payload = Some msg_CHANNEL_OPEN then server_handle_channel_open P payload s
      else if first_byte payload = Some msg_CHANNEL_REQUEST then server_handle_channel_request P payload s
      else if first_byte payload = Some msg_CHANNEL_DATA then server_handle_channel_data P payload s
      else if first_byte payload = Some msg_CHANNEL_WINDOW_ADJUST then server_handle_window_adjust P payload s
      else if first_byte payload = Some msg_CHANNEL_EOF then (Ok (), s_push (SrvChannelEof LOCAL_CHANNEL) s)
      else if first_byte payload = Some msg_CHANNEL_CLOSE then server_handle_channel_close P s
      else (Ok (), s))"

text \<open>What the loop of \<^verbatim>\<open>pump\<close> does with one event of the transport.\<close>

definition server_handle_event ::
    "('r, 'z) prims \<Rightarrow> 'h auth_handler \<Rightarrow> event \<Rightarrow> ('r, 'z, 'h) server \<Rightarrow> (('r, 'z, 'h) server, unit) outcome" where
  "server_handle_event P H e s =
     (case e of
        Established \<Rightarrow> (Ok (), s)
      | ServerHostKey _ \<Rightarrow> (Ok (), s)
      | Disconnect reason description \<Rightarrow> (Ok (), s_push (SrvDisconnect reason description) s)
      | Packet payload \<Rightarrow>
          (case s_authenticated s of
             Some _ \<Rightarrow> server_handle_connection P payload s
           | None \<Rightarrow> server_handle_preauth P H payload s))"

section \<open>The loop over the transport's events\<close>

text \<open>A predicate kept by calls on the transport that report nothing and by reporting to the driver is kept by
  every message sent; with the updates of the connection protocol, by every handler of it; with the updates
  of authentication, by every handler of that; with both, by every handler. A predicate may constrain what the
  channel owes.\<close>

locale calm_keeps =
  fixes I :: "('r, 'z, 'h) server \<Rightarrow> bool"
  assumes via_calm: "I s \<Longrightarrow> calm (s_transport s) t \<Longrightarrow> I (s\<lparr>s_transport := t\<rparr>)"
    and upd_push: "I s \<Longrightarrow> I (s_push e s)"
begin

lemma keep_via: "I s \<Longrightarrow> (\<And>a. keeps (calm a) (f a)) \<Longrightarrow> keeps I (s_via f s)"
  unfolding s_via_def by (rule keeps_on_field) (metis keeps_def snd_conv via_calm)

lemma sends:
  "I s \<Longrightarrow> keeps I (s_send P p s)" "I s \<Longrightarrow> keeps I (s_via (disconnect P reason d) s)"
  "I s \<Longrightarrow> keeps I (s_via (send_packets P ps) s)" "I s \<Longrightarrow> keeps I (s_via (send_chaff_burst P) s)"
  "I s \<Longrightarrow> keeps I (s_via (send_chaff P) s)" "I s \<Longrightarrow> keeps I (s_via (initiate_rekey P) s)"
  by (rule keep_via, assumption, rule calm_ops, rule calm_refl)+

lemma keep_if: "(b \<Longrightarrow> I x) \<Longrightarrow> (\<not> b \<Longrightarrow> I y) \<Longrightarrow> I (if b then x else y)"
  by simp

lemma keep_reply: "I s \<Longrightarrow> keeps I (server_reply P w b s)"
  unfolding server_reply_def by (intro keep_intros sends)

end

text \<open>The output a channel owes: what is queued, and what was sent since the driver last asked. Nothing but queueing
  more raises it.\<close>

definition ch_owed :: "channel \<Rightarrow> nat" where
  "ch_owed ch = sum_list (map (\<lambda>i. length (oi_buf i) - oi_sent i) (ch_out ch)) + unat (ch_flushed_out ch)"

definition owed :: "channel option \<Rightarrow> nat" where
  "owed c = (case c of Some ch \<Rightarrow> ch_owed ch | None \<Rightarrow> 0)"

lemma unat_plus_le: "unat (a + of_nat n :: 'l::len word) \<le> unat a + n"
  by (metis add_left_mono mod_less_eq_dividend order_trans unat_of_nat unat_word_ariths(1))

lemma drain_step_owed:
  assumes "drain_step mc ch = Ok (m, ch')"
  shows "ch_owed ch' \<le> ch_owed ch"
proof (cases "m = None")
  case False
  obtain i rest where o: "ch_out ch = i # rest" and i: "oi_sent i \<le> length (oi_buf i)"
    using assms False by (auto simp: drain_step_def Let_def split: list.splits if_splits)
  define n where "n = min (length (oi_buf i) - oi_sent i) (drain_limit mc ch)"
  have "ch' = ch\<lparr>ch_out := (if oi_sent i + n = length (oi_buf i) then rest else i\<lparr>oi_sent := oi_sent i + n\<rparr> # rest),
      ch_remote_window := ch_remote_window ch - of_nat n, ch_flushed_out := ch_flushed_out ch + of_nat n\<rparr>"
    using assms False i unfolding drain_step_def o list.case Let_def n_def [symmetric] by (auto split: if_splits)
  moreover have "n \<le> length (oi_buf i) - oi_sent i" by (simp add: n_def)
  ultimately show ?thesis using unat_plus_le [of "ch_flushed_out ch" n] i by (auto simp: ch_owed_def o)
qed (use assms in \<open>auto simp: drain_step_def Let_def split: list.splits if_splits\<close>)

lemma drain_output_owed: "ch_owed (snd (drain_output mc ch)) \<le> ch_owed ch"
proof (induction mc ch rule: drain_output.induct)
  case (1 mc ch)
  show ?case
  proof (cases "drain_step mc ch")
    case (Ok v)
    obtain m ch' where v: "v = (m, ch')" by fastforce
    have le: "ch_owed ch' \<le> ch_owed ch" using drain_step_owed Ok v by blast
    show ?thesis
    proof (cases m)
      case (Some x)
      have "ch_owed (snd (drain_output mc ch')) \<le> ch_owed ch'" using "1.IH" Ok v Some by blast
      then show ?thesis using Ok v Some le
        by (subst drain_output.simps) (cases "drain_output mc ch'"; cases "fst (drain_output mc ch')"; auto)
    qed (use Ok v le in \<open>subst drain_output.simps; simp\<close>)
  qed (subst drain_output.simps; simp)+
qed

locale channel_keeps = calm_keeps I for I :: "('r, 'z, 'h) server \<Rightarrow> bool" +
  fixes chan_ok :: "channel option \<Rightarrow> bool"
  assumes has_ok: "I s \<Longrightarrow> chan_ok (s_channel s)"
    and ok_le: "chan_ok c \<Longrightarrow> owed c' \<le> owed c \<Longrightarrow> chan_ok c'"
    and upd_channel: "I s \<Longrightarrow> chan_ok c \<Longrightarrow> I (s\<lparr>s_channel := c\<rparr>)"
    and upd_open: "I s \<Longrightarrow> chan_ok c \<Longrightarrow> I (s\<lparr>s_channel := c, s_program_started := b\<rparr>)"
    and upd_pending: "I s \<Longrightarrow> I (s\<lparr>s_pending_reply := b\<rparr>)"
    and upd_start: "I s \<Longrightarrow> I (s\<lparr>s_pending_reply := b, s_program_started := b'\<rparr>)"
begin

lemma ok_now: "I s \<Longrightarrow> owed c \<le> owed (s_channel s) \<Longrightarrow> chan_ok c"
  using has_ok ok_le by blast

lemma ok_channel: "I s \<Longrightarrow> s_channel s = Some ch \<Longrightarrow> ch_owed ch' \<le> ch_owed ch \<Longrightarrow> chan_ok (Some ch')"
  by (rule ok_now [of s]) (simp_all add: owed_def)

lemma ok_none: "I s \<Longrightarrow> chan_ok None"
  by (erule ok_now) (simp add: owed_def)

lemma ok_fresh: "I s \<Longrightarrow> chan_ok (Some (set_remote a w m (channel_new l)))"
  by (erule ok_now) (simp add: owed_def ch_owed_def set_remote_def channel_new_def)

lemma ok_map: "I s \<Longrightarrow> (\<And>ch. ch_owed (f ch) \<le> ch_owed ch) \<Longrightarrow> chan_ok (map_option f (s_channel s))"
  by (erule ok_now) (simp add: owed_def split: option.split)

lemma keep_finish_close: "I s \<Longrightarrow> chan_ok (Some ch) \<Longrightarrow> keeps I (server_finish_close P ch s)"
  unfolding server_finish_close_def
  by (intro keeps_Let_state keep_intros sends upd_channel; (assumption | erule ok_le))
    (simp add: owed_def ch_owed_def)

lemma keep_flush_channel: "I s \<Longrightarrow> keeps I (server_flush_channel P s)"
proof (cases "s_channel s")
  case (Some ch)
  assume I: "I s"
  obtain d ch' where d: "drain_output (ob_max_chunk (t_obfuscation (s_transport s))) ch = (d, ch')" by fastforce
  have ok: "chan_ok (Some ch')"
    using ok_channel [OF I Some] drain_output_owed [of "ob_max_chunk (t_obfuscation (s_transport s))" ch] d by simp
  show ?thesis
    unfolding server_flush_channel_def Some option.case Let_def d prod.case
    by (intro keep_intros sends keep_finish_close upd_channel I ok)
qed (simp add: server_flush_channel_def keeps_def)

lemma keep_resize: "I s \<Longrightarrow> server_apply_resize c r w h s = (b, s') \<Longrightarrow> I s'"
  by (auto simp: server_apply_resize_def update_pty_size_def ch_owed_def intro!: upd_channel elim: ok_channel
      split: option.splits prod.splits)

lemma keep_consume: "I s \<Longrightarrow> server_consume n s = (b, s') \<Longrightarrow> I s'"
  by (auto simp: server_consume_def consume_incoming_def ch_owed_def intro!: upd_channel elim: ok_channel
      split: option.splits prod.splits if_splits)

lemma keep_pty_req: "I s \<Longrightarrow> keeps I (server_pty_req P w r s)"
  unfolding server_pty_req_def Let_def
  by (intro keep_intros keep_reply keep_if upd_channel ok_map) (simp_all add: set_pty_def ch_owed_def)

lemma keep_window_change: "I s \<Longrightarrow> keeps I (server_window_change P w r s)"
  unfolding server_window_change_def Let_def
  by (intro keep_intros keep_reply keep_if upd_push) (use keep_resize in blast)+

lemma keep_channel_request: "I s \<Longrightarrow> keeps I (server_handle_channel_request P p s)"
  unfolding server_handle_channel_request_def server_start_program_def
  by (intro keep_intros keep_reply keep_pty_req keep_window_change upd_push upd_start)

lemma keep_channel_open: "I s \<Longrightarrow> keeps I (server_handle_channel_open P p s)"
  unfolding server_handle_channel_open_def by (intro keep_intros sends upd_open ok_fresh)

lemma keep_channel_data: "I s \<Longrightarrow> keeps I (server_handle_channel_data P p s)"
  unfolding server_handle_channel_data_def Let_def
  by (intro keep_intros sends upd_push) (use keep_consume in blast)+

lemma keep_channel_close: "I s \<Longrightarrow> keeps I (server_handle_channel_close P s)"
  unfolding server_handle_channel_close_def Let_def
  by (intro keep_intros sends upd_push upd_open upd_channel) (auto simp: ch_owed_def elim: ok_channel ok_none)

lemma keep_window_adjust: "I s \<Longrightarrow> keeps I (server_handle_window_adjust P p s)"
  unfolding server_handle_window_adjust_def
  by (intro keep_intros keep_flush_channel upd_channel ok_map) (simp_all add: add_remote_window_def ch_owed_def)

lemma keep_handle_connection: "I s \<Longrightarrow> keeps I (server_handle_connection P p s)"
  unfolding server_handle_connection_def
  by (intro keep_intros keep_channel_request keep_channel_open keep_channel_data keep_channel_close
      keep_window_adjust upd_push)

end

text \<open>Most predicates do not constrain the channel.\<close>

locale connection_keeps = channel_keeps I "\<lambda>_. True" for I :: "('r, 'z, 'h) server \<Rightarrow> bool"
begin

lemmas conn_updates = upd_push upd_channel [OF _ TrueI] upd_open [OF _ TrueI] upd_pending upd_start

end

locale auth_keeps = calm_keeps I for I :: "('r, 'z, 'h) server \<Rightarrow> bool" +
  fixes H :: "'h auth_handler"
  assumes upd_handler: "I s \<Longrightarrow> I (s\<lparr>s_handler := h\<rparr>)"
    and upd_banner: "I s \<Longrightarrow> I (s\<lparr>s_banner_sent := b\<rparr>)"
    and upd_requests: "I s \<Longrightarrow> I (s\<lparr>s_auth_requests := n\<rparr>)"
    and upd_failures: "I s \<Longrightarrow> I (s\<lparr>s_auth_failures := n\<rparr>)"
    and upd_granted: "I s \<Longrightarrow> I (s\<lparr>s_authenticated := Some u\<rparr>)"
begin

lemmas auth_updates = upd_handler upd_banner upd_requests upd_failures upd_granted upd_push

lemma keep_send_failure: "I s \<Longrightarrow> keeps I (server_send_failure P H s)"
  unfolding server_send_failure_def by (intro keeps_Let_state keep_intros sends auth_updates)

lemma keep_finish_auth: "I s \<Longrightarrow> keeps I (server_finish_auth P H u g s)"
  unfolding server_finish_auth_def by (intro keep_intros sends auth_updates keep_send_failure)

lemma keep_handle_publickey: "I s \<Longrightarrow> keeps I (server_handle_publickey P H req algo blob sig s)"
  by (auto simp: server_handle_publickey_def Let_def
      intro!: keep_intros sends auth_updates keep_send_failure keep_finish_auth split: result.split)

lemma keep_handle_preauth: "I s \<Longrightarrow> keeps I (server_handle_preauth P H p s)"
  unfolding server_handle_preauth_def server_handle_service_request_def server_handle_userauth_def
  by (auto simp: Let_def
      intro!: keep_intros sends auth_updates keep_handle_publickey keep_finish_auth split: auth_method.split)

end

lemma server_event_keeps:
  assumes "I s" and "\<And>e. I (s_push e s)"
    and "\<And>p. keeps I (server_handle_connection P p s)" and "\<And>p. keeps I (server_handle_preauth P H p s)"
  shows "keeps I (server_handle_event P H e s)"
  using assms by (auto simp: server_handle_event_def intro: keep_intros split: event.split option.split)

locale session_keeps = connection_keeps I + auth_keeps I H
  for I :: "('r, 'z, 'h) server \<Rightarrow> bool" and H :: "'h auth_handler"
begin

lemma keep_handle_event: "I s \<Longrightarrow> keeps I (server_handle_event P H e s)"
  by (intro server_event_keeps upd_push keep_handle_connection keep_handle_preauth)

end

text \<open>No handler reports a transport event, so the loop ends.\<close>

definition s_calm :: "('r, 'z) transport \<Rightarrow> ('r, 'z, 'h) server \<Rightarrow> bool" where
  "s_calm a s \<longleftrightarrow> calm a (s_transport s)"

interpretation quiet: session_keeps "s_calm a" H for a H
  by unfold_locales (auto simp: s_calm_def s_push_def intro: calm_trans)

lemmas s_calm_handle_event = quiet.keep_handle_event

function server_pump ::
    "('r, 'z) prims \<Rightarrow> 'h auth_handler \<Rightarrow> ('r, 'z, 'h) server \<Rightarrow> (('r, 'z, 'h) server, unit) outcome" where
  "server_pump P H s =
     (case poll_event (s_transport s) of
        (Some e, t) \<Rightarrow>
          andThen (server_handle_event P H e (s\<lparr>s_transport := t\<rparr>)) (\<lambda>_ s. server_pump P H s)
      | (None, t) \<Rightarrow> (Ok (), s\<lparr>s_transport := t\<rparr>))"
  by pat_completeness auto
termination
proof (relation "measure (\<lambda>(P, H, s). length (t_events (s_transport s)))", simp, clarify)
  fix P H s e t x u
  assume p: "(Some e, t) = poll_event (s_transport s)"
    and h: "server_handle_event P H e (s\<lparr>s_transport := t\<rparr>) = (Ok x, u)"
  have "s_calm t u"
    using s_calm_handle_event [of t "s\<lparr>s_transport := t\<rparr>" P H e] h by (simp add: s_calm_def keeps_def)
  then show "((P, H, u), (P, H, s)) \<in> measure (\<lambda>(P, H, s). length (t_events (s_transport s)))"
    using p by (auto simp: s_calm_def calm_def poll_event_def split: list.splits)
qed

declare server_pump.simps [simp del]

definition server_on_input ::
    "('r, 'z) prims \<Rightarrow> 'h auth_handler \<Rightarrow> bytes \<Rightarrow> ('r, 'z, 'h) server \<Rightarrow> (('r, 'z, 'h) server, unit) outcome" where
  "server_on_input P H data s = andThen (s_via (on_input P data) s) (\<lambda>_ s. server_pump P H s)"

section \<open>The other public methods\<close>

definition server_take_output :: "('r, 'z, 'h) server \<Rightarrow> bytes \<times> ('r, 'z, 'h) server" where
  "server_take_output s = (let (out, t) = take_output (s_transport s) in (out, s\<lparr>s_transport := t\<rparr>))"

definition server_clear_output :: "('r, 'z, 'h) server \<Rightarrow> ('r, 'z, 'h) server" where
  "server_clear_output s = s\<lparr>s_transport := clear_output (s_transport s)\<rparr>"

definition server_poll_event :: "('r, 'z, 'h) server \<Rightarrow> server_event option \<times> ('r, 'z, 'h) server" where
  "server_poll_event s = (case s_events s of [] \<Rightarrow> (None, s) | e # es \<Rightarrow> (Some e, s\<lparr>s_events := es\<rparr>))"

definition server_is_authenticated :: "('r, 'z, 'h) server \<Rightarrow> bool" where
  "server_is_authenticated s = (s_authenticated s \<noteq> None)"

definition server_is_closing :: "('r, 'z, 'h) server \<Rightarrow> bool" where
  "server_is_closing s = t_closing (s_transport s)"

definition server_send_raw_packet ::
    "('r, 'z) prims \<Rightarrow> bytes \<Rightarrow> ('r, 'z, 'h) server \<Rightarrow> (('r, 'z, 'h) server, unit) outcome" where
  "server_send_raw_packet P payload s = s_via (send_packet P payload) s"

definition server_initiate_rekey ::
    "('r, 'z) prims \<Rightarrow> ('r, 'z, 'h) server \<Rightarrow> (('r, 'z, 'h) server, unit) outcome" where
  "server_initiate_rekey P s = s_via (initiate_rekey P) s"

definition server_send_chaff ::
    "('r, 'z) prims \<Rightarrow> ('r, 'z, 'h) server \<Rightarrow> (('r, 'z, 'h) server, unit) outcome" where
  "server_send_chaff P s = s_via (send_chaff P) s"

definition server_set_max_consecutive_rekeys :: "u32 \<Rightarrow> ('r, 'z, 'h) server \<Rightarrow> ('r, 'z, 'h) server" where
  "server_set_max_consecutive_rekeys n s = s\<lparr>s_transport := set_max_consecutive_peer_rekeys n (s_transport s)\<rparr>"

definition server_set_allow_pty :: "bool \<Rightarrow> ('r, 'z, 'h) server \<Rightarrow> ('r, 'z, 'h) server" where
  "server_set_allow_pty allow s = s\<lparr>s_allow_pty := allow\<rparr>"

definition server_set_obfuscation :: "obfuscation \<Rightarrow> ('r, 'z, 'h) server \<Rightarrow> ('r, 'z, 'h) server" where
  "server_set_obfuscation ob s = s\<lparr>s_transport := set_obfuscation ob (s_transport s)\<rparr>"

end
