(* ===== verification/Server_Safety.thy ===== *)
theory Server_Safety
  imports Server
begin

text \<open>
  The invariant of the server session and what follows from it: nothing of the connection protocol
  happens before authentication, the channel's accounting stays sound, and no handler panics. Who is
  granted authentication and how the caps bound the attempts is in \<open>Server_Auth\<close>.
\<close>

section \<open>The invariant\<close>

text \<open>What the driver may see before a user is authenticated.\<close>

definition preauth_event :: "server_event \<Rightarrow> bool" where
  "preauth_event e = (case e of AuthExhausted \<Rightarrow> True | SrvDisconnect _ _ \<Rightarrow> True | _ \<Rightarrow> False)"

definition server_wf :: "('r, 'z) prims \<Rightarrow> ('r, 'z, 'h) server \<Rightarrow> bool" where
  "server_wf P s \<longleftrightarrow> t_wf (s_transport s) \<and> events_ok P (s_transport s) \<and>
     (s_authenticated s = None \<longrightarrow> s_channel s = None \<and> \<not> s_pending_reply s \<and> \<not> s_program_started s \<and>
        list_all preauth_event (s_events s)) \<and>
     (s_authenticated s \<noteq> None \<longrightarrow> t_phase (s_transport s) = PhaseEstablished) \<and>
     (\<forall>ch. s_channel s = Some ch \<longrightarrow> channel_wf ch)"

definition server_auth :: "('r, 'z) prims \<Rightarrow> ('r, 'z, 'h) server \<Rightarrow> bool" where
  "server_auth P s \<longleftrightarrow> server_wf P s \<and> s_authenticated s \<noteq> None"

text \<open>What the session needs of the application: a banner and a method list of sane size.\<close>

definition handler_ok :: "'h auth_handler \<Rightarrow> bool" where
  "handler_ok H \<longleftrightarrow> (\<forall>h b h'. h_banner H h = (Some b, h') \<longrightarrow> length b \<le> 2 ^ 20) \<and>
     (\<forall>h. length (name_list_enc (h_methods H h)) \<le> 2 ^ 20)"

lemma s_via_simps [simp]:
  "snd (s_via f s) = s\<lparr>s_transport := snd (f (s_transport s))\<rparr>" "fst (s_via f s) = fst (f (s_transport s))"
  by (simp_all add: s_via_def on_field_def Let_def split_def)

lemma server_wf_via:
  assumes "server_wf P s" and "holds t_wf (f (s_transport s))" and "keeps (calm (s_transport s)) (f (s_transport s))"
  shows "holds (server_wf P) (s_via f s)"
  using assms by (simp add: holds_def server_wf_def keeps_def calm_def events_ok_def)

lemma server_auth_via:
  assumes "server_auth P s" and "holds t_wf (f (s_transport s))" and "keeps (calm (s_transport s)) (f (s_transport s))"
  shows "holds (server_auth P) (s_via f s)"
  using assms server_wf_via [of P s f] by (simp add: holds_def server_auth_def)

lemma server_wf_send:
  assumes "prims_safe P" and "server_wf P s" and "length p \<le> payload_max"
  shows "holds (server_wf P) (s_send P p s)"
  using assms
  by (intro server_wf_via t_wf_send_packet calm_send_packet calm_refl) (simp_all add: server_wf_def)

lemma server_wf_disconnect:
  assumes "prims_safe P" and "server_wf P s" and "length d \<le> 1024"
  shows "holds (server_wf P) (s_via (disconnect P reason d) s)"
  using assms
  by (intro server_wf_via t_wf_disconnect calm_disconnect calm_refl) (simp_all add: server_wf_def)

lemma server_auth_send:
  assumes "prims_safe P" and "server_auth P s" and "length p \<le> payload_max"
  shows "holds (server_auth P) (s_send P p s)"
  using server_wf_send [OF assms(1) _ assms(3), of s] assms(2) by (simp add: server_auth_def holds_def)

lemma server_auth_disconnect:
  assumes "prims_safe P" and "server_auth P s" and "length d \<le> 1024"
  shows "holds (server_auth P) (s_via (disconnect P reason d) s)"
  using server_wf_disconnect [OF assms(1) _ assms(3), of s reason] assms(2) by (simp add: server_auth_def holds_def)

text \<open>The elementary updates, before and after authentication.\<close>

lemma server_wf_updates:
  assumes "server_wf P s"
  shows "server_wf P (s\<lparr>s_handler := h\<rparr>)" "server_wf P (s\<lparr>s_banner_sent := b\<rparr>)"
    "server_wf P (s\<lparr>s_auth_failures := n\<rparr>)" "server_wf P (s\<lparr>s_auth_requests := n\<rparr>)"
    "server_wf P (s_push AuthExhausted s)" "server_wf P (s_push (SrvDisconnect r d) s)"
  using assms by (simp_all add: server_wf_def s_push_def preauth_event_def)

lemma server_auth_updates:
  assumes "server_auth P s"
  shows "server_auth P (s_push e s)" "server_auth P (s\<lparr>s_pending_reply := b\<rparr>)"
    "server_auth P (s\<lparr>s_pending_reply := b, s_program_started := b'\<rparr>)"
    "server_auth P (s\<lparr>s_channel := None, s_program_started := b\<rparr>)"
    "channel_wf ch \<Longrightarrow> server_auth P (s\<lparr>s_channel := Some ch\<rparr>)"
    "channel_wf ch \<Longrightarrow> server_auth P (s\<lparr>s_channel := Some ch, s_program_started := b\<rparr>)"
    "(\<And>ch. channel_wf ch \<Longrightarrow> channel_wf (f ch)) \<Longrightarrow> server_auth P (s\<lparr>s_channel := map_option f (s_channel s)\<rparr>)"
    "(\<And>ch. channel_wf ch \<Longrightarrow> channel_wf (f ch)) \<Longrightarrow> server_auth P (server_with_channel i f s)"
    "s_channel s = Some ch \<Longrightarrow> channel_wf ch"
  using assms
  by (auto simp: server_auth_def server_wf_def s_push_def server_with_channel_def server_channel_for_def split: option.splits)

section \<open>Every handler keeps it\<close>

lemmas small_messages = payload_max_def service_accept_def userauth_failure_def userauth_success_def userauth_banner_def
  userauth_pk_ok_def channel_open_failure_def channel_open_confirmation_def channel_success_def channel_failure_def
  channel_request_exit_status_def channel_eof_def channel_close_def channel_window_adjust_def writer_simps

lemma methods_short: "handler_ok H \<Longrightarrow> length (userauth_failure (h_methods H h) False) \<le> payload_max"
proof -
  assume "handler_ok H"
  then have "length (join_with comma (h_methods H h)) \<le> 1048572" by (simp add: handler_ok_def)
  then show ?thesis by (simp add: small_messages w_name_list_enc)
qed

lemma banner_short: "handler_ok H \<Longrightarrow> h_banner H h = (Some b, h') \<Longrightarrow> length (userauth_banner b) \<le> payload_max"
proof -
  assume "handler_ok H" "h_banner H h = (Some b, h')"
  then have "length b \<le> 1048576" unfolding handler_ok_def by fastforce
  then show ?thesis by (simp add: small_messages)
qed

lemma server_wf_send_failure:
  assumes "prims_safe P" and "handler_ok H" and "server_wf P s"
  shows "holds (server_wf P) (server_send_failure P H s)"
  unfolding server_send_failure_def
  by (intro holds_Let_state hold_intros server_wf_disconnect server_wf_send server_wf_updates assms methods_short)
    (simp_all add: assms(1))

lemma server_wf_finish_auth:
  assumes P: "prims_safe P" and H: "handler_ok H" and s: "server_wf P s"
  shows "holds (server_wf P) (server_finish_auth P H user granted s)"
proof (cases granted)
  case True
  obtain r u where u: "s_send P userauth_success s = (r, u)" by fastforce
  have wf: "holds (server_wf P) (r, u)"
    using server_wf_send [OF P s, of userauth_success] u by (simp add: small_messages)
  show ?thesis
  proof (cases r)
    case (Ok x)
    have "t_phase (s_transport s) = PhaseEstablished"
      using arg_cong [OF u, of fst] Ok by (auto simp: send_packet_def split: if_splits)
    moreover have "calm (s_transport s) (s_transport u)"
      using calm_send_packet [OF calm_refl, of "s_transport s" P userauth_success] arg_cong [OF u, of snd]
      by (auto simp: keeps_def)
    ultimately have "t_phase (s_transport u) = PhaseEstablished" by (simp add: calm_def)
    then show ?thesis using wf True Ok u
      by (auto simp: server_finish_auth_def holds_def server_wf_def s_push_def)
  qed (use wf True u in \<open>auto simp: server_finish_auth_def\<close>)
qed (use server_wf_send_failure [OF assms] in \<open>simp add: server_finish_auth_def\<close>)

lemma server_wf_handle_publickey:
  assumes P: "prims_safe P" and H: "handler_ok H" and s: "server_wf P s"
    and l: "length algo \<le> MAX_PACKET_LENGTH" "length blob \<le> MAX_PACKET_LENGTH"
  shows "holds (server_wf P) (server_handle_publickey P H req algo blob sig s)"
proof (cases "user_parse_blob P blob")
  case (Ok key)
  have "length (userauth_pk_ok algo blob) \<le> payload_max" using l by (simp add: small_messages MAX_PACKET_LENGTH_def)
  then show ?thesis
    using Ok s unfolding server_handle_publickey_def Let_def
    by (auto intro!: hold_intros server_wf_send server_wf_finish_auth server_wf_send_failure server_wf_updates P H
        simp: ok_or_def split: option.splits)
qed (use s not_crashed_auth(1) [of P blob] server_wf_send_failure [OF P H] in \<open>auto simp: server_handle_publickey_def\<close>)

lemma server_wf_handle_userauth:
  assumes P: "prims_safe P" and H: "handler_ok H" and s: "server_wf P s" and l: "length p \<le> MAX_PACKET_LENGTH"
  shows "holds (server_wf P) (server_handle_userauth P H p s)"
proof -
  have "holds (server_wf P) (case ar_method req of
          MethodNone \<Rightarrow> let (granted, h) = h_allow_none H (ar_user req) (s_handler t)
            in server_finish_auth P H (ar_user req) granted (t\<lparr>s_handler := h\<rparr>)
        | MethodPassword password \<Rightarrow> let (granted, h) = h_verify_password H (ar_user req) password (s_handler t)
            in server_finish_auth P H (ar_user req) granted (t\<lparr>s_handler := h\<rparr>)
        | MethodPublicKey key_algo key_blob signature \<Rightarrow> server_handle_publickey P H req key_algo key_blob signature t
        | MethodUnknown _ \<Rightarrow> server_finish_auth P H (ar_user req) False t)"
    if "auth_request_parse p = Ok req" "server_wf P t" for req and t :: "('a, 'b, 'c) server"
    using that auth_request_short [OF that(1)] l
    by (cases "ar_method req")
      (auto simp: Let_def split: prod.split
        intro!: server_wf_finish_auth server_wf_handle_publickey server_wf_updates P H)
  then show ?thesis
    unfolding server_handle_userauth_def
    by (intro holds_Let_state hold_intros server_wf_disconnect server_wf_updates P s) (simp_all add: s server_wf_updates)
qed

lemma server_wf_handle_service_request:
  assumes P: "prims_safe P" and H: "handler_ok H" and s: "server_wf P s"
  shows "holds (server_wf P) (server_handle_service_request P H p s)"
proof -
  have a: "length (service_accept SERVICE_USERAUTH) \<le> payload_max"
    by (simp add: small_messages SERVICE_USERAUTH_def)
  have b: "holds (server_wf P) (let t = t\<lparr>s_banner_sent := True\<rparr>; (banner, h) = h_banner H (s_handler t); t = t\<lparr>s_handler := h\<rparr>
         in case banner of Some text \<Rightarrow> s_send P (userauth_banner text) t | None \<Rightarrow> (Ok (), t))"
    if "server_wf P t" for t :: "('a, 'b, 'c) server"
    using that banner_short [OF H]
    by (auto simp: Let_def split: prod.split option.split intro!: hold_intros server_wf_send server_wf_updates P)
  show ?thesis
    unfolding server_handle_service_request_def
    by (intro hold_intros server_wf_disconnect server_wf_send P s a b) simp_all
qed

lemma server_wf_handle_preauth:
  assumes "prims_safe P" and "handler_ok H" and "server_wf P s" and "length p \<le> MAX_PACKET_LENGTH"
  shows "holds (server_wf P) (server_handle_preauth P H p s)"
  unfolding server_handle_preauth_def
  by (intro hold_intros server_wf_handle_service_request server_wf_handle_userauth assms)

lemma server_auth_transport: "server_auth P s \<Longrightarrow> t_wf (s_transport s)"
  by (simp add: server_auth_def server_wf_def)

lemma server_auth_finish_close:
  assumes P: "prims_safe P" and "server_auth P s" and "channel_wf ch"
  shows "holds (server_auth P) (server_finish_close P ch s)"
  unfolding server_finish_close_def
  by (intro holds_Let_state hold_intros server_auth_send P server_auth_updates channel_wf_updates assms)
    (simp_all add: small_messages)

lemma server_auth_flush_channel:
  assumes P: "prims_safe P" and s: "server_auth P s"
  shows "holds (server_auth P) (server_flush_channel P s)"
proof (cases "s_channel s")
  case (Some ch)
  have wf: "channel_wf ch" by (rule server_auth_updates(9) [OF s Some])
  obtain ms ch' where d: "drain_output (ob_max_chunk (t_obfuscation (s_transport s))) ch = (Ok ms, ch')"
    and ch': "channel_wf ch'" "\<forall>m\<in>set ms. length m \<le> payload_max"
    using drain_output_calm [OF wf] by blast
  have sends: "holds (server_auth P) (s_via (send_packets P ms) t)" "holds (server_auth P) (s_via (send_chaff_burst P) t)"
    if "server_auth P t" for t :: "('a, 'b, 'c) server"
    using that ch'(2) server_auth_transport [OF that]
    by (auto intro!: server_auth_via t_wf_send_packets t_wf_send_chaff_burst calm_send_packets calm_send_chaff_burst P)
  show ?thesis
    unfolding server_flush_channel_def Some option.case d Let_def prod.case onOk_simps
    by (intro hold_intros sends server_auth_finish_close P server_auth_updates(5) s ch'(1))
qed (use s in \<open>simp add: server_flush_channel_def holds_def\<close>)

lemma server_auth_reply:
  assumes "prims_safe P" and "server_auth P s"
  shows "holds (server_auth P) (server_reply P w b s)"
  unfolding server_reply_def
  by (intro hold_intros server_auth_send assms) (simp_all add: small_messages)

lemma server_auth_parts:
  assumes "server_auth P s"
  shows "server_auth P (snd (server_apply_resize c r w h s))" "server_auth P (snd (server_consume n s))"
proof -
  show "server_auth P (snd (server_apply_resize c r w h s))"
    using assms channel_wf_updates(7) [OF server_auth_updates(9) [OF assms], of _ c r w h]
    by (auto simp: server_apply_resize_def Let_def split_def intro!: server_auth_updates(5) split: option.split)
  show "server_auth P (snd (server_consume n s))"
    using assms channel_wf_updates(8) [OF server_auth_updates(9) [OF assms], of _ n]
    by (auto simp: server_consume_def Let_def split_def intro!: server_auth_updates(5) split: option.split)
qed

lemma server_auth_if: "(b \<Longrightarrow> server_auth P x) \<Longrightarrow> (\<not> b \<Longrightarrow> server_auth P y) \<Longrightarrow> server_auth P (if b then x else y)"
  by simp

lemma server_auth_channel_request:
  assumes P: "prims_safe P" and s: "server_auth P s"
  shows "holds (server_auth P) (server_handle_channel_request P p s)"
proof -
  have pty: "holds (server_auth P) (server_pty_req P w r s)" for w r
    unfolding server_pty_req_def Let_def
    by (intro hold_intros server_auth_reply server_auth_if server_auth_updates(7) channel_wf_updates P s) (simp_all add: s)
  have win: "holds (server_auth P) (server_window_change P w r s)" for w r
    using server_auth_parts(1) [OF s] unfolding server_window_change_def Let_def split_def
    by (intro hold_intros server_auth_reply server_auth_if server_auth_updates(1) P s) (simp_all add: s)
  show ?thesis
    unfolding server_handle_channel_request_def server_start_program_def
    by (intro hold_intros server_auth_reply server_auth_updates pty win P s) simp_all
qed

lemma server_auth_handle_connection:
  assumes P: "prims_safe P" and s: "server_auth P s"
  shows "holds (server_auth P) (server_handle_connection P p s)"
proof -
  have "holds (server_auth P) (server_handle_channel_open P p s)"
    unfolding server_handle_channel_open_def
    by (intro hold_intros server_auth_send server_auth_updates channel_wf_updates channel_wf_new P s)
      (simp_all add: small_messages)
  moreover have "holds (server_auth P) (server_handle_channel_data P p s)"
    using server_auth_parts(2) [OF s] unfolding server_handle_channel_data_def Let_def split_def
    by (intro hold_intros server_auth_disconnect server_auth_updates(1) P s) simp_all
  moreover have "holds (server_auth P) (server_handle_window_adjust P p s)"
    unfolding server_handle_window_adjust_def
    by (intro hold_intros server_auth_flush_channel server_auth_updates(7) channel_wf_updates P s) simp_all
  moreover have "holds (server_auth P) (server_handle_channel_close P s)"
    using server_auth_updates(9) [OF s] unfolding server_handle_channel_close_def Let_def
    by (intro hold_intros server_auth_send server_auth_updates(1-6) channel_wf_updates P s) (simp_all add: small_messages)
  ultimately show ?thesis
    unfolding server_handle_connection_def
    by (intro hold_intros server_auth_channel_request server_auth_updates P s)
qed

section \<open>The loop, and every public method\<close>

lemma server_wf_handle_event:
  assumes P: "prims_safe P" and H: "handler_ok H" and s: "server_wf P s"
    and e: "\<And>p. e = Packet p \<Longrightarrow> length p \<le> MAX_PACKET_LENGTH"
  shows "holds (server_wf P) (server_handle_event P H e s)"
proof (cases e)
  case (Packet p)
  show ?thesis
  proof (cases "s_authenticated s")
    case None
    then show ?thesis using server_wf_handle_preauth [OF P H s e [OF Packet]] Packet by (simp add: server_handle_event_def)
  next
    case (Some u)
    with s have "server_auth P s" by (simp add: server_auth_def)
    from server_auth_handle_connection [OF P this, of p] show ?thesis
      using Some Packet by (simp add: server_handle_event_def holds_def server_auth_def)
  qed
qed (use s in \<open>auto simp: server_handle_event_def holds_def server_wf_updates\<close>)

lemma server_wf_pump:
  assumes P: "prims_safe P" and H: "handler_ok H"
  shows "server_wf P s \<Longrightarrow> holds (server_wf P) (server_pump P H s)"
proof (induction "length (t_events (s_transport s))" arbitrary: s rule: less_induct)
  case less
  show ?case
  proof (cases "t_events (s_transport s)")
    case Nil
    then show ?thesis using less.prems by (subst server_pump.simps) (simp add: poll_event_def holds_def)
  next
    case (Cons e es)
    let ?t = "(s_transport s)\<lparr>t_events := es\<rparr>"
    have wf: "server_wf P (s\<lparr>s_transport := ?t\<rparr>)"
      using less.prems Cons by (auto simp: server_wf_def t_wf_updates events_ok_def)
    have e: "length p \<le> MAX_PACKET_LENGTH" if "e = Packet p" for p
      using less.prems P Cons that by (auto simp: server_wf_def events_ok_def)
    obtain r u where u: "server_handle_event P H e (s\<lparr>s_transport := ?t\<rparr>) = (r, u)" by fastforce
    have h: "holds (server_wf P) (r, u)" using server_wf_handle_event [OF P H wf, of e] e u by simp
    have "s_calm ?t u"
      using s_calm_handle_event [of ?t "s\<lparr>s_transport := ?t\<rparr>" P H e] u by (simp add: s_calm_def keeps_def)
    then have "length (t_events (s_transport u)) < length (t_events (s_transport s))"
      using Cons by (simp add: s_calm_def calm_def)
    with less.hyps h have "holds (server_wf P) (server_pump P H u)" if "r = Ok ()" using that by (simp add: holds_def)
    then show ?thesis
      using h u Cons by (subst server_pump.simps) (cases r; auto simp: poll_event_def)
  qed
qed

lemma server_wf_on_input:
  assumes P: "prims_safe P" and H: "handler_ok H" and s: "server_wf P s"
  shows "holds (server_wf P) (server_on_input P H data s)"
proof -
  let ?t = "s_transport s"
  have t: "t_wf ?t" "events_ok P ?t" using s by (simp_all add: server_wf_def)
  have "holds t_wf (on_input P data ?t)" by (rule t_wf_on_input [OF P t(1)])
  moreover have "events_ok P (snd (on_input P data ?t))"
    using reported.keep_on_input [OF t(2)] by (simp add: keeps_def)
  moreover have "t_phase ?t = PhaseEstablished \<longrightarrow> t_phase (snd (on_input P data ?t)) = PhaseEstablished"
    by (rule established_stays)
  ultimately have "holds (server_wf P) (s_via (on_input P data) s)"
    using s by (simp add: holds_def server_wf_def)
  then show ?thesis
    unfolding server_on_input_def by (intro holds_andThen server_wf_pump [OF P H]) auto
qed

text \<open>One call of a public method by a driver, and the states a server can reach.\<close>

inductive server_step :: "('r, 'z) prims \<Rightarrow> 'h auth_handler \<Rightarrow> ('r, 'z, 'h) server \<Rightarrow> ('r, 'z, 'h) server \<Rightarrow> bool"
  for P :: "('r, 'z) prims" and H :: "'h auth_handler" where
  srv_input: "server_step P H s (snd (server_on_input P H data s))"
| srv_stdout: "server_step P H s (snd (server_channel_stdout P ch data s))"
| srv_stderr: "server_step P H s (snd (server_channel_stderr P ch data s))"
| srv_exit: "server_step P H s (snd (server_channel_exit P ch status s))"
| srv_consumed: "server_step P H s (snd (server_channel_consumed P ch n s))"
| srv_flushed: "server_step P H s (snd (server_take_flushed_output ch s))"
| srv_accept: "server_step P H s (snd (server_accept_channel P ch s))"
| srv_reject: "server_step P H s (snd (server_reject_channel P ch s))"
| srv_raw: "length p \<le> payload_max \<Longrightarrow> server_step P H s (snd (server_send_raw_packet P p s))"
| srv_rekey: "server_step P H s (snd (server_initiate_rekey P s))"
| srv_chaff: "server_step P H s (snd (server_send_chaff P s))"
| srv_take: "server_step P H s (snd (server_take_output s))"
| srv_clear: "server_step P H s (server_clear_output s)"
| srv_poll: "server_step P H s (snd (server_poll_event s))"
| srv_max: "server_step P H s (server_set_max_consecutive_rekeys n s)"
| srv_pty: "server_step P H s (server_set_allow_pty b s)"
| srv_obfuscation: "server_step P H s (server_set_obfuscation ob s)"

inductive server_reachable :: "('r, 'z) prims \<Rightarrow> 'h auth_handler \<Rightarrow> ('r, 'z, 'h) server \<Rightarrow> bool"
  for P :: "('r, 'z) prims" and H :: "'h auth_handler" where
  srv_new: "server_new P rng hk h = (Ok (), s) \<Longrightarrow> server_reachable P H s"
| srv_step: "server_reachable P H s \<Longrightarrow> server_step P H s s' \<Longrightarrow> server_reachable P H s'"

lemma server_wf_new: "prims_safe P \<Longrightarrow> server_new P rng hk h = (Ok (), s) \<Longrightarrow> server_wf P s"
proof -
  assume P: "prims_safe P" and n: "server_new P rng hk h = (Ok (), s)"
  obtain r t where t: "new_server P rng hk = (r, t)" by fastforce
  with n have s: "r = Ok ()" "s_transport s = t" "s_authenticated s = None" "s_channel s = None" "\<not> s_pending_reply s"
    "\<not> s_program_started s" "s_events s = []" by (auto simp: server_new_def)
  have "offers_ok (transport_init Server rng (Some hk) None None :: ('a, 'b) transport)"
    by (simp add: offers_ok_def transport_init_def)
  then have r: "reachable P t"
    using t s(1) by (auto simp: new_server_def intro: reachable.reach_start)
  have "events_ok P t"
    by (rule reported.keep_reachable [OF _ r]) (simp add: events_ok_def transport_init_def)
  with reachable_wf [OF P r] s show ?thesis by (simp add: server_wf_def)
qed

text \<open>A call that works on the channel changes nothing before authentication.\<close>

lemma server_no_channel:
  assumes "server_wf P s" and "s_authenticated s = None"
  shows "server_with_channel i f s = s" "server_flush_channel P s = (Ok (), s)" "server_channel_for i s = None"
    "s_pending_reply s = False"
  using assms by (simp_all add: server_wf_def server_with_channel_def server_flush_channel_def server_channel_for_def)

lemma server_preauth_calls:
  assumes s: "server_wf P s" and "s_authenticated s = None"
  shows "server_channel_stdout P ch data s = (Ok (), s)" "server_channel_stderr P ch data s = (Ok (), s)"
    "server_channel_exit P ch status s = (Ok (), s)" "server_channel_consumed P ch n s = (Ok (), s)"
    "server_accept_channel P ch s = (Ok (), s)" "server_reject_channel P ch s = (Ok (), s)"
    "server_take_flushed_output ch s = (0, s)"
proof -
  note none = server_no_channel [OF assms]
  have "s\<lparr>s_pending_reply := False\<rparr> = s" using none(4) by (cases s) simp
  then show "server_accept_channel P ch s = (Ok (), s)" "server_reject_channel P ch s = (Ok (), s)"
    by (simp_all add: server_accept_channel_def server_reject_channel_def server_reply_def none)
qed (simp_all add: server_no_channel [OF assms] server_channel_stdout_def server_channel_stderr_def
    server_channel_exit_def server_channel_consumed_def server_take_flushed_output_def)

lemma server_auth_calls:
  assumes P: "prims_safe P" and a: "server_auth P s"
  shows "holds (server_auth P) (server_channel_stdout P ch data s)" "holds (server_auth P) (server_channel_stderr P ch data s)"
    "holds (server_auth P) (server_channel_exit P ch status s)" "holds (server_auth P) (server_channel_consumed P ch n s)"
    "holds (server_auth P) (server_accept_channel P ch s)" "holds (server_auth P) (server_reject_channel P ch s)"
    "server_auth P (snd (server_take_flushed_output ch s))"
proof -
  have c: "channel_wf c" if "server_channel_for ch s = Some c" for c
    using server_auth_updates(9) [OF a, of c] that by (auto simp: server_channel_for_def split: option.splits if_splits)
  show "holds (server_auth P) (server_channel_consumed P ch n s)"
    using c channel_wf_updates(9) unfolding server_channel_consumed_def Let_def split_def
    by (intro hold_intros server_auth_send P server_auth_updates(5) a) (auto simp: small_messages)
  show "server_auth P (snd (server_take_flushed_output ch s))"
    using c channel_wf_updates(10) a
    by (auto simp: server_take_flushed_output_def Let_def split_def intro!: server_auth_updates(5) split: option.split)
  show "holds (server_auth P) (server_channel_exit P ch status s)"
    unfolding server_channel_exit_def
    by (intro server_auth_flush_channel P server_auth_updates(8) a channel_wf_updates)
  show "holds (server_auth P) (server_channel_stdout P ch data s)" "holds (server_auth P) (server_channel_stderr P ch data s)"
    unfolding server_channel_stdout_def server_channel_stderr_def
    by (intro server_auth_flush_channel P server_auth_updates(8) a channel_wf_updates; assumption)+
  show "holds (server_auth P) (server_accept_channel P ch s)" "holds (server_auth P) (server_reject_channel P ch s)"
    unfolding server_accept_channel_def server_reject_channel_def
    by (intro server_auth_reply P server_auth_updates(2) a)+
qed

lemma server_wf_calls:
  assumes P: "prims_safe P" and s: "server_wf P s"
  shows "holds (server_wf P) (server_channel_stdout P ch data s)" "holds (server_wf P) (server_channel_stderr P ch data s)"
    "holds (server_wf P) (server_channel_exit P ch status s)" "holds (server_wf P) (server_channel_consumed P ch n s)"
    "holds (server_wf P) (server_accept_channel P ch s)" "holds (server_wf P) (server_reject_channel P ch s)"
    "server_wf P (snd (server_take_flushed_output ch s))"
  using server_preauth_calls [OF s] server_auth_calls [OF P, of s] s
  by (cases "s_authenticated s"; simp add: holds_def server_auth_def)+

lemma server_wf_transport_calls:
  assumes P: "prims_safe P" and s: "server_wf P s"
  shows "length p \<le> payload_max \<Longrightarrow> holds (server_wf P) (server_send_raw_packet P p s)"
    "holds (server_wf P) (server_initiate_rekey P s)" "holds (server_wf P) (server_send_chaff P s)"
  unfolding server_send_raw_packet_def server_initiate_rekey_def server_send_chaff_def
  using s [unfolded server_wf_def] P
  by (auto intro!: server_wf_via s t_wf_send_packet t_wf_initiate_rekey t_wf_send_chaff
      calm_send_packet calm_initiate_rekey calm_send_chaff)

lemma server_wf_step:
  assumes P: "prims_safe P" and H: "handler_ok H" and st: "server_step P H s s'" and s: "server_wf P s"
  shows "server_wf P s'"
  using st
proof cases
  case (srv_input data)
  then show ?thesis using server_wf_on_input [OF P H s] by (simp add: holds_def)
qed (use s server_wf_calls [OF P s] server_wf_transport_calls [OF P s] in
    \<open>auto simp: holds_def server_take_output_def take_output_def server_clear_output_def clear_output_def
      server_poll_event_def server_set_max_consecutive_rekeys_def set_max_consecutive_peer_rekeys_def
      server_set_allow_pty_def server_set_obfuscation_def set_obfuscation_def server_wf_def t_wf_updates events_ok_def
      split: list.splits\<close>)

lemma server_reachable_wf:
  assumes "prims_safe P" and "handler_ok H"
  shows "server_reachable P H s \<Longrightarrow> server_wf P s"
proof (induction rule: server_reachable.induct)
  case (srv_new rng hk h s)
  then show ?case by (rule server_wf_new [OF assms(1)])
next
  case (srv_step s s')
  then show ?case using server_wf_step [OF assms] by blast
qed

section \<open>Invariants of the session\<close>

lemma server_pump_keeps_polled:
  assumes ev: "\<And>s e es. I s \<Longrightarrow> t_events (s_transport s) = e # es \<Longrightarrow>
      keeps I (server_handle_event P H e (s\<lparr>s_transport := (s_transport s)\<lparr>t_events := es\<rparr>\<rparr>))"
  shows "I s \<Longrightarrow> keeps I (server_pump P H s)"
proof (induction "length (t_events (s_transport s))" arbitrary: s rule: less_induct)
  case less
  show ?case
  proof (cases "t_events (s_transport s)")
    case Nil
    then show ?thesis using less.prems by (subst server_pump.simps) (simp add: poll_event_def keeps_def)
  next
    case (Cons e es)
    let ?t = "(s_transport s)\<lparr>t_events := es\<rparr>"
    obtain r u where u: "server_handle_event P H e (s\<lparr>s_transport := ?t\<rparr>) = (r, u)" by fastforce
    have I: "I u" using ev [OF less.prems Cons] u by (simp add: keeps_def)
    have "s_calm ?t u"
      using s_calm_handle_event [of ?t "s\<lparr>s_transport := ?t\<rparr>" P H e] u by (simp add: s_calm_def keeps_def)
    then have "length (t_events (s_transport u)) < length (t_events (s_transport s))"
      using Cons by (simp add: s_calm_def calm_def)
    with less.hyps I have "keeps I (server_pump P H u)" by blast
    then show ?thesis
      using I u Cons by (subst server_pump.simps) (cases r; auto simp: poll_event_def keeps_def)
  qed
qed

lemma server_pump_keeps:
  assumes "\<And>e s. I s \<Longrightarrow> keeps I (server_handle_event P H e s)"
    and "\<And>s e es. I s \<Longrightarrow> t_events (s_transport s) = e # es \<Longrightarrow> I (s\<lparr>s_transport := (s_transport s)\<lparr>t_events := es\<rparr>\<rparr>)"
  shows "I s \<Longrightarrow> keeps I (server_pump P H s)"
  by (rule server_pump_keeps_polled) (rule assms(1) [OF assms(2)])

locale server_calls = connection_keeps I for I :: "('r, 'z, 'h) server \<Rightarrow> bool" +
  assumes upd_polled: "I s \<Longrightarrow> s_events s = e # es \<Longrightarrow> I (s\<lparr>s_events := es\<rparr>)"
    and upd_allow: "I s \<Longrightarrow> I (s\<lparr>s_allow_pty := b\<rparr>)"
    and upd_taken: "I s \<Longrightarrow> I (s\<lparr>s_transport := (s_transport s)\<lparr>t_tx := []\<rparr>\<rparr>)"
begin

lemma keep_with_channel: "I s \<Longrightarrow> I (server_with_channel ch f s)"
  by (auto simp: server_with_channel_def intro: conn_updates split: option.split)

lemma keep_consumed: "I s \<Longrightarrow> keeps I (server_channel_consumed P ch n s)"
  unfolding server_channel_consumed_def Let_def by (intro keep_intros sends conn_updates)

text \<open>Every call but \<open>on_input\<close>.\<close>

lemma keep_server_call: "server_step P H s s' \<Longrightarrow> I s \<Longrightarrow> (\<exists>data. s' = snd (server_on_input P H data s)) \<or> I s'"
proof (induction rule: server_step.induct)
  case (srv_consumed s ch n)
  then show ?case using keep_consumed by (simp add: keeps_def)
next
  case (srv_flushed s ch)
  then show ?case
    by (auto simp: server_take_flushed_output_def Let_def split_def intro: conn_updates split: option.split)
next
  case (srv_poll s)
  then show ?case by (auto simp: server_poll_event_def intro: upd_polled split: list.split)
qed (use keep_flush_channel [OF keep_with_channel] keep_reply [OF upd_pending] sends(1,5,6) upd_allow upd_taken in
    \<open>auto simp: keeps_def server_channel_stdout_def server_channel_stderr_def server_channel_exit_def
      server_accept_channel_def server_reject_channel_def server_send_raw_packet_def server_initiate_rekey_def
      server_send_chaff_def server_take_output_def take_output_def server_clear_output_def clear_output_def
      server_set_max_consecutive_rekeys_def set_max_consecutive_peer_rekeys_def server_set_allow_pty_def
      server_set_obfuscation_def set_obfuscation_def intro!: via_calm simp: calm_def simp del: s_via_simps\<close>)

end

locale server_invariant = server_calls I for I :: "('r, 'z, 'h) server \<Rightarrow> bool" +
  fixes P :: "('r, 'z) prims" and H :: "'h auth_handler"
  assumes input: "I s \<Longrightarrow> keeps I (server_on_input P H data s)"
begin

lemma keep_server_step: "server_step P H s s' \<Longrightarrow> I s \<Longrightarrow> I s'"
  using keep_server_call [of P H s s'] input by (auto simp: keeps_def)

lemma keep_server_reachable:
  assumes "\<And>rng hk h s. server_new P rng hk h = (Ok (), s) \<Longrightarrow> I s"
  shows "server_reachable P H s \<Longrightarrow> I s"
  by (induction rule: server_reachable.induct) (use assms keep_server_step in auto)

end

end
