(* ===== verification/Server_Auth.thy ===== *)
theory Server_Auth
  imports Server_Safety
begin

text \<open>
  Authentication on the server: who is let in, how often a peer may try, what the session does on each
  request of the connection protocol, and the absence of panics.
\<close>

section \<open>The caps on attempts\<close>

definition handler_limits :: "'h auth_handler \<Rightarrow> u32 \<Rightarrow> u32 \<Rightarrow> bool" where
  "handler_limits H attempts requests \<longleftrightarrow> 0 < attempts \<and>
     (\<forall>h. h_max_auth_attempts H h = attempts \<and> h_max_auth_requests H h = requests)"

definition caps_ok :: "('r, 'z) prims \<Rightarrow> 'h auth_handler \<Rightarrow> u32 \<Rightarrow> u32 \<Rightarrow> ('r, 'z, 'h) server \<Rightarrow> bool" where
  "caps_ok P H attempts requests s \<longleftrightarrow> (prims_safe P \<and> handler_limits H attempts requests \<longrightarrow>
     t_closing (s_transport s) \<or> s_auth_failures s < attempts \<and> s_auth_requests s \<le> requests)"

lemma caps_ok_closed: "t_closing (s_transport s) \<Longrightarrow> caps_ok P H A R s"
  by (simp add: caps_ok_def)

lemma caps_ok_disconnect:
  assumes "caps_ok P H A R s" and "length d \<le> 1024"
  shows "prims_safe P \<and> handler_limits H A R \<longrightarrow>
    (\<exists>t. s_via (disconnect P reason d) s' = (Ok (), s'\<lparr>s_transport := t\<rparr>) \<and> t_closing t)"
proof
  assume "prims_safe P \<and> handler_limits H A R"
  then obtain t where "disconnect P reason d (s_transport s') = (Ok (), t)" "t_closing t"
    using disconnect_closes [OF _ assms(2)] by blast
  then show "\<exists>t. s_via (disconnect P reason d) s' = (Ok (), s'\<lparr>s_transport := t\<rparr>) \<and> t_closing t"
    by (auto simp: s_via_def on_field_def)
qed

interpretation caps: connection_keeps "caps_ok P H A R" for P H A R
  by unfold_locales (auto simp: caps_ok_def calm_def s_push_def)

lemma caps_ok_updates:
  assumes "caps_ok P H A R s"
  shows "caps_ok P H A R (s\<lparr>s_handler := h\<rparr>)" "caps_ok P H A R (s\<lparr>s_banner_sent := b\<rparr>)"
    "caps_ok P H A R (s\<lparr>s_authenticated := u\<rparr>)"
  using assms by (simp_all add: caps_ok_def)

lemma caps_ok_send_failure: "caps_ok P H A R s \<Longrightarrow> keeps (caps_ok P H A R) (server_send_failure P H s)"
proof (cases "prims_safe P \<and> handler_limits H A R")
  case True
  assume c: "caps_ok P H A R s"
  let ?s = "s\<lparr>s_auth_failures := s_auth_failures s + 1\<rparr>"
  show ?thesis
  proof (cases "A \<le> s_auth_failures s + 1")
    case big: True
    from caps_ok_disconnect [OF c, of "str ''too many authentication failures''" disconnect_NO_MORE_AUTH_METHODS_AVAILABLE ?s] True
    show ?thesis using big True
      by (auto simp: server_send_failure_def Let_def handler_limits_def keeps_def s_push_def caps_ok_closed)
  next
    case False
    then have "caps_ok P H A R ?s" using c True by (auto simp: caps_ok_def)
    from caps.sends(1) [OF this] show ?thesis
      using False True by (simp add: server_send_failure_def Let_def handler_limits_def)
  qed
qed (auto simp: caps_ok_def keeps_def)

lemma caps_ok_finish_auth: "caps_ok P H A R s \<Longrightarrow> keeps (caps_ok P H A R) (server_finish_auth P H u g s)"
  unfolding server_finish_auth_def
  by (intro keep_intros caps.sends caps.upd_push caps_ok_updates caps_ok_send_failure)

lemma caps_ok_handle_publickey:
  "caps_ok P H A R s \<Longrightarrow> keeps (caps_ok P H A R) (server_handle_publickey P H req algo blob sig s)"
  by (auto simp: server_handle_publickey_def Let_def
      intro!: keep_intros caps.sends caps_ok_updates caps_ok_send_failure caps_ok_finish_auth split: result.split)

lemma caps_ok_handle_userauth: "caps_ok P H A R s \<Longrightarrow> keeps (caps_ok P H A R) (server_handle_userauth P H p s)"
proof (cases "prims_safe P \<and> handler_limits H A R")
  case True
  assume c: "caps_ok P H A R s"
  let ?s = "s\<lparr>s_auth_requests := s_auth_requests s + 1\<rparr>"
  show ?thesis
  proof (cases "R < s_auth_requests s + 1")
    case big: True
    from caps_ok_disconnect [OF c, of "str ''too many authentication requests''" disconnect_PROTOCOL_ERROR ?s] True
    show ?thesis using big True
      by (auto simp: server_handle_userauth_def Let_def handler_limits_def keeps_def s_push_def caps_ok_closed)
  next
    case False
    then have s: "caps_ok P H A R ?s" using c True by (auto simp: caps_ok_def not_less)
    then show ?thesis
      unfolding server_handle_userauth_def using False True
      by (auto simp: Let_def handler_limits_def intro!: keep_intros caps_ok_handle_publickey caps_ok_finish_auth
          caps_ok_updates split: auth_method.split)
  qed
qed (auto simp: caps_ok_def keeps_def)

lemma caps_ok_handle_event: "caps_ok P H A R s \<Longrightarrow> keeps (caps_ok P H A R) (server_handle_event P H e s)"
  unfolding server_handle_event_def server_handle_preauth_def server_handle_service_request_def
  by (auto split: event.split option.split
      intro!: keep_intros caps.upd_push caps.keep_handle_connection caps.sends caps_ok_updates caps_ok_handle_userauth)

interpretation capped: server_invariant "caps_ok P H A R" P H for P H A R
proof
  fix s :: "('a, 'b, 'c) server" and data
  assume s: "caps_ok P H A R s"
  have "t_closing (s_transport s) \<Longrightarrow> t_closing (snd (on_input P data (s_transport s)))" by (simp add: on_input_def)
  with s have "keeps (caps_ok P H A R) (s_via (on_input P data) s)" by (auto simp: keeps_def caps_ok_def)
  then show "keeps (caps_ok P H A R) (server_on_input P H data s)"
    unfolding server_on_input_def
    by (intro keeps_andThen server_pump_keeps caps_ok_handle_event) (auto simp: caps_ok_def)
qed (auto simp: caps_ok_def)

section \<open>Who is let in\<close>

text \<open>What a request must show, as a reference definition: the application vouches for the user, or it knows the
  key and the signature over this session's data verifies under it.\<close>

definition auth_granted ::
    "('r, 'z) prims \<Rightarrow> 'h auth_handler \<Rightarrow> bytes option \<Rightarrow> 'h \<Rightarrow> auth_request \<Rightarrow> bool" where
  "auth_granted P H sid h req =
     (case ar_method req of
        MethodNone \<Rightarrow> fst (h_allow_none H (ar_user req) h)
      | MethodPassword password \<Rightarrow> fst (h_verify_password H (ar_user req) password h)
      | MethodPublicKey algo blob (Some sig) \<Rightarrow>
          (case (user_parse_blob P blob, sid) of
             (Ok key, Some i) \<Rightarrow> fst (h_is_authorized_key H (ar_user req) key h) \<and>
               user_verify P key (publickey_signed_data i (ar_user req) (ar_service req) algo blob) sig = Ok ()
           | _ \<Rightarrow> False)
      | _ \<Rightarrow> False)"

definition vouched :: "('r, 'z) prims \<Rightarrow> 'h auth_handler \<Rightarrow> bytes option \<Rightarrow> bytes set \<Rightarrow> bytes \<Rightarrow> bool" where
  "vouched P H sid packets u \<longleftrightarrow> (\<exists>p\<in>packets. \<exists>req h. first_byte p = Some msg_USERAUTH_REQUEST \<and>
     auth_request_parse p = Ok req \<and> ar_user req = u \<and> auth_granted P H sid h req)"

definition grants_ok :: "('r, 'z) prims \<Rightarrow> 'h auth_handler \<Rightarrow> bytes option \<Rightarrow> bytes set \<Rightarrow> ('r, 'z, 'h) server \<Rightarrow> bool" where
  "grants_ok P H sid packets s \<longleftrightarrow> t_session_id (s_transport s) = sid \<and>
     (\<forall>p. Packet p \<in> set (t_events (s_transport s)) \<longrightarrow> p \<in> packets) \<and>
     (\<forall>u. s_authenticated s = Some u \<longrightarrow> vouched P H sid packets u)"

interpretation grants: connection_keeps "grants_ok P H sid packets" for P H sid packets
  by unfold_locales (auto simp: grants_ok_def calm_def s_push_def)

lemma grants_ok_updates:
  assumes "grants_ok P H sid packets s"
  shows "grants_ok P H sid packets (s\<lparr>s_handler := h\<rparr>)" "grants_ok P H sid packets (s\<lparr>s_banner_sent := b\<rparr>)"
    "grants_ok P H sid packets (s\<lparr>s_auth_failures := n\<rparr>)" "grants_ok P H sid packets (s\<lparr>s_auth_requests := n\<rparr>)"
    "vouched P H sid packets u \<Longrightarrow> grants_ok P H sid packets (s\<lparr>s_authenticated := Some u\<rparr>)"
  using assms by (auto simp: grants_ok_def)

lemma grants_ok_send_failure:
  "grants_ok P H sid packets s \<Longrightarrow> keeps (grants_ok P H sid packets) (server_send_failure P H s)"
  unfolding server_send_failure_def
  by (intro keeps_Let_state keep_intros grants.sends grants.upd_push grants_ok_updates)

lemma grants_ok_finish_auth:
  "grants_ok P H sid packets s \<Longrightarrow> (g \<Longrightarrow> vouched P H sid packets u) \<Longrightarrow>
     keeps (grants_ok P H sid packets) (server_finish_auth P H u g s)"
  unfolding server_finish_auth_def
  by (intro keep_intros grants.sends grants.upd_push grants_ok_updates grants_ok_send_failure)

lemma grants_ok_handle_publickey:
  assumes s: "grants_ok P H sid packets s"
    and v: "\<And>h. auth_granted P H sid h req \<Longrightarrow> vouched P H sid packets (ar_user req)"
    and m: "ar_method req = MethodPublicKey algo blob sig"
  shows "keeps (grants_ok P H sid packets) (server_handle_publickey P H req algo blob sig s)"
proof (cases "user_parse_blob P blob")
  case (Ok key)
  have id: "t_session_id (s_transport s) = sid" using s by (simp add: grants_ok_def)
  obtain a h where a: "h_is_authorized_key H (ar_user req) key (s_handler s) = (a, h)" by fastforce
  have "vouched P H sid packets (ar_user req)"
    if "a" "sig = Some sg" "sid = Some i"
      "user_verify P key (publickey_signed_data i (ar_user req) (ar_service req) algo blob) sg = Ok ()" for sg i
    by (rule v [of "s_handler s"]) (use that Ok a m in \<open>simp add: auth_granted_def\<close>)
  then show ?thesis
    using s unfolding server_handle_publickey_def Ok result.case Let_def a prod.case
    by (auto simp: id ok_or_def split: option.split result.split
        intro!: keep_intros grants_ok_send_failure grants_ok_finish_auth grants.sends grants_ok_updates)
qed (use s grants_ok_send_failure in \<open>auto simp: server_handle_publickey_def keeps_def\<close>)

lemma grants_ok_handle_userauth:
  assumes s: "grants_ok P H sid packets s" and p: "p \<in> packets" "first_byte p = Some msg_USERAUTH_REQUEST"
  shows "keeps (grants_ok P H sid packets) (server_handle_userauth P H p s)"
proof -
  have v: "vouched P H sid packets (ar_user req)" if "auth_request_parse p = Ok req" "auth_granted P H sid h req" for req h
    using that p unfolding vouched_def by blast
  have "keeps (grants_ok P H sid packets) (case ar_method req of
          MethodNone \<Rightarrow> let (granted, h) = h_allow_none H (ar_user req) (s_handler t)
            in server_finish_auth P H (ar_user req) granted (t\<lparr>s_handler := h\<rparr>)
        | MethodPassword password \<Rightarrow> let (granted, h) = h_verify_password H (ar_user req) password (s_handler t)
            in server_finish_auth P H (ar_user req) granted (t\<lparr>s_handler := h\<rparr>)
        | MethodPublicKey key_algo key_blob signature \<Rightarrow> server_handle_publickey P H req key_algo key_blob signature t
        | MethodUnknown _ \<Rightarrow> server_finish_auth P H (ar_user req) False t)"
    if r: "auth_request_parse p = Ok req" and t: "grants_ok P H sid packets t" for req and t :: "('a, 'b, 'c) server"
  proof (cases "ar_method req")
    case MethodNone
    obtain g h where "h_allow_none H (ar_user req) (s_handler t) = (g, h)" by fastforce
    then show ?thesis using v [OF r, of "s_handler t"] MethodNone
      by (auto simp: auth_granted_def intro!: grants_ok_finish_auth grants_ok_updates t)
  next
    case (MethodPassword pw)
    obtain g h where "h_verify_password H (ar_user req) pw (s_handler t) = (g, h)" by fastforce
    then show ?thesis using v [OF r, of "s_handler t"] MethodPassword
      by (auto simp: auth_granted_def intro!: grants_ok_finish_auth grants_ok_updates t)
  next
    case (MethodPublicKey algo blob sig)
    then show ?thesis using grants_ok_handle_publickey [OF t v [OF r] MethodPublicKey] by simp
  qed (simp add: grants_ok_finish_auth t)
  then show ?thesis
    unfolding server_handle_userauth_def
    by (intro keeps_Let_state keep_intros grants.sends grants.upd_push grants_ok_updates s) auto
qed

lemma grants_ok_handle_event:
  assumes s: "grants_ok P H sid packets s" and e: "\<And>p. e = Packet p \<Longrightarrow> p \<in> packets"
  shows "keeps (grants_ok P H sid packets) (server_handle_event P H e s)"
  unfolding server_handle_event_def server_handle_preauth_def server_handle_service_request_def
  by (auto split: event.split option.split
      intro!: keep_intros grants.upd_push grants.keep_handle_connection grants.sends grants_ok_updates
        grants_ok_handle_userauth s e)

definition user_is :: "bytes option \<Rightarrow> ('r, 'z, 'h) server \<Rightarrow> bool" where
  "user_is u s \<longleftrightarrow> s_authenticated s = u"

interpretation user: server_calls "user_is u" for u
  by unfold_locales (auto simp: user_is_def s_push_def)

text \<open>The verdict on a request within the cap: success, the answer to a probe, or a counted failure.\<close>

definition pk_probe_ok :: "('r, 'z) prims \<Rightarrow> 'h auth_handler \<Rightarrow> 'h \<Rightarrow> auth_request \<Rightarrow> bool" where
  "pk_probe_ok P H h req =
     (case ar_method req of
        MethodPublicKey _ blob None \<Rightarrow>
          (case user_parse_blob P blob of Ok key \<Rightarrow> fst (h_is_authorized_key H (ar_user req) key h) | _ \<Rightarrow> False)
      | _ \<Rightarrow> False)"

definition counted_failure :: "u32 \<Rightarrow> ('r, 'z, 'h) server \<Rightarrow> ('r, 'z, 'h) server \<Rightarrow> bool" where
  "counted_failure A s s' \<longleftrightarrow> s_authenticated s' = s_authenticated s \<and> s_auth_failures s' = s_auth_failures s + 1 \<and>
     (if A \<le> s_auth_failures s + 1 then t_closing (s_transport s') \<and> s_events s' = s_events s @ [AuthExhausted]
      else s_events s' = s_events s)"

definition auth_verdict :: "bool \<Rightarrow> bool \<Rightarrow> u32 \<Rightarrow> bytes \<Rightarrow> ('r, 'z, 'h) server \<Rightarrow> ('r, 'z, 'h) server \<Rightarrow> bool" where
  "auth_verdict granted probe A u s s' \<longleftrightarrow>
     (if granted then s_authenticated s' = Some u \<and> s_events s' = s_events s @ [Authenticated u] \<and>
        s_auth_failures s' = s_auth_failures s
      else if probe then s_authenticated s' = s_authenticated s \<and> s_events s' = s_events s \<and>
        s_auth_failures s' = s_auth_failures s
      else counted_failure A s s')"

lemma s_send_Ok:
  assumes "prims_safe P" and "t_wf (s_transport s)" "t_phase (s_transport s) = PhaseEstablished"
    and "length p \<le> payload_max"
  obtains t where "s_send P p s = (Ok (), s\<lparr>s_transport := t\<rparr>)"
proof -
  obtain t where "send_packet P p (s_transport s) = (Ok (), t)" by (rule send_packet_Ok [OF assms])
  then show thesis using that [of t] by (simp add: s_via_def on_field_def)
qed

lemma server_send_failure_counts:
  assumes P: "prims_safe P" and H: "handler_ok H" "handler_limits H A R"
    and s: "t_wf (s_transport s)" "t_phase (s_transport s) = PhaseEstablished"
  shows "\<exists>s'. server_send_failure P H s = (Ok (), s') \<and> counted_failure A s s'"
proof (cases "A \<le> s_auth_failures s + 1")
  case True
  have "length (str ''too many authentication failures'') \<le> 1024" by simp
  then obtain t where "disconnect P disconnect_NO_MORE_AUTH_METHODS_AVAILABLE
      (str ''too many authentication failures'') (s_transport s) = (Ok (), t)" "t_closing t"
    using disconnect_closes [OF P] by blast
  then show ?thesis using True H(2)
    by (auto simp: server_send_failure_def Let_def handler_limits_def s_via_def on_field_def s_push_def counted_failure_def)
next
  case False
  obtain t where "s_send P (userauth_failure (h_methods H (s_handler s)) False) (s\<lparr>s_auth_failures := s_auth_failures s + 1\<rparr>) =
      (Ok (), s\<lparr>s_auth_failures := s_auth_failures s + 1\<rparr>\<lparr>s_transport := t\<rparr>)"
    by (rule s_send_Ok [OF P, of "s\<lparr>s_auth_failures := s_auth_failures s + 1\<rparr>"]) (use s methods_short [OF H(1)] in auto)
  then show ?thesis using False H(2)
    by (auto simp: server_send_failure_def Let_def handler_limits_def counted_failure_def)
qed

lemma server_finish_auth_verdict:
  assumes "prims_safe P" and "handler_ok H" "handler_limits H A R"
    and "t_wf (s_transport s)" "t_phase (s_transport s) = PhaseEstablished"
  shows "\<exists>s'. server_finish_auth P H u g s = (Ok (), s') \<and> auth_verdict g False A u s s'"
proof (cases g)
  case True
  obtain t where "s_send P userauth_success s = (Ok (), s\<lparr>s_transport := t\<rparr>)"
    by (rule s_send_Ok [OF assms(1,4,5), of userauth_success]) (simp_all add: small_messages)
  then show ?thesis using True by (auto simp: server_finish_auth_def s_push_def auth_verdict_def)
qed (use server_send_failure_counts [OF assms] in \<open>auto simp: server_finish_auth_def auth_verdict_def\<close>)

lemma auth_verdict_from:
  assumes "auth_verdict g pr A u t s'" and "s_authenticated t = s_authenticated s" "s_events t = s_events s"
    "s_auth_failures t = s_auth_failures s"
  shows "auth_verdict g pr A u s s'"
  using assms by (cases g; cases pr) (simp_all add: auth_verdict_def counted_failure_def)

lemma server_handle_publickey_verdict:
  assumes P: "prims_safe P" and H: "handler_ok H" "handler_limits H A R"
    and s: "t_wf (s_transport s)" "t_phase (s_transport s) = PhaseEstablished" "t_session_id (s_transport s) = Some i"
    and l: "length algo \<le> MAX_PACKET_LENGTH" "length blob \<le> MAX_PACKET_LENGTH"
    and m: "ar_method req = MethodPublicKey algo blob sig"
  shows "\<exists>s'. server_handle_publickey P H req algo blob sig s = (Ok (), s') \<and>
    auth_verdict (auth_granted P H (Some i) (s_handler s) req) (pk_probe_ok P H (s_handler s) req) A (ar_user req) s s'"
proof (cases "user_parse_blob P blob")
  case (Ok key)
  obtain a h where a: "h_is_authorized_key H (ar_user req) key (s_handler s) = (a, h)" by fastforce
  let ?s = "s\<lparr>s_handler := h\<rparr>"
  have s': "t_wf (s_transport ?s)" "t_phase (s_transport ?s) = PhaseEstablished" using s by simp_all
  have pk: "length (userauth_pk_ok algo blob) \<le> payload_max" using l by (simp add: small_messages MAX_PACKET_LENGTH_def)
  obtain t where t: "s_send P (userauth_pk_ok algo blob) ?s = (Ok (), ?s\<lparr>s_transport := t\<rparr>)"
    by (rule s_send_Ok [OF P s' pk])
  have fin: "\<exists>s'. server_finish_auth P H (ar_user req) g ?s = (Ok (), s') \<and> auth_verdict g False A (ar_user req) s s'" for g
    using server_finish_auth_verdict [OF P H s', of "ar_user req" g] auth_verdict_from [of g False A "ar_user req" ?s _ s] by auto
  have fail: "\<exists>s'. server_send_failure P H ?s = (Ok (), s') \<and> auth_verdict False False A (ar_user req) s s'"
    using server_send_failure_counts [OF P H s'] by (auto simp: auth_verdict_def counted_failure_def)
  show ?thesis
  proof (cases "a \<and> sig \<noteq> None")
    case True
    then obtain sg where sg: "sig = Some sg" by auto
    have "(case user_verify P key d sg of Ok _ \<Rightarrow> True | _ \<Rightarrow> False) = (user_verify P key d sg = Ok ())" for d
      by (simp split: result.split)
    then show ?thesis using True sg fin s(3) m Ok a
      by (simp add: server_handle_publickey_def ok_or_def auth_granted_def pk_probe_ok_def Let_def)
  next
    case False
    then show ?thesis using fail t m Ok a
      by (cases sig; cases a) (auto simp: server_handle_publickey_def auth_granted_def pk_probe_ok_def auth_verdict_def)
  qed
next
  case (Err e)
  then show ?thesis using server_send_failure_counts [OF P H s(1,2)] m
    by (auto simp: server_handle_publickey_def auth_granted_def pk_probe_ok_def auth_verdict_def split: option.split)
qed (use not_crashed_auth(1) [of P blob] in \<open>simp\<close>)

lemma server_userauth_decides:
  assumes P: "prims_safe P" and H: "handler_ok H" "handler_limits H A R"
    and s: "t_wf (s_transport s)" "t_phase (s_transport s) = PhaseEstablished"
      "t_session_id (s_transport s) = Some i" "s_auth_requests s + 1 \<le> R"
    and p: "length p \<le> MAX_PACKET_LENGTH" "auth_request_parse p = Ok req"
  shows "\<exists>s'. server_handle_userauth P H p s = (Ok (), s') \<and>
    auth_verdict (auth_granted P H (Some i) (s_handler s) req) (pk_probe_ok P H (s_handler s) req) A (ar_user req) s s'"
proof -
  let ?s = "s\<lparr>s_auth_requests := s_auth_requests s + 1\<rparr>"
  have fin: "\<exists>s'. server_finish_auth P H (ar_user req) g (?s\<lparr>s_handler := h\<rparr>) = (Ok (), s') \<and>
      auth_verdict g False A (ar_user req) s s'" for g h
    using server_finish_auth_verdict [OF P H, of "?s\<lparr>s_handler := h\<rparr>" "ar_user req" g] s(1,2)
      auth_verdict_from [of g False A "ar_user req" "?s\<lparr>s_handler := h\<rparr>" _ s] by auto
  have eq: "server_handle_userauth P H p s = (case ar_method req of
          MethodNone \<Rightarrow> let (granted, h) = h_allow_none H (ar_user req) (s_handler s)
            in server_finish_auth P H (ar_user req) granted (?s\<lparr>s_handler := h\<rparr>)
        | MethodPassword password \<Rightarrow> let (granted, h) = h_verify_password H (ar_user req) password (s_handler s)
            in server_finish_auth P H (ar_user req) granted (?s\<lparr>s_handler := h\<rparr>)
        | MethodPublicKey key_algo key_blob signature \<Rightarrow> server_handle_publickey P H req key_algo key_blob signature ?s
        | MethodUnknown _ \<Rightarrow> server_finish_auth P H (ar_user req) False ?s)"
    using leD [OF s(4)] p(2) H(2)
    by (cases "ar_method req") (simp_all add: server_handle_userauth_def handler_limits_def Let_def)
  show ?thesis
  proof (cases "ar_method req")
    case MethodNone
    then show ?thesis using fin by (simp add: eq auth_granted_def pk_probe_ok_def split_def Let_def)
  next
    case (MethodPassword pw)
    then show ?thesis using fin by (simp add: eq auth_granted_def pk_probe_ok_def split_def Let_def)
  next
    case (MethodPublicKey algo blob sig)
    have l: "length algo \<le> MAX_PACKET_LENGTH" "length blob \<le> MAX_PACKET_LENGTH"
      using auth_request_short [OF p(2) MethodPublicKey] p(1) by simp_all
    from server_handle_publickey_verdict [OF P H _ _ _ l MethodPublicKey, of ?s i] s(1-3) MethodPublicKey
    show ?thesis using auth_verdict_from [of _ _ A "ar_user req" ?s _ s] by (auto simp: eq)
  next
    case (MethodUnknown n)
    have "?s\<lparr>s_handler := s_handler s\<rparr> = ?s" by (cases s) simp
    then show ?thesis using fin [of False "s_handler s"] MethodUnknown
      by (simp add: eq auth_granted_def pk_probe_ok_def)
  qed
qed

section \<open>Properties\<close>

definition sample_auth :: "nat auth_handler" where
  "sample_auth = default_auth_handler\<lparr>h_verify_password := (\<lambda>u p h. (p = str ''letmein'', h + 1))\<rparr>"

definition sample_request :: bytes where
  "sample_request = password_request (str ''root'') SERVICE_CONNECTION (str ''letmein'')"

definition sample_session :: "(nat, nat, nat) server" where
  "sample_session = \<lparr>s_transport = sample_established\<lparr>t_events := [Packet sample_request]\<rparr>, s_handler = 0,
     s_authenticated = None, s_banner_sent = False, s_channel = None, s_pending_reply = False, s_allow_pty = False,
     s_auth_failures = 0, s_auth_requests = 0, s_program_started = False, s_events = []\<rparr>"

lemma sample_auth_ok: "handler_ok sample_auth" "handler_limits sample_auth 6 50"
  by (simp_all add: sample_auth_def handler_ok_def handler_limits_def default_auth_handler_def
      METHOD_PUBLICKEY_def METHOD_PASSWORD_def str_def length_join_with)

lemma sample_server_reachable:
  "\<exists>s. server_new sample_prims 0 \<lparr>hk_signing = replicate 32 1\<rparr> (0 :: nat) = (Ok (), s) \<and>
     server_reachable sample_prims sample_auth s"
  using sample_reachable by (auto simp: server_new_def intro!: server_reachable.srv_new [of _ 0 "\<lparr>hk_signing = replicate 32 1\<rparr>" 0])

lemma sample_request_parses:
  "auth_request_parse sample_request =
     Ok \<lparr>ar_user = str ''root'', ar_service = SERVICE_CONNECTION, ar_method = MethodPassword (str ''letmein'')\<rparr>"
  "length sample_request \<le> MAX_PACKET_LENGTH" "first_byte sample_request = Some msg_USERAUTH_REQUEST"
proof -
  have t: "text_ok (str ''root'')" "text_ok SERVICE_CONNECTION" "text_ok METHOD_PASSWORD" "text_ok (str ''letmein'')"
    by (simp_all add: text_ok_def SERVICE_CONNECTION_def str_def)
  show "auth_request_parse sample_request =
     Ok \<lparr>ar_user = str ''root'', ar_service = SERVICE_CONNECTION, ar_method = MethodPassword (str ''letmein'')\<rparr>"
    using parse_head [OF t(1-3), of "0 # string_enc (str ''letmein'')"] text_okD [OF t(4)]
    by (auto simp: sample_request_def password_request_def writer_simps parse_method_def reads)
qed (simp_all add: sample_request_def password_request_def writer_simps first_byte_def MAX_PACKET_LENGTH_def
    SERVICE_CONNECTION_def)

lemma sample_session_wf:
  "server_wf sample_prims sample_session" "s_authenticated sample_session = None" "s_handler sample_session = 0"
  "t_phase (s_transport sample_session) = PhaseEstablished" "s_auth_requests sample_session = 0"
  "t_session_id (s_transport sample_session) = Some (replicate 32 7)"
  using sample_established_wf sample_request_parses(2)
  by (simp_all add: server_wf_def sample_session_def events_ok_def t_wf_updates sample_established_def)

lemma sample_session_input:
  "on_input sample_prims [] (s_transport sample_session) = (Ok (), s_transport sample_session)"
  by (simp add: on_input_def sample_session_def sample_established_def transport_init_def)
    (subst drive.simps, simp add: drive_step_def cipher_open_empty slice_from_def compact_rx_def Let_def)

text \<open>C14: The server session never panics. In every state a driver can reach by calling the public methods, no bytes
  from the peer and no call of the application make a method panic, overrun a buffer or loop, before and
  after authentication.\<close>

theorem server_never_panics:
  assumes "prims_safe P" and "handler_ok H" and "server_reachable P H s"
  shows "\<not> crashed (fst (server_on_input P H data s)) \<and>
    \<not> crashed (fst (server_channel_stdout P ch out s)) \<and> \<not> crashed (fst (server_channel_stderr P ch out s)) \<and>
    \<not> crashed (fst (server_channel_exit P ch status s)) \<and> \<not> crashed (fst (server_channel_consumed P ch n s)) \<and>
    \<not> crashed (fst (server_accept_channel P ch s)) \<and> \<not> crashed (fst (server_reject_channel P ch s)) \<and>
    \<not> crashed (fst (server_initiate_rekey P s)) \<and> \<not> crashed (fst (server_send_chaff P s)) \<and>
    (length p \<le> payload_max \<longrightarrow> \<not> crashed (fst (server_send_raw_packet P p s)))"
  using server_wf_on_input [OF assms(1,2) server_reachable_wf [OF assms]]
    server_wf_calls [OF assms(1) server_reachable_wf [OF assms]]
    server_wf_transport_calls [OF assms(1) server_reachable_wf [OF assms]]
  by (simp only: holds_def) blast

theorem server_never_panics_witness:
  "\<exists>s. server_new sample_prims 0 \<lparr>hk_signing = replicate 32 1\<rparr> (0 :: nat) = (Ok (), s) \<and>
     \<not> crashed (fst (server_on_input sample_prims sample_auth [83, 83, 72] s))"
  using sample_server_reachable server_never_panics [OF sample_safe sample_auth_ok(1)] by blast

text \<open>C5: Nothing happens before authentication. In every reachable state without an authenticated user there is no
  channel, no program, no pending reply, the driver has been told of nothing but a disconnect or exhausted
  attempts, and every call on a channel leaves the whole state as it is; and a user is authenticated only on an
  established, encrypted transport.\<close>

theorem server_requires_auth:
  assumes "prims_safe P" and "handler_ok H" and "server_reachable P H s"
  shows "(if server_is_authenticated s then t_phase (s_transport s) = PhaseEstablished
     else s_channel s = None \<and> \<not> s_program_started s \<and> \<not> s_pending_reply s \<and> list_all preauth_event (s_events s) \<and>
       server_channel_stdout P ch data s = (Ok (), s) \<and> server_channel_stderr P ch data s = (Ok (), s) \<and>
       server_channel_exit P ch status s = (Ok (), s) \<and> server_channel_consumed P ch n s = (Ok (), s) \<and>
       server_accept_channel P ch s = (Ok (), s) \<and> server_reject_channel P ch s = (Ok (), s))"
proof -
  have wf: "server_wf P s" by (rule server_reachable_wf [OF assms])
  show ?thesis
    using wf server_preauth_calls [OF wf] by (simp add: server_is_authenticated_def server_wf_def)
qed

theorem server_requires_auth_witness:
  "\<exists>s. server_new sample_prims 0 \<lparr>hk_signing = replicate 32 1\<rparr> (0 :: nat) = (Ok (), s) \<and>
     server_channel_stdout sample_prims 0 [1, 2] s = (Ok (), s)"
proof -
  obtain s where s: "server_new sample_prims 0 \<lparr>hk_signing = replicate 32 1\<rparr> (0 :: nat) = (Ok (), s)"
    "server_reachable sample_prims sample_auth s"
    using sample_server_reachable by blast
  have "\<not> server_is_authenticated s" using s(1) by (auto simp: server_new_def server_is_authenticated_def split: prod.splits)
  with server_requires_auth [OF sample_safe sample_auth_ok(1) s(2), of 0 "[1, 2]"] s(1) show ?thesis by auto
qed

text \<open>C1: Access is granted only to who proved it. When a call of the driver turns an unauthenticated session into one of
  user \<open>u\<close>, the call delivered input, and among the packets the transport reported there is a well-formed
  request of that very user which the application vouched for: with \<^verbatim>\<open>publickey\<close>, under a key the application
  authorised, with a signature that verifies over this session's id, the user, the service and the key.\<close>

theorem server_grants_only_verified:
  assumes "server_step P H s s'" and "s_authenticated s = None" and "s_authenticated s' = Some u"
  shows "\<exists>data. s' = snd (server_on_input P H data s) \<and>
    vouched P H (t_session_id (s_transport s')) {p. Packet p \<in> set (t_events (snd (on_input P data (s_transport s))))} u"
proof -
  obtain data where d: "s' = snd (server_on_input P H data s)"
    using user.keep_server_call [OF assms(1), of None] assms(2,3) by (auto simp: user_is_def)
  obtain r t where t: "on_input P data (s_transport s) = (r, t)" by fastforce
  let ?G = "grants_ok P H (t_session_id t) {p. Packet p \<in> set (t_events t)}"
  have "?G (s\<lparr>s_transport := t\<rparr>)" using assms(2) by (simp add: grants_ok_def)
  then have "keeps ?G (server_on_input P H data s)"
    unfolding server_on_input_def
    by (intro keeps_andThen server_pump_keeps_polled grants_ok_handle_event) (auto simp: keeps_def t grants_ok_def)
  then have G: "?G s'" by (simp add: d keeps_def)
  then have id: "t_session_id (s_transport s') = t_session_id t" by (simp add: grants_ok_def)
  have "vouched P H (t_session_id t) {p. Packet p \<in> set (t_events t)} u"
    using G assms(3) unfolding grants_ok_def by blast
  then show ?thesis using d t id by auto
qed

lemma sample_session_granted:
  "s_authenticated (snd (server_on_input sample_prims sample_auth [] sample_session)) = Some (str ''root'')"
proof -
  let ?s = "sample_session\<lparr>s_transport := sample_established\<rparr>"
  have s: "t_wf (s_transport ?s)" "t_phase (s_transport ?s) = PhaseEstablished"
    "t_session_id (s_transport ?s) = Some (replicate 32 7)" "s_auth_requests ?s + 1 \<le> 50"
    using sample_established_wf by (simp_all add: sample_established_def sample_session_def)
  obtain s' where s': "server_handle_userauth sample_prims sample_auth sample_request ?s = (Ok (), s')"
    "s_authenticated s' = Some (str ''root'')"
    using server_userauth_decides [OF sample_safe sample_auth_ok s sample_request_parses(2,1)]
    by (auto simp: auth_verdict_def auth_granted_def sample_auth_def)
  have ev: "t_events (s_transport sample_session) = [Packet sample_request]"
    "(s_transport sample_session)\<lparr>t_events := []\<rparr> = sample_established"
    by (simp_all add: sample_session_def sample_established_def transport_init_def)
  have h: "server_handle_event sample_prims sample_auth (Packet sample_request) ?s = (Ok (), s')"
    using s'(1) sample_request_parses(3)
    by (simp add: server_handle_event_def server_handle_preauth_def sample_session_def msg_SERVICE_REQUEST_def
        msg_USERAUTH_REQUEST_def)
  have "s_calm sample_established s'"
    using s_calm_handle_event [of sample_established ?s sample_prims sample_auth "Packet sample_request"] h
    by (simp add: s_calm_def keeps_def)
  then have "t_events (s_transport s') = []"
    by (simp add: s_calm_def calm_def sample_established_def transport_init_def)
  then have "server_pump sample_prims sample_auth s' = (Ok (), s')"
    by (subst server_pump.simps) (simp add: poll_event_def)
  moreover have "server_pump sample_prims sample_auth sample_session = server_pump sample_prims sample_auth s'"
    using h by (subst server_pump.simps) (simp add: poll_event_def ev)
  moreover have "sample_session\<lparr>s_transport := s_transport sample_session\<rparr> = sample_session" by (cases sample_session) simp
  ultimately show ?thesis
    using s'(2) sample_session_input by (simp add: server_on_input_def s_via_def on_field_def)
qed

theorem server_grants_only_verified_witness:
  "vouched sample_prims sample_auth
     (t_session_id (s_transport (snd (server_on_input sample_prims sample_auth [] sample_session))))
     UNIV (str ''root'')"
  using server_grants_only_verified [OF server_step.srv_input sample_session_wf(2) sample_session_granted]
  unfolding vouched_def by blast



text \<open>C8: The caps hold in every reachable state: as long as the connection is not closing, fewer failures than the
  application's limit and no more requests than its cap have been counted, so a peer makes at most that
  many attempts, and a closing connection is written to no more.\<close>

theorem server_attempts_capped:
  assumes "prims_safe P" and "handler_limits H A R" and "server_reachable P H s"
  shows "server_is_closing s \<or> s_auth_failures s < A \<and> s_auth_requests s \<le> R"
proof -
  have new: "caps_ok P H A R t" if n: "server_new P rng hk h = (Ok (), t)" for rng hk h t
    using n assms(2) by (auto simp: server_new_def caps_ok_def handler_limits_def split: prod.splits)
  show ?thesis
    using capped.keep_server_reachable [OF new assms(3)] assms(1,2)
    by (simp add: caps_ok_def server_is_closing_def)
qed

theorem server_attempts_capped_witness:
  "\<exists>s. server_new sample_prims 0 \<lparr>hk_signing = replicate 32 1\<rparr> (0 :: nat) = (Ok (), s) \<and>
     (server_is_closing s \<or> s_auth_failures s < 6 \<and> s_auth_requests s \<le> 50)"
  using sample_server_reachable server_attempts_capped [OF sample_safe sample_auth_ok(2)] by blast

end
