(* ===== verification/Client.thy ===== *)
theory Client
  imports Session_Base
begin

text \<open>
  The client session (\<^verbatim>\<open>crates/ssh-transport/src/client.rs\<close>): the host-key decision, user authentication and
  one session channel on top of the transport. The embedding application's \<^verbatim>\<open>ClientAuthHandler\<close> is a record of
  functions over a handler state, an argument of the definitions that call it.
\<close>

datatype auth_attempt =
    AttemptPassword bytes
  | AttemptPublicKey user_keypair

record 'h client_handler =
  ch_username :: "'h \<Rightarrow> bytes"
  ch_verify_host_key :: "host_public_key \<Rightarrow> 'h \<Rightarrow> bool \<times> 'h"
  ch_next_auth :: "bytes list \<Rightarrow> 'h \<Rightarrow> auth_attempt option \<times> 'h"

datatype client_event =
    Banner bytes
  | ClAuthenticated
  | ClAuthFailed "bytes list"
  | HostKeyRejected
  | PtyGranted
  | PtyRefused
  | ChannelReady u32
  | ChannelOpenFailure u32 bytes
  | Stdout bytes
  | Stderr bytes
  | ExitStatus u32
  | RequestFailed
  | ChannelClosed
  | ClDisconnect u32 bytes

datatype client_state = Handshaking | ExpectServiceAccept | Authenticating | StAuthenticated | Done

datatype pending_request = PendingExec bytes | PendingShell

record pty_params =
  pp_term :: bytes
  pp_cols :: u16
  pp_rows :: u16

datatype pending_reply = ReplyPty | ReplySession

record ('r, 'z, 'h) client =
  c_transport :: "('r, 'z) transport"
  c_handler :: 'h
  c_state :: client_state
  c_host_rejected :: bool
  c_channel :: "channel option"
  c_pending :: "pending_request option"
  c_want_pty :: "pty_params option"
  c_reply_queue :: "pending_reply list"
  c_events :: "client_event list"

definition CLIENT_LOCAL_CHANNEL :: u32 where "CLIENT_LOCAL_CHANNEL = 0"

text \<open>A call on the transport, and an event for the driver.\<close>

definition c_via :: "(('r, 'z) transport \<Rightarrow> (('r, 'z) transport, 'a) outcome) \<Rightarrow>
    ('r, 'z, 'h) client \<Rightarrow> (('r, 'z, 'h) client, 'a) outcome" where
  "c_via f s = on_field c_transport (\<lambda>t s. s\<lparr>c_transport := t\<rparr>) f s"

abbreviation c_send :: "('r, 'z) prims \<Rightarrow> bytes \<Rightarrow> ('r, 'z, 'h) client \<Rightarrow> (('r, 'z, 'h) client, unit) outcome" where
  "c_send P payload \<equiv> c_via (send_packet P payload)"

definition c_push :: "client_event \<Rightarrow> ('r, 'z, 'h) client \<Rightarrow> ('r, 'z, 'h) client" where
  "c_push e s = s\<lparr>c_events := c_events s @ [e]\<rparr>"

definition client_with_transport :: "('r, 'z) transport \<Rightarrow> 'h \<Rightarrow> ('r, 'z, 'h) client" where
  "client_with_transport t handler =
     \<lparr>c_transport = t, c_handler = handler, c_state = Handshaking, c_host_rejected = False,
      c_channel = None, c_pending = None, c_want_pty = None, c_reply_queue = [], c_events = []\<rparr>"

definition client_new :: "('r, 'z) prims \<Rightarrow> 'r \<Rightarrow> 'h \<Rightarrow> (('r, 'z, 'h) client, unit) outcome" where
  "client_new P rng handler = (let (r, t) = new_client P rng in (r, client_with_transport t handler))"

definition client_with_cipher_preference ::
    "('r, 'z) prims \<Rightarrow> 'r \<Rightarrow> 'h \<Rightarrow> bytes list \<Rightarrow> (('r, 'z, 'h) client, unit) outcome" where
  "client_with_cipher_preference P rng handler ciphers =
     (let (r, t) = new_client_with_ciphers P rng ciphers in (r, client_with_transport t handler))"

definition client_with_compression_preference ::
    "('r, 'z) prims \<Rightarrow> 'r \<Rightarrow> 'h \<Rightarrow> bytes list \<Rightarrow> (('r, 'z, 'h) client, unit) outcome" where
  "client_with_compression_preference P rng handler compression =
     (let (r, t) = new_client_with_compression P rng compression in (r, client_with_transport t handler))"

definition client_is_authenticated :: "('r, 'z, 'h) client \<Rightarrow> bool" where
  "client_is_authenticated s = (c_state s = StAuthenticated)"

definition client_is_closing :: "('r, 'z, 'h) client \<Rightarrow> bool" where
  "client_is_closing s = t_closing (c_transport s)"

section \<open>Output\<close>

text \<open>\<^verbatim>\<open>flush_channel\<close>: drain what the peer's window admits, hand it to the transport until one packet is
  refused, add chaff behind real data, and send a requested end of input once everything is out.\<close>

definition client_finish_eof ::
    "('r, 'z) prims \<Rightarrow> channel \<Rightarrow> ('r, 'z, 'h) client \<Rightarrow> (('r, 'z, 'h) client, unit) outcome" where
  "client_finish_eof P ch s =
     (if out_is_empty ch \<and> ch_want_eof ch \<and> \<not> ch_sent_eof ch then
        c_send P (channel_eof (ch_remote_id ch)) (s\<lparr>c_channel := Some (ch\<lparr>ch_sent_eof := True\<rparr>)\<rparr>)
      else (Ok (), s))"

definition client_flush_channel ::
    "('r, 'z) prims \<Rightarrow> ('r, 'z, 'h) client \<Rightarrow> (('r, 'z, 'h) client, unit) outcome" where
  "client_flush_channel P s =
     (case c_channel s of
        None \<Rightarrow> (Ok (), s)
      | Some ch \<Rightarrow>
          let max_chunk = ob_max_chunk (t_obfuscation (c_transport s));
              (drained, ch) = drain_output max_chunk ch;
              s = s\<lparr>c_channel := Some ch\<rparr>
          in
          onOk drained s (\<lambda>msgs.
          andThen (c_via (send_packets P msgs) s) (\<lambda>_ s.
          andThen (if msgs \<noteq> [] then c_via (send_chaff_burst P) s else (Ok (), s)) (\<lambda>_ s.
            client_finish_eof P ch s))))"

definition client_open_session ::
    "('r, 'z) prims \<Rightarrow> pending_request \<Rightarrow> ('r, 'z, 'h) client \<Rightarrow> (('r, 'z, 'h) client, unit) outcome" where
  "client_open_session P request s =
     (if \<not> client_is_authenticated s then (Err (Protocol ''session open before authentication''), s)
      else
        c_send P (channel_open_session CLIENT_LOCAL_CHANNEL)
          (s\<lparr>c_channel := Some (channel_new CLIENT_LOCAL_CHANNEL), c_pending := Some request\<rparr>))"

definition client_exec ::
    "('r, 'z) prims \<Rightarrow> bytes \<Rightarrow> ('r, 'z, 'h) client \<Rightarrow> (('r, 'z, 'h) client, unit) outcome" where
  "client_exec P command s = client_open_session P (PendingExec command) s"

definition client_shell ::
    "('r, 'z) prims \<Rightarrow> ('r, 'z, 'h) client \<Rightarrow> (('r, 'z, 'h) client, unit) outcome" where
  "client_shell P s = client_open_session P PendingShell s"

definition client_request_pty :: "bytes \<Rightarrow> u16 \<Rightarrow> u16 \<Rightarrow> ('r, 'z, 'h) client \<Rightarrow> ('r, 'z, 'h) client" where
  "client_request_pty term cols rows s =
     s\<lparr>c_want_pty := Some \<lparr>pp_term = term, pp_cols = cols, pp_rows = rows\<rparr>\<rparr>"

definition client_window_change ::
    "('r, 'z) prims \<Rightarrow> u16 \<Rightarrow> u16 \<Rightarrow> ('r, 'z, 'h) client \<Rightarrow> (('r, 'z, 'h) client, unit) outcome" where
  "client_window_change P cols rows s =
     (case c_channel s of
        None \<Rightarrow> (Ok (), s)
      | Some ch \<Rightarrow> c_send P (channel_request_window_change (ch_remote_id ch) cols rows 0 0) s)"

definition client_write_stdin ::
    "('r, 'z) prims \<Rightarrow> bytes \<Rightarrow> ('r, 'z, 'h) client \<Rightarrow> (('r, 'z, 'h) client, unit) outcome" where
  "client_write_stdin P data s =
     client_flush_channel P (s\<lparr>c_channel := map_option (enqueue_stdout data) (c_channel s)\<rparr>)"

definition client_send_eof ::
    "('r, 'z) prims \<Rightarrow> ('r, 'z, 'h) client \<Rightarrow> (('r, 'z, 'h) client, unit) outcome" where
  "client_send_eof P s =
     client_flush_channel P (s\<lparr>c_channel := map_option request_eof (c_channel s)\<rparr>)"

section \<open>Authentication\<close>

definition client_try_next_auth ::
    "('r, 'z) prims \<Rightarrow> 'h client_handler \<Rightarrow> bytes list \<Rightarrow> ('r, 'z, 'h) client \<Rightarrow>
     (('r, 'z, 'h) client, unit) outcome" where
  "client_try_next_auth P H can_continue s =
     (let user = ch_username H (c_handler s);
          (attempt, h) = ch_next_auth H can_continue (c_handler s);
          s = s\<lparr>c_handler := h\<rparr>
      in case attempt of
           Some (AttemptPassword password) \<Rightarrow>
             c_send P (password_request user SERVICE_CONNECTION password) s
         | Some (AttemptPublicKey keypair) \<Rightarrow>
             onOk (ok_or (t_session_id (c_transport s)) (Protocol ''no session id'')) s (\<lambda>session_id.
             let blob = user_blob (user_public P keypair);
                 signed = publickey_signed_data session_id user SERVICE_CONNECTION HOSTKEY_ED25519 blob;
                 signature = user_sign P keypair signed
             in c_send P (publickey_request user SERVICE_CONNECTION HOSTKEY_ED25519 blob (Some signature)) s)
         | None \<Rightarrow> (Ok (), (c_push (ClAuthFailed can_continue) s)\<lparr>c_state := Done\<rparr>))"

section \<open>The connection protocol\<close>

text \<open>\<^verbatim>\<open>r.utf8().unwrap_or("")\<close>.\<close>

definition utf8_or_empty :: "reader \<Rightarrow> bytes result" where
  "utf8_or_empty r = (case r_utf8 r of Ok (t, _) \<Rightarrow> Ok t | Err _ \<Rightarrow> Ok [] | Crash m \<Rightarrow> Crash m)"

definition client_replenish_window ::
    "('r, 'z) prims \<Rightarrow> u32 \<Rightarrow> ('r, 'z, 'h) client \<Rightarrow> (('r, 'z, 'h) client, unit) outcome" where
  "client_replenish_window P len s =
     (case c_channel s of
        None \<Rightarrow> (Ok (), s)
      | Some ch \<Rightarrow>
          let (within, ch) = consume_incoming len ch in
          if \<not> within then
            c_via (disconnect P disconnect_PROTOCOL_ERROR (str ''channel window exceeded'')) (s\<lparr>c_channel := Some ch\<rparr>)
          else
            let remote = ch_remote_id ch;
                (adjust, ch) = ack_incoming len ch;
                s = s\<lparr>c_channel := Some ch\<rparr>
            in case adjust of
                 Some add \<Rightarrow> c_send P (channel_window_adjust remote add) s
               | None \<Rightarrow> (Ok (), s))"

text \<open>The requests \<^verbatim>\<open>handle_open_confirmation\<close> sends: the terminal first, then the session.\<close>

definition client_send_pty ::
    "('r, 'z) prims \<Rightarrow> u32 \<Rightarrow> ('r, 'z, 'h) client \<Rightarrow> (('r, 'z, 'h) client, unit) outcome" where
  "client_send_pty P remote s =
     (case c_want_pty s of
        Some pty \<Rightarrow>
          let info = \<lparr>pty_term = pp_term pty, pty_cols = pp_cols pty, pty_rows = pp_rows pty,
                      pty_width_px = 0, pty_height_px = 0, pty_modes = []\<rparr>
          in andThen (c_send P (channel_request_pty remote True info) (s\<lparr>c_want_pty := None\<rparr>)) (\<lambda>_ s.
               (Ok (), s\<lparr>c_reply_queue := c_reply_queue s @ [ReplyPty]\<rparr>))
      | None \<Rightarrow> (Ok (), s))"

definition client_send_request ::
    "('r, 'z) prims \<Rightarrow> u32 \<Rightarrow> ('r, 'z, 'h) client \<Rightarrow> (('r, 'z, 'h) client, unit) outcome" where
  "client_send_request P remote s =
     (case c_pending s of
        Some request \<Rightarrow>
          andThen (c_send P (case request of
                       PendingExec command \<Rightarrow> channel_request_exec remote True command
                     | PendingShell \<Rightarrow> channel_request_shell remote True) (s\<lparr>c_pending := None\<rparr>)) (\<lambda>_ s.
            (Ok (), s\<lparr>c_reply_queue := c_reply_queue s @ [ReplySession]\<rparr>))
      | None \<Rightarrow> (Ok (), s))"

definition client_handle_open_confirmation ::
    "('r, 'z) prims \<Rightarrow> bytes \<Rightarrow> ('r, 'z, 'h) client \<Rightarrow> (('r, 'z, 'h) client, unit) outcome" where
  "client_handle_open_confirmation P payload s =
     onOk (r_u8 (reader_new payload)) s (\<lambda>(_, r).
     onOk (r_u32 r) s (\<lambda>(_, r).
     onOk (r_u32 r) s (\<lambda>(sender, r).
     onOk (r_u32 r) s (\<lambda>(window, r).
     onOk (r_u32 r) s (\<lambda>(max_packet, r).
     case c_channel s of
       None \<Rightarrow> (Ok (), s)
     | Some ch \<Rightarrow>
         let ch = set_remote sender window max_packet ch;
             remote = ch_remote_id ch;
             s = c_push (ChannelReady CLIENT_LOCAL_CHANNEL) (s\<lparr>c_channel := Some ch\<rparr>)
         in
         andThen (client_send_pty P remote s) (\<lambda>_ s.
         andThen (client_send_request P remote s) (\<lambda>_ s.
           client_flush_channel P s)))))))"

definition client_handle_open_failure ::
    "bytes \<Rightarrow> ('r, 'z, 'h) client \<Rightarrow> (('r, 'z, 'h) client, unit) outcome" where
  "client_handle_open_failure payload s =
     onOk (r_u8 (reader_new payload)) s (\<lambda>(_, r).
     onOk (r_u32 r) s (\<lambda>(_, r).
     onOk (r_u32 r) s (\<lambda>(reason, r).
     onOk (utf8_or_empty r) s (\<lambda>description.
       (Ok (), c_push (ChannelOpenFailure reason description) (s\<lparr>c_channel := None, c_reply_queue := []\<rparr>))))))"

definition client_handle_channel_data ::
    "('r, 'z) prims \<Rightarrow> bytes \<Rightarrow> ('r, 'z, 'h) client \<Rightarrow> (('r, 'z, 'h) client, unit) outcome" where
  "client_handle_channel_data P payload s =
     onOk (r_u8 (reader_new payload)) s (\<lambda>(_, r).
     onOk (r_u32 r) s (\<lambda>(_, r).
     onOk (r_string r) s (\<lambda>(data, r).
     andThen (client_replenish_window P (of_nat (length data)) s) (\<lambda>_ s.
       (Ok (), c_push (Stdout data) s)))))"

definition client_handle_extended_data ::
    "('r, 'z) prims \<Rightarrow> bytes \<Rightarrow> ('r, 'z, 'h) client \<Rightarrow> (('r, 'z, 'h) client, unit) outcome" where
  "client_handle_extended_data P payload s =
     onOk (r_u8 (reader_new payload)) s (\<lambda>(_, r).
     onOk (r_u32 r) s (\<lambda>(_, r).
     onOk (r_u32 r) s (\<lambda>(_, r).
     onOk (r_string r) s (\<lambda>(data, r).
     andThen (client_replenish_window P (of_nat (length data)) s) (\<lambda>_ s.
       (Ok (), c_push (Stderr data) s))))))"

definition client_handle_window_adjust ::
    "('r, 'z) prims \<Rightarrow> bytes \<Rightarrow> ('r, 'z, 'h) client \<Rightarrow> (('r, 'z, 'h) client, unit) outcome" where
  "client_handle_window_adjust P payload s =
     onOk (r_u8 (reader_new payload)) s (\<lambda>(_, r).
     onOk (r_u32 r) s (\<lambda>(_, r).
     onOk (r_u32 r) s (\<lambda>(add, r).
       client_flush_channel P (s\<lparr>c_channel := map_option (add_remote_window add) (c_channel s)\<rparr>))))"

definition client_handle_channel_request ::
    "bytes \<Rightarrow> ('r, 'z, 'h) client \<Rightarrow> (('r, 'z, 'h) client, unit) outcome" where
  "client_handle_channel_request payload s =
     onOk (r_u8 (reader_new payload)) s (\<lambda>(_, r).
     onOk (r_u32 r) s (\<lambda>(_, r).
     onOk (r_utf8 r) s (\<lambda>(request, r).
     onOk (r_boolean r) s (\<lambda>(_, r).
     if request = str ''exit-status'' then
       onOk (r_u32 r) s (\<lambda>(status, r). (Ok (), c_push (ExitStatus status) s))
     else (Ok (), s)))))"

definition client_handle_channel_close ::
    "('r, 'z) prims \<Rightarrow> ('r, 'z, 'h) client \<Rightarrow> (('r, 'z, 'h) client, unit) outcome" where
  "client_handle_channel_close P s =
     andThen
       (case c_channel s of
          Some ch \<Rightarrow>
            if \<not> ch_sent_close ch then
              c_send P (channel_close (ch_remote_id ch)) (s\<lparr>c_channel := Some (ch\<lparr>ch_sent_close := True\<rparr>)\<rparr>)
            else (Ok (), s)
        | None \<Rightarrow> (Ok (), s))
       (\<lambda>_ s. (Ok (), c_push ChannelClosed (s\<lparr>c_channel := None, c_reply_queue := []\<rparr>)))"

text \<open>A refused session request is reported and the channel torn down like a closed one (the code repeats
  the steps of \<^verbatim>\<open>handle_channel_close\<close>).\<close>

definition client_handle_request_failure ::
    "('r, 'z) prims \<Rightarrow> ('r, 'z, 'h) client \<Rightarrow> (('r, 'z, 'h) client, unit) outcome" where
  "client_handle_request_failure P s = client_handle_channel_close P (c_push RequestFailed s)"

section \<open>Dispatch\<close>

definition client_handle_banner ::
    "bytes \<Rightarrow> ('r, 'z, 'h) client \<Rightarrow> (('r, 'z, 'h) client, unit) outcome" where
  "client_handle_banner payload s =
     onOk (r_u8 (reader_new payload)) s (\<lambda>(_, r).
     onOk (utf8_or_empty r) s (\<lambda>text. (Ok (), c_push (Banner text) s)))"

definition client_handle_failure ::
    "('r, 'z) prims \<Rightarrow> 'h client_handler \<Rightarrow> bytes \<Rightarrow> ('r, 'z, 'h) client \<Rightarrow> (('r, 'z, 'h) client, unit) outcome" where
  "client_handle_failure P H payload s =
     onOk (r_u8 (reader_new payload)) s (\<lambda>(_, r).
     onOk (r_name_list r) s (\<lambda>(methods, r).
     onOk (r_boolean r) s (\<lambda>(_, r). client_try_next_auth P H methods s)))"

text \<open>The replies to our requests, attributed in the order the requests were sent.\<close>

definition client_handle_success :: "('r, 'z, 'h) client \<Rightarrow> (('r, 'z, 'h) client, unit) outcome" where
  "client_handle_success s =
     (case c_reply_queue s of
        ReplyPty # rest \<Rightarrow> (Ok (), c_push PtyGranted (s\<lparr>c_reply_queue := rest\<rparr>))
      | ReplySession # rest \<Rightarrow> (Ok (), s\<lparr>c_reply_queue := rest\<rparr>)
      | [] \<Rightarrow> (Ok (), s))"

definition client_handle_channel_failure ::
    "('r, 'z) prims \<Rightarrow> ('r, 'z, 'h) client \<Rightarrow> (('r, 'z, 'h) client, unit) outcome" where
  "client_handle_channel_failure P s =
     (case c_reply_queue s of
        ReplyPty # rest \<Rightarrow> (Ok (), c_push PtyRefused (s\<lparr>c_reply_queue := rest\<rparr>))
      | ReplySession # rest \<Rightarrow> client_handle_request_failure P (s\<lparr>c_reply_queue := rest\<rparr>)
      | [] \<Rightarrow> client_handle_request_failure P s)"

definition client_handle_packet ::
    "('r, 'z) prims \<Rightarrow> 'h client_handler \<Rightarrow> bytes \<Rightarrow> ('r, 'z, 'h) client \<Rightarrow> (('r, 'z, 'h) client, unit) outcome" where
  "client_handle_packet P H payload s =
     (let m = first_byte payload in
      if m = Some msg_SERVICE_ACCEPT \<and> c_state s = ExpectServiceAccept then
        client_try_next_auth P H [] (s\<lparr>c_state := Authenticating\<rparr>)
      else if m = Some msg_USERAUTH_BANNER then client_handle_banner payload s
      else if m = Some msg_USERAUTH_SUCCESS then (Ok (), c_push ClAuthenticated (s\<lparr>c_state := StAuthenticated\<rparr>))
      else if m = Some msg_USERAUTH_FAILURE then client_handle_failure P H payload s
      else if m = Some msg_USERAUTH_PK_OK then (Ok (), s)
      else if m = Some msg_CHANNEL_OPEN_CONFIRMATION then client_handle_open_confirmation P payload s
      else if m = Some msg_CHANNEL_OPEN_FAILURE then client_handle_open_failure payload s
      else if m = Some msg_CHANNEL_SUCCESS then client_handle_success s
      else if m = Some msg_CHANNEL_FAILURE then client_handle_channel_failure P s
      else if m = Some msg_CHANNEL_DATA then client_handle_channel_data P payload s
      else if m = Some msg_CHANNEL_EXTENDED_DATA then client_handle_extended_data P payload s
      else if m = Some msg_CHANNEL_WINDOW_ADJUST then client_handle_window_adjust P payload s
      else if m = Some msg_CHANNEL_REQUEST then client_handle_channel_request payload s
      else if m = Some msg_CHANNEL_EOF then (Ok (), s)
      else if m = Some msg_CHANNEL_CLOSE then client_handle_channel_close P s
      else (Ok (), s))"

text \<open>What the loop of \<^verbatim>\<open>pump\<close> does with one event of the transport.\<close>

definition client_handle_event ::
    "('r, 'z) prims \<Rightarrow> 'h client_handler \<Rightarrow> event \<Rightarrow> ('r, 'z, 'h) client \<Rightarrow> (('r, 'z, 'h) client, unit) outcome" where
  "client_handle_event P H e s =
     (case e of
        ServerHostKey key \<Rightarrow>
          let (trusted, h) = ch_verify_host_key H key (c_handler s);
              s = s\<lparr>c_handler := h\<rparr>
          in if \<not> trusted then
               andThen (c_via (disconnect P disconnect_KEY_EXCHANGE_FAILED (str ''host key rejected''))
                          (c_push HostKeyRejected (s\<lparr>c_host_rejected := True\<rparr>))) (\<lambda>_ s.
                 (Ok (), s\<lparr>c_state := Done\<rparr>))
             else (Ok (), s)
      | Established \<Rightarrow>
          if \<not> c_host_rejected s then
            andThen (c_send P (service_request SERVICE_USERAUTH) s) (\<lambda>_ s.
              (Ok (), s\<lparr>c_state := ExpectServiceAccept\<rparr>))
          else (Ok (), s)
      | Disconnect reason description \<Rightarrow> (Ok (), c_push (ClDisconnect reason description) s)
      | Packet payload \<Rightarrow> client_handle_packet P H payload s)"

section \<open>The loop over the transport's events\<close>

text \<open>A predicate kept by calls on the transport that report nothing and by the updates of the handlers is
  kept by every handler. The rejection of a host key is one step: the flag and the disconnect.\<close>

locale client_keeps =
  fixes P :: "('r, 'z) prims" and H :: "'h client_handler" and I :: "('r, 'z, 'h) client \<Rightarrow> bool"
  assumes via_calm: "I s \<Longrightarrow> calm (c_transport s) t \<Longrightarrow> I (s\<lparr>c_transport := t\<rparr>)"
    and upd_push: "I s \<Longrightarrow> I (c_push e s)"
    and upd_channel: "I s \<Longrightarrow> I (s\<lparr>c_channel := c\<rparr>)"
    and upd_closed: "I s \<Longrightarrow> I (s\<lparr>c_channel := None, c_reply_queue := q\<rparr>)"
    and upd_replies: "I s \<Longrightarrow> I (s\<lparr>c_reply_queue := q\<rparr>)"
    and upd_pty_sent: "I s \<Longrightarrow> I (s\<lparr>c_want_pty := None\<rparr>)"
    and upd_request_sent: "I s \<Longrightarrow> I (s\<lparr>c_pending := None\<rparr>)"
    and upd_handler: "I s \<Longrightarrow> I (s\<lparr>c_handler := h\<rparr>)"
    and upd_state: "I s \<Longrightarrow> I (s\<lparr>c_state := st\<rparr>)"
    and reject: "I s \<Longrightarrow> keeps I (c_via (disconnect P disconnect_KEY_EXCHANGE_FAILED (str ''host key rejected''))
      (c_push HostKeyRejected (s\<lparr>c_host_rejected := True\<rparr>)))"
begin

lemmas client_updates = upd_push upd_channel upd_closed upd_replies upd_pty_sent upd_request_sent upd_handler upd_state

lemma keep_via: "I s \<Longrightarrow> (\<And>a. keeps (calm a) (f a)) \<Longrightarrow> keeps I (c_via f s)"
  unfolding c_via_def by (rule keeps_on_field) (metis keeps_def snd_conv via_calm)

lemma sends:
  "I s \<Longrightarrow> keeps I (c_send P p s)" "I s \<Longrightarrow> keeps I (c_via (disconnect P reason d) s)"
  "I s \<Longrightarrow> keeps I (c_via (send_packets P ps) s)" "I s \<Longrightarrow> keeps I (c_via (send_chaff_burst P) s)"
  "I s \<Longrightarrow> keeps I (c_via (send_chaff P) s)" "I s \<Longrightarrow> keeps I (c_via (initiate_rekey P) s)"
  by (rule keep_via, assumption, rule calm_ops, rule calm_refl)+

lemma keep_flush_channel: "I s \<Longrightarrow> keeps I (client_flush_channel P s)"
  unfolding client_flush_channel_def client_finish_eof_def
  by (intro keeps_Let_state keep_intros sends client_updates)

lemma keep_try_next_auth: "I s \<Longrightarrow> keeps I (client_try_next_auth P H ms s)"
  unfolding client_try_next_auth_def Let_def
  by (auto split: prod.split option.split auth_attempt.split intro!: keep_intros sends client_updates)

lemma keep_replenish: "I s \<Longrightarrow> keeps I (client_replenish_window P n s)"
  unfolding client_replenish_window_def Let_def by (intro keep_intros sends client_updates)

lemma keep_open_confirmation: "I s \<Longrightarrow> keeps I (client_handle_open_confirmation P p s)"
  unfolding client_handle_open_confirmation_def client_send_pty_def client_send_request_def
  by (intro keeps_Let_state keep_intros sends client_updates keep_flush_channel)

lemma keep_channel_close: "I s \<Longrightarrow> keeps I (client_handle_channel_close P s)"
  unfolding client_handle_channel_close_def by (intro keep_intros sends client_updates)

lemma keep_channel_failure: "I s \<Longrightarrow> keeps I (client_handle_channel_failure P s)"
  by (auto simp: client_handle_channel_failure_def client_handle_request_failure_def
      intro!: keep_intros keep_channel_close client_updates split: list.split pending_reply.split)

lemma keep_simple_handlers:
  "I s \<Longrightarrow> keeps I (client_handle_open_failure p s)" "I s \<Longrightarrow> keeps I (client_handle_channel_request p s)"
  "I s \<Longrightarrow> keeps I (client_handle_banner p s)" "I s \<Longrightarrow> keeps I (client_handle_success s)"
  unfolding client_handle_open_failure_def client_handle_channel_request_def client_handle_banner_def
  by (intro keep_intros client_updates; assumption)+
    (auto simp: client_handle_success_def intro!: keep_intros client_updates split: list.split pending_reply.split)

lemma keep_data_handlers:
  "I s \<Longrightarrow> keeps I (client_handle_channel_data P p s)" "I s \<Longrightarrow> keeps I (client_handle_extended_data P p s)"
  "I s \<Longrightarrow> keeps I (client_handle_window_adjust P p s)" "I s \<Longrightarrow> keeps I (client_handle_failure P H p s)"
  unfolding client_handle_channel_data_def client_handle_extended_data_def client_handle_window_adjust_def
    client_handle_failure_def
  by (intro keep_intros client_updates keep_replenish keep_flush_channel keep_try_next_auth; assumption)+

lemma keep_handle_packet: "I s \<Longrightarrow> keeps I (client_handle_packet P H p s)"
  unfolding client_handle_packet_def Let_def
  by (intro keep_intros keep_try_next_auth keep_simple_handlers keep_data_handlers keep_open_confirmation
      keep_channel_close keep_channel_failure client_updates)

lemma keep_host_key: "I s \<Longrightarrow> keeps I (client_handle_event P H (ServerHostKey key) s)"
  unfolding client_handle_event_def event.case Let_def
  by (intro keeps_case_prod keeps_if keeps_andThen reject keeps_return client_updates)

lemma keep_handle_event: "I s \<Longrightarrow> keeps I (client_handle_event P H e s)"
proof (cases e)
  case (ServerHostKey key)
  then show "I s \<Longrightarrow> keeps I (client_handle_event P H e s)" using keep_host_key by simp
qed (auto simp: client_handle_event_def intro!: keep_intros sends client_updates keep_handle_packet)

end

text \<open>No handler reports a transport event, so the loop ends.\<close>

definition c_calm :: "('r, 'z) transport \<Rightarrow> ('r, 'z, 'h) client \<Rightarrow> bool" where
  "c_calm a s \<longleftrightarrow> calm a (c_transport s)"

lemma c_via_simps [simp]:
  "snd (c_via f s) = s\<lparr>c_transport := snd (f (c_transport s))\<rparr>" "fst (c_via f s) = fst (f (c_transport s))"
  by (simp_all add: c_via_def on_field_def Let_def split_def)

interpretation quiet_client: client_keeps P H "c_calm a" for P H a
proof
  fix s :: "('a, 'b, 'c) client"
  assume "c_calm a s"
  then show "keeps (c_calm a) (c_via (disconnect P disconnect_KEY_EXCHANGE_FAILED (str ''host key rejected''))
      (c_push HostKeyRejected (s\<lparr>c_host_rejected := True\<rparr>)))"
    using calm_disconnect [of a "c_transport s" P disconnect_KEY_EXCHANGE_FAILED "str ''host key rejected''"]
    by (simp add: keeps_def c_calm_def c_push_def)
qed (auto simp: c_calm_def c_push_def intro: calm_trans)

lemmas c_calm_handle_event = quiet_client.keep_handle_event

function client_pump ::
    "('r, 'z) prims \<Rightarrow> 'h client_handler \<Rightarrow> ('r, 'z, 'h) client \<Rightarrow> (('r, 'z, 'h) client, unit) outcome" where
  "client_pump P H s =
     (case poll_event (c_transport s) of
        (Some e, t) \<Rightarrow>
          andThen (client_handle_event P H e (s\<lparr>c_transport := t\<rparr>)) (\<lambda>_ s. client_pump P H s)
      | (None, t) \<Rightarrow> (Ok (), s\<lparr>c_transport := t\<rparr>))"
  by pat_completeness auto
termination
proof (relation "measure (\<lambda>(P, H, s). length (t_events (c_transport s)))", simp, clarify)
  fix P H s e t x u
  assume p: "(Some e, t) = poll_event (c_transport s)"
    and h: "client_handle_event P H e (s\<lparr>c_transport := t\<rparr>) = (Ok x, u)"
  have "c_calm t u"
    using c_calm_handle_event [of t "s\<lparr>c_transport := t\<rparr>" P H e] h by (simp add: c_calm_def keeps_def)
  then show "((P, H, u), (P, H, s)) \<in> measure (\<lambda>(P, H, s). length (t_events (c_transport s)))"
    using p by (auto simp: c_calm_def calm_def poll_event_def split: list.splits)
qed

declare client_pump.simps [simp del]

definition client_on_input ::
    "('r, 'z) prims \<Rightarrow> 'h client_handler \<Rightarrow> bytes \<Rightarrow> ('r, 'z, 'h) client \<Rightarrow> (('r, 'z, 'h) client, unit) outcome" where
  "client_on_input P H data s = andThen (c_via (on_input P data) s) (\<lambda>_ s. client_pump P H s)"

section \<open>The other public methods\<close>

definition client_take_output :: "('r, 'z, 'h) client \<Rightarrow> bytes \<times> ('r, 'z, 'h) client" where
  "client_take_output s = (let (out, t) = take_output (c_transport s) in (out, s\<lparr>c_transport := t\<rparr>))"

definition client_clear_output :: "('r, 'z, 'h) client \<Rightarrow> ('r, 'z, 'h) client" where
  "client_clear_output s = s\<lparr>c_transport := clear_output (c_transport s)\<rparr>"

definition client_poll_event :: "('r, 'z, 'h) client \<Rightarrow> client_event option \<times> ('r, 'z, 'h) client" where
  "client_poll_event s = (case c_events s of [] \<Rightarrow> (None, s) | e # es \<Rightarrow> (Some e, s\<lparr>c_events := es\<rparr>))"

definition client_send_raw_packet ::
    "('r, 'z) prims \<Rightarrow> bytes \<Rightarrow> ('r, 'z, 'h) client \<Rightarrow> (('r, 'z, 'h) client, unit) outcome" where
  "client_send_raw_packet P payload s = c_via (send_packet P payload) s"

definition client_initiate_rekey ::
    "('r, 'z) prims \<Rightarrow> ('r, 'z, 'h) client \<Rightarrow> (('r, 'z, 'h) client, unit) outcome" where
  "client_initiate_rekey P s = c_via (initiate_rekey P) s"

definition client_send_chaff ::
    "('r, 'z) prims \<Rightarrow> ('r, 'z, 'h) client \<Rightarrow> (('r, 'z, 'h) client, unit) outcome" where
  "client_send_chaff P s = c_via (send_chaff P) s"

definition client_set_max_consecutive_rekeys :: "u32 \<Rightarrow> ('r, 'z, 'h) client \<Rightarrow> ('r, 'z, 'h) client" where
  "client_set_max_consecutive_rekeys n s = s\<lparr>c_transport := set_max_consecutive_peer_rekeys n (c_transport s)\<rparr>"

definition client_set_obfuscation :: "obfuscation \<Rightarrow> ('r, 'z, 'h) client \<Rightarrow> ('r, 'z, 'h) client" where
  "client_set_obfuscation ob s = s\<lparr>c_transport := set_obfuscation ob (c_transport s)\<rparr>"

end
