(* ===== verification/Client_Safety.thy ===== *)
theory Client_Safety
  imports Client
begin

text \<open>
  The invariant of the client session, the states a driver can bring it to, and what follows: no server
  makes the client panic, and a client that rejected the host key says nothing more.
\<close>

section \<open>The invariant\<close>

definition client_wf :: "('r, 'z) prims \<Rightarrow> ('r, 'z, 'h) client \<Rightarrow> bool" where
  "client_wf P s \<longleftrightarrow> t_wf (c_transport s) \<and> events_ok P (c_transport s) \<and>
     (\<forall>ch. c_channel s = Some ch \<longrightarrow> channel_wf ch) \<and>
     (\<forall>cmd. c_pending s = Some (PendingExec cmd) \<longrightarrow> length cmd \<le> 2 ^ 20) \<and>
     (\<forall>pty. c_want_pty s = Some pty \<longrightarrow> length (pp_term pty) \<le> 2 ^ 20)"

text \<open>What the session needs of the application: a user name and passwords of sane size.\<close>

definition client_handler_ok :: "'h client_handler \<Rightarrow> bool" where
  "client_handler_ok H \<longleftrightarrow> (\<forall>h. length (ch_username H h) \<le> 2 ^ 20) \<and>
     (\<forall>ms h p h'. ch_next_auth H ms h = (Some (AttemptPassword p), h') \<longrightarrow> length p \<le> 2 ^ 20)"

lemma client_wf_via:
  assumes "client_wf P s" and "holds t_wf (f (c_transport s))" and "keeps (calm (c_transport s)) (f (c_transport s))"
  shows "holds (client_wf P) (c_via f s)"
  using assms by (simp add: holds_def client_wf_def keeps_def calm_def events_ok_def)

lemma client_wf_send:
  assumes "prims_safe P" and "client_wf P s" and "length p \<le> payload_max"
  shows "holds (client_wf P) (c_send P p s)"
  using assms
  by (intro client_wf_via t_wf_send_packet calm_send_packet calm_refl) (simp_all add: client_wf_def)

lemma client_wf_disconnect:
  assumes "prims_safe P" and "client_wf P s" and "length d \<le> 1024"
  shows "holds (client_wf P) (c_via (disconnect P reason d) s)"
  using assms
  by (intro client_wf_via t_wf_disconnect calm_disconnect calm_refl) (simp_all add: client_wf_def)

lemma client_wf_updates:
  assumes "client_wf P s"
  shows "client_wf P (c_push e s)" "client_wf P (s\<lparr>c_handler := h\<rparr>)" "client_wf P (s\<lparr>c_state := st\<rparr>)"
    "client_wf P (s\<lparr>c_host_rejected := b\<rparr>)" "client_wf P (s\<lparr>c_reply_queue := q\<rparr>)"
    "client_wf P (s\<lparr>c_want_pty := None\<rparr>)" "client_wf P (s\<lparr>c_pending := None\<rparr>)"
    "client_wf P (s\<lparr>c_channel := None, c_reply_queue := q\<rparr>)"
    "channel_wf ch \<Longrightarrow> client_wf P (s\<lparr>c_channel := Some ch\<rparr>)"
    "(\<And>ch. channel_wf ch \<Longrightarrow> channel_wf (f ch)) \<Longrightarrow> client_wf P (s\<lparr>c_channel := map_option f (c_channel s)\<rparr>)"
    "c_channel s = Some ch \<Longrightarrow> channel_wf ch"
  using assms by (auto simp: client_wf_def c_push_def)

lemmas client_messages = payload_max_def service_request_def password_request_def publickey_request_def
  channel_open_session_def channel_request_exec_def channel_request_shell_def channel_request_pty_def
  channel_request_window_change_def channel_eof_def channel_close_def channel_window_adjust_def writer_simps

section \<open>Every handler keeps it\<close>

lemma client_wf_flush_channel:
  assumes P: "prims_safe P" and s: "client_wf P s"
  shows "holds (client_wf P) (client_flush_channel P s)"
proof (cases "c_channel s")
  case (Some ch)
  have wf: "channel_wf ch" by (rule client_wf_updates(11) [OF s Some])
  obtain ms ch' where d: "drain_output (ob_max_chunk (t_obfuscation (c_transport s))) ch = (Ok ms, ch')"
    and ch': "channel_wf ch'" "\<forall>m\<in>set ms. length m \<le> payload_max"
    using drain_output_calm [OF wf] by blast
  have sends: "holds (client_wf P) (c_via (send_packets P ms) t)" "holds (client_wf P) (c_via (send_chaff_burst P) t)"
    if "client_wf P t" for t :: "('a, 'b, 'c) client"
    using that [unfolded client_wf_def] ch'(2)
    by (auto intro!: client_wf_via that t_wf_send_packets t_wf_send_chaff_burst calm_send_packets calm_send_chaff_burst P)
  have eof: "holds (client_wf P) (client_finish_eof P ch' t)" if "client_wf P t" for t :: "('a, 'b, 'c) client"
    unfolding client_finish_eof_def
    by (intro hold_intros client_wf_send P client_wf_updates(9) that channel_wf_updates ch'(1)) (simp add: client_messages)
  show ?thesis
    unfolding client_flush_channel_def Some option.case d Let_def prod.case onOk_simps
    by (intro hold_intros sends eof client_wf_updates(9) s ch'(1))
qed (use s in \<open>simp add: client_flush_channel_def holds_def\<close>)

lemma user_blob_length: "sizes_ok P \<Longrightarrow> length (user_blob (user_public P k)) = 51"
  by (simp add: user_blob_def user_public_def writer_simps sizes HOSTKEY_ED25519_def)

lemma user_sign_length: "sizes_ok P \<Longrightarrow> length (user_sign P k d) = 83"
  by (simp add: user_sign_def writer_simps sizes HOSTKEY_ED25519_def)

lemma client_wf_try_next_auth:
  assumes P: "prims_safe P" and H: "client_handler_ok H" and s: "client_wf P s"
  shows "holds (client_wf P) (client_try_next_auth P H ms s)"
proof -
  obtain a h where a: "ch_next_auth H ms (c_handler s) = (a, h)" by fastforce
  have u: "length (ch_username H (c_handler s)) \<le> 1048576" using H by (simp add: client_handler_ok_def)
  have pw: "length p \<le> 1048576" if "a = Some (AttemptPassword p)" for p
    using H a that unfolding client_handler_ok_def by fastforce
  have pk: "length (publickey_request (ch_username H (c_handler s)) SERVICE_CONNECTION HOSTKEY_ED25519
      (user_blob (user_public P kp)) (Some (user_sign P kp d))) \<le> payload_max" for kp d
    using u user_blob_length [of P kp] user_sign_length [of P kp d] prims_safe_laws(1) [OF P]
    by (simp add: client_messages SERVICE_CONNECTION_def HOSTKEY_ED25519_def)
  show ?thesis
    using u pw unfolding client_try_next_auth_def a Let_def prod.case
    by (auto split: option.split auth_attempt.split simp: ok_or_def
        intro!: hold_intros client_wf_send P client_wf_updates s pk)
      (simp_all add: client_messages SERVICE_CONNECTION_def)
qed

lemma client_wf_replenish:
  assumes P: "prims_safe P" and s: "client_wf P s"
  shows "holds (client_wf P) (client_replenish_window P n s)"
proof (cases "c_channel s")
  case (Some ch)
  obtain w c where c: "consume_incoming n ch = (w, c)" by fastforce
  obtain a d where d: "ack_incoming n c = (a, d)" by fastforce
  have "channel_wf ch" by (rule client_wf_updates(11) [OF s Some])
  then have "channel_wf c" using channel_wf_updates(8) [of ch n] c by simp
  moreover from this have "channel_wf d" using channel_wf_updates(9) [of c n] d by simp
  ultimately show ?thesis
    unfolding client_replenish_window_def Some option.case Let_def c prod.case d
    by (intro hold_intros client_wf_disconnect client_wf_send P client_wf_updates(9) s) (simp_all add: client_messages)
qed (use s in \<open>simp add: client_replenish_window_def holds_def\<close>)

lemma client_wf_open_requests:
  assumes P: "prims_safe P" and s: "client_wf P s"
  shows "holds (client_wf P) (client_send_pty P i s)" "holds (client_wf P) (client_send_request P i s)"
proof -
  have "length (pp_term pty) \<le> 1048576" if "c_want_pty s = Some pty" for pty
    using s that unfolding client_wf_def by simp
  then have pty: "length (channel_request_pty i True \<lparr>pty_term = pp_term pty, pty_cols = pp_cols pty, pty_rows = pp_rows pty,
      pty_width_px = 0, pty_height_px = 0, pty_modes = []\<rparr>) \<le> payload_max" if "c_want_pty s = Some pty" for pty
    using that by (fastforce simp: client_messages)
  show "holds (client_wf P) (client_send_pty P i s)"
    unfolding client_send_pty_def Let_def
    by (intro hold_intros client_wf_send P client_wf_updates s pty)
  have "length (case q of PendingExec command \<Rightarrow> channel_request_exec i True command
      | PendingShell \<Rightarrow> channel_request_shell i True) \<le> payload_max" if "c_pending s = Some q" for q
  proof (cases q)
    case (PendingExec cmd)
    then have "length cmd \<le> 1048576" using s that unfolding client_wf_def by simp
    with PendingExec show ?thesis by (simp add: client_messages)
  qed (simp add: client_messages)
  then show "holds (client_wf P) (client_send_request P i s)"
    unfolding client_send_request_def
    by (intro hold_intros client_wf_send P client_wf_updates s)
qed

lemma client_wf_open_confirmation:
  assumes P: "prims_safe P" and s: "client_wf P s"
  shows "holds (client_wf P) (client_handle_open_confirmation P p s)"
  unfolding client_handle_open_confirmation_def Let_def
  by (intro hold_intros client_wf_open_requests client_wf_flush_channel P client_wf_updates(1,9) s channel_wf_updates
      client_wf_updates(11) [OF s]) simp_all

lemma client_wf_channel_close:
  assumes P: "prims_safe P" and s: "client_wf P s"
  shows "holds (client_wf P) (client_handle_channel_close P s)"
  unfolding client_handle_channel_close_def
  by (intro hold_intros client_wf_send P client_wf_updates(1,8,9) s channel_wf_updates client_wf_updates(11) [OF s])
    (simp_all add: client_messages)

lemma not_crashed_utf8_or_empty [simp]: "\<not> crashed (utf8_or_empty r)"
proof (cases "r_utf8 r")
  case (Crash m)
  then have "crashed (r_utf8 r)" by simp
  then show ?thesis by simp
qed (auto simp: utf8_or_empty_def)

lemma client_wf_handle_packet:
  assumes P: "prims_safe P" and H: "client_handler_ok H" and s: "client_wf P s"
  shows "holds (client_wf P) (client_handle_packet P H p s)"
proof -
  have data: "holds (client_wf P) (client_handle_channel_data P p s)" "holds (client_wf P) (client_handle_extended_data P p s)"
    "holds (client_wf P) (client_handle_window_adjust P p s)" "holds (client_wf P) (client_handle_failure P H p s)"
    unfolding client_handle_channel_data_def client_handle_extended_data_def client_handle_window_adjust_def
      client_handle_failure_def
    by (intro hold_intros client_wf_replenish client_wf_flush_channel client_wf_try_next_auth P H client_wf_updates(1,10)
        channel_wf_updates s; simp)+
  have small: "holds (client_wf P) (client_handle_open_failure p s)" "holds (client_wf P) (client_handle_channel_request p s)"
    "holds (client_wf P) (client_handle_banner p s)"
    unfolding client_handle_open_failure_def client_handle_channel_request_def client_handle_banner_def
    by (intro hold_intros client_wf_updates s; simp)+
  have replies: "holds (client_wf P) (client_handle_success s)" "holds (client_wf P) (client_handle_channel_failure P s)"
    unfolding client_handle_success_def client_handle_channel_failure_def client_handle_request_failure_def
    by (auto split: list.split pending_reply.split intro!: hold_intros client_wf_channel_close P client_wf_updates s)
  show ?thesis
    unfolding client_handle_packet_def Let_def
    by (intro hold_intros client_wf_try_next_auth P H small data replies client_wf_open_confirmation
        client_wf_channel_close client_wf_updates s)
qed

lemma client_wf_handle_event:
  assumes P: "prims_safe P" and H: "client_handler_ok H" and s: "client_wf P s"
  shows "holds (client_wf P) (client_handle_event P H e s)"
proof -
  have "length (service_request SERVICE_USERAUTH) \<le> payload_max" by (simp add: client_messages SERVICE_USERAUTH_def)
  then show ?thesis
    by (cases e) (auto simp: client_handle_event_def Let_def split: prod.split
        intro!: hold_intros client_wf_disconnect client_wf_send client_wf_handle_packet client_wf_updates P H s)
qed

section \<open>The loop and the public methods\<close>

text \<open>One turn of the loop: the handler's state has fewer events left.\<close>

lemma client_pump_turn:
  assumes "t_events (c_transport s) = e # es"
  obtains r u where "client_handle_event P H e (s\<lparr>c_transport := (c_transport s)\<lparr>t_events := es\<rparr>\<rparr>) = (r, u)"
    and "t_events (c_transport u) = es"
    and "client_pump P H s = andThen (r, u) (\<lambda>_. client_pump P H)"
proof -
  let ?t = "(c_transport s)\<lparr>t_events := es\<rparr>"
  obtain r u where u: "client_handle_event P H e (s\<lparr>c_transport := ?t\<rparr>) = (r, u)" by fastforce
  have "c_calm ?t u"
    using c_calm_handle_event [of ?t "s\<lparr>c_transport := ?t\<rparr>" P H e] u by (simp add: c_calm_def keeps_def)
  then have "t_events (c_transport u) = es" by (simp add: c_calm_def calm_def)
  moreover have "client_pump P H s = andThen (r, u) (\<lambda>_. client_pump P H)"
    using assms u by (subst client_pump.simps) (simp add: poll_event_def)
  ultimately show thesis using that u by blast
qed

lemma client_wf_pump:
  assumes P: "prims_safe P" and H: "client_handler_ok H"
  shows "client_wf P s \<Longrightarrow> holds (client_wf P) (client_pump P H s)"
proof (induction "t_events (c_transport s)" arbitrary: s)
  case Nil
  then show ?case by (subst client_pump.simps) (simp add: poll_event_def holds_def)
next
  case (Cons e es)
  let ?s = "s\<lparr>c_transport := (c_transport s)\<lparr>t_events := es\<rparr>\<rparr>"
  have wf: "client_wf P ?s"
    using Cons.prems Cons.hyps(2) [symmetric] by (simp add: client_wf_def t_wf_updates events_ok_def)
  obtain r u where u: "client_handle_event P H e ?s = (r, u)" "t_events (c_transport u) = es"
    "client_pump P H s = andThen (r, u) (\<lambda>_. client_pump P H)"
    using client_pump_turn [OF Cons.hyps(2) [symmetric]] by blast
  have "holds (client_wf P) (r, u)" using client_wf_handle_event [OF P H wf, of e] u(1) by simp
  then show ?case unfolding u(3) using Cons.hyps(1) u(2) by (intro holds_andThen) auto
qed

lemma client_wf_on_input:
  assumes P: "prims_safe P" and H: "client_handler_ok H" and s: "client_wf P s"
  shows "holds (client_wf P) (client_on_input P H data s)"
proof -
  let ?t = "c_transport s"
  have t: "t_wf ?t" "events_ok P ?t" using s by (simp_all add: client_wf_def)
  have "holds t_wf (on_input P data ?t)" by (rule t_wf_on_input [OF P t(1)])
  moreover have "events_ok P (snd (on_input P data ?t))"
    using reported.keep_on_input [OF t(2)] by (simp add: keeps_def)
  ultimately have "holds (client_wf P) (c_via (on_input P data) s)"
    using s by (simp add: holds_def client_wf_def)
  then show ?thesis
    unfolding client_on_input_def by (intro holds_andThen client_wf_pump [OF P H]) auto
qed

inductive client_step :: "('r, 'z) prims \<Rightarrow> 'h client_handler \<Rightarrow> ('r, 'z, 'h) client \<Rightarrow> ('r, 'z, 'h) client \<Rightarrow> bool"
  for P :: "('r, 'z) prims" and H :: "'h client_handler" where
  cl_input: "client_step P H s (snd (client_on_input P H data s))"
| cl_exec: "length command \<le> 2 ^ 20 \<Longrightarrow> client_step P H s (snd (client_exec P command s))"
| cl_shell: "client_step P H s (snd (client_shell P s))"
| cl_pty: "length term \<le> 2 ^ 20 \<Longrightarrow> client_step P H s (client_request_pty term cols rows s)"
| cl_resize: "client_step P H s (snd (client_window_change P cols rows s))"
| cl_stdin: "client_step P H s (snd (client_write_stdin P data s))"
| cl_eof: "client_step P H s (snd (client_send_eof P s))"
| cl_raw: "length p \<le> payload_max \<Longrightarrow> client_step P H s (snd (client_send_raw_packet P p s))"
| cl_rekey: "client_step P H s (snd (client_initiate_rekey P s))"
| cl_chaff: "client_step P H s (snd (client_send_chaff P s))"
| cl_take: "client_step P H s (snd (client_take_output s))"
| cl_clear: "client_step P H s (client_clear_output s)"
| cl_poll: "client_step P H s (snd (client_poll_event s))"
| cl_max: "client_step P H s (client_set_max_consecutive_rekeys n s)"
| cl_obfuscation: "client_step P H s (client_set_obfuscation ob s)"

inductive client_reachable :: "('r, 'z) prims \<Rightarrow> 'h client_handler \<Rightarrow> ('r, 'z, 'h) client \<Rightarrow> bool"
  for P :: "('r, 'z) prims" and H :: "'h client_handler" where
  cl_new: "client_new P rng h = (Ok (), s) \<Longrightarrow> client_reachable P H s"
| cl_ciphers: "offers_ok (transport_init Client rng None (Some l) None :: ('r, 'z) transport) \<Longrightarrow>
    client_with_cipher_preference P rng h l = (Ok (), s) \<Longrightarrow> client_reachable P H s"
| cl_compression: "offers_ok (transport_init Client rng None None (Some l) :: ('r, 'z) transport) \<Longrightarrow>
    client_with_compression_preference P rng h l = (Ok (), s) \<Longrightarrow> client_reachable P H s"
| cl_step: "client_reachable P H s \<Longrightarrow> client_step P H s s' \<Longrightarrow> client_reachable P H s'"

lemma client_wf_start:
  fixes P :: "('r, 'z) prims"
  assumes P: "prims_safe P" and o: "offers_ok (transport_init Client rng None oc oz :: ('r, 'z) transport)"
    and t: "transport_start P Client rng None oc oz = (Ok (), t)"
  shows "client_wf P (client_with_transport t h)"
proof -
  have r: "reachable P t" by (rule reachable.reach_start [OF o t])
  have "events_ok P t"
    by (rule reported.keep_reachable [OF _ r]) (simp add: events_ok_def transport_init_def)
  with reachable_wf [OF P r] show ?thesis by (simp add: client_wf_def client_with_transport_def)
qed

lemma client_wf_calls:
  assumes P: "prims_safe P" and s: "client_wf P s"
  shows "length command \<le> 2 ^ 20 \<Longrightarrow> holds (client_wf P) (client_exec P command s)"
    "holds (client_wf P) (client_shell P s)" "holds (client_wf P) (client_window_change P cols rows s)"
    "holds (client_wf P) (client_write_stdin P data s)" "holds (client_wf P) (client_send_eof P s)"
    "length p \<le> payload_max \<Longrightarrow> holds (client_wf P) (client_send_raw_packet P p s)"
    "holds (client_wf P) (client_initiate_rekey P s)" "holds (client_wf P) (client_send_chaff P s)"
proof -
  have "client_wf P (s\<lparr>c_channel := Some (channel_new i), c_pending := Some q\<rparr>)"
    if "\<And>cmd. q = PendingExec cmd \<Longrightarrow> length cmd \<le> 2 ^ 20" for q i
    using s that channel_wf_new by (auto simp: client_wf_def)
  then have op: "holds (client_wf P) (client_open_session P q s)"
    if "\<And>cmd. q = PendingExec cmd \<Longrightarrow> length cmd \<le> 2 ^ 20" for q
    unfolding client_open_session_def using that
    by (intro hold_intros client_wf_send P s) (auto simp: client_messages CHANNEL_SESSION_def)
  show "length command \<le> 2 ^ 20 \<Longrightarrow> holds (client_wf P) (client_exec P command s)"
    "holds (client_wf P) (client_shell P s)"
    unfolding client_exec_def client_shell_def by (rule op; simp)+
  show "holds (client_wf P) (client_window_change P cols rows s)"
    unfolding client_window_change_def by (intro hold_intros client_wf_send P s) (simp_all add: client_messages)
  show "holds (client_wf P) (client_write_stdin P data s)" "holds (client_wf P) (client_send_eof P s)"
    unfolding client_write_stdin_def client_send_eof_def
    by (intro client_wf_flush_channel P client_wf_updates(10) s channel_wf_updates; assumption)+
  show "length p \<le> payload_max \<Longrightarrow> holds (client_wf P) (client_send_raw_packet P p s)"
    "holds (client_wf P) (client_initiate_rekey P s)" "holds (client_wf P) (client_send_chaff P s)"
    unfolding client_send_raw_packet_def client_initiate_rekey_def client_send_chaff_def
    using s [unfolded client_wf_def] P
    by (auto intro!: client_wf_via s t_wf_send_packet t_wf_initiate_rekey t_wf_send_chaff
        calm_send_packet calm_initiate_rekey calm_send_chaff)
qed

lemma client_wf_config:
  assumes "client_wf P s"
  shows "length term \<le> 2 ^ 20 \<Longrightarrow> client_wf P (client_request_pty term cols rows s)"
    "client_wf P (snd (client_take_output s))" "client_wf P (client_clear_output s)"
    "client_wf P (snd (client_poll_event s))" "client_wf P (client_set_max_consecutive_rekeys n s)"
    "client_wf P (client_set_obfuscation ob s)"
  using assms
  by (simp_all add: client_request_pty_def client_take_output_def take_output_def client_clear_output_def
      clear_output_def client_poll_event_def client_set_max_consecutive_rekeys_def set_max_consecutive_peer_rekeys_def
      client_set_obfuscation_def set_obfuscation_def client_wf_def t_wf_updates events_ok_def split: list.split)

lemma client_wf_step:
  assumes P: "prims_safe P" and H: "client_handler_ok H" and st: "client_step P H s s'" and s: "client_wf P s"
  shows "client_wf P s'"
  using st
proof cases
  case (cl_input data)
  then show ?thesis using client_wf_on_input [OF P H s] by (simp add: holds_def)
qed (use client_wf_calls [OF P s, unfolded holds_def] client_wf_config [OF s] in simp_all)

lemma client_reachable_wf:
  assumes P: "prims_safe P" and H: "client_handler_ok H"
  shows "client_reachable P H s \<Longrightarrow> client_wf P s"
proof (induction rule: client_reachable.induct)
  case (cl_new rng h s)
  have "offers_ok (transport_init Client rng None None None :: ('a, 'b) transport)"
    by (simp add: offers_ok_def transport_init_def)
  with client_wf_start [OF P this] cl_new show ?case by (auto simp: client_new_def new_client_def split: prod.splits)
next
  case (cl_ciphers rng l h s)
  with client_wf_start [OF P cl_ciphers(1)] show ?case
    by (auto simp: client_with_cipher_preference_def new_client_with_ciphers_def split: prod.splits)
next
  case (cl_compression rng l h s)
  with client_wf_start [OF P cl_compression(1)] show ?case
    by (auto simp: client_with_compression_preference_def new_client_with_compression_def split: prod.splits)
next
  case (cl_step s s')
  then show ?case using client_wf_step [OF P H] by blast
qed

section \<open>Invariants of the session\<close>

lemma client_pump_keeps:
  assumes ev: "\<And>e s. I s \<Longrightarrow> keeps I (client_handle_event P H e s)"
    and poll: "\<And>s e es. I s \<Longrightarrow> t_events (c_transport s) = e # es \<Longrightarrow> I (s\<lparr>c_transport := (c_transport s)\<lparr>t_events := es\<rparr>\<rparr>)"
  shows "I s \<Longrightarrow> keeps I (client_pump P H s)"
proof (induction "t_events (c_transport s)" arbitrary: s)
  case Nil
  then show ?case by (subst client_pump.simps) (simp add: poll_event_def keeps_def)
next
  case (Cons e es)
  note es = Cons.hyps(2) [symmetric]
  obtain r u where u: "client_handle_event P H e (s\<lparr>c_transport := (c_transport s)\<lparr>t_events := es\<rparr>\<rparr>) = (r, u)"
    "t_events (c_transport u) = es" "client_pump P H s = andThen (r, u) (\<lambda>_. client_pump P H)"
    using client_pump_turn [OF es] by blast
  have "keeps I (r, u)" using ev [OF poll [OF Cons.prems es], of e] u(1) by simp
  then show ?case unfolding u(3) using Cons.hyps(1) u(2) by (intro keeps_andThen) auto
qed

locale client_invariant = client_keeps P H I
  for P :: "('r, 'z) prims" and H :: "'h client_handler" and I :: "('r, 'z, 'h) client \<Rightarrow> bool" +
  assumes input: "I s \<Longrightarrow> keeps I (client_on_input P H data s)"
    and upd_polled: "I s \<Longrightarrow> c_events s = e # es \<Longrightarrow> I (s\<lparr>c_events := es\<rparr>)"
    and upd_want_pty: "I s \<Longrightarrow> I (s\<lparr>c_want_pty := w\<rparr>)"
    and upd_open: "I s \<Longrightarrow> I (s\<lparr>c_channel := c, c_pending := q\<rparr>)"
    and upd_taken: "I s \<Longrightarrow> I (s\<lparr>c_transport := (c_transport s)\<lparr>t_tx := []\<rparr>\<rparr>)"
begin

lemma keep_calls:
  "I s \<Longrightarrow> keeps I (client_exec P command s)" "I s \<Longrightarrow> keeps I (client_shell P s)"
  "I s \<Longrightarrow> keeps I (client_window_change P cols rows s)" "I s \<Longrightarrow> keeps I (client_write_stdin P out s)"
  "I s \<Longrightarrow> keeps I (client_send_eof P s)" "I s \<Longrightarrow> keeps I (client_send_raw_packet P p s)"
  "I s \<Longrightarrow> keeps I (client_initiate_rekey P s)" "I s \<Longrightarrow> keeps I (client_send_chaff P s)"
  unfolding client_exec_def client_shell_def client_open_session_def client_window_change_def client_write_stdin_def
    client_send_eof_def client_send_raw_packet_def client_initiate_rekey_def client_send_chaff_def
  by (intro keep_intros sends keep_flush_channel upd_channel upd_open; assumption)+

lemma keep_config:
  assumes "I s"
  shows "I (client_request_pty term cols rows s)" "I (snd (client_take_output s))" "I (client_clear_output s)"
    "I (snd (client_poll_event s))" "I (client_set_max_consecutive_rekeys n s)" "I (client_set_obfuscation ob s)"
  using assms upd_want_pty upd_taken upd_polled
  by (auto simp: client_request_pty_def client_take_output_def take_output_def client_clear_output_def
      clear_output_def client_poll_event_def client_set_max_consecutive_rekeys_def set_max_consecutive_peer_rekeys_def
      client_set_obfuscation_def set_obfuscation_def calm_def intro!: via_calm split: list.split)

lemma keep_client_step: "client_step P H s s' \<Longrightarrow> I s \<Longrightarrow> I s'"
proof (induction rule: client_step.induct)
  case (cl_input s data)
  then show ?case using input by (simp add: keeps_def)
qed (simp_all add: keep_calls [unfolded keeps_def] keep_config)

lemma keep_client_steps: "(client_step P H)\<^sup>*\<^sup>* s s' \<Longrightarrow> I s \<Longrightarrow> I s'"
  by (induction rule: rtranclp_induct) (use keep_client_step in auto)

end

text \<open>A client that rejected the host key is closing and writes nothing.\<close>

definition silent :: "bytes \<Rightarrow> ('r, 'z, 'h) client \<Rightarrow> bool" where
  "silent out s \<longleftrightarrow> c_host_rejected s \<and> t_closing (c_transport s) \<and> (t_tx (c_transport s) = out \<or> t_tx (c_transport s) = [])"

interpretation silence: client_keeps P H "silent out" for P H out
  by unfold_locales (auto simp: silent_def calm_def c_push_def keeps_def disconnect_def)

lemma silent_pump: "silent out s \<Longrightarrow> keeps (silent out) (client_pump P H s)"
  by (rule client_pump_keeps) (auto simp: silence.keep_handle_event silent_def)

interpretation silent_client: client_invariant P H "silent out" for P H out
proof
  fix s :: "('a, 'b, 'c) client" and data
  assume s: "silent out s"
  then have "s\<lparr>c_transport := snd (on_input P data (c_transport s))\<rparr> = s" by (cases s) (simp add: silent_def on_input_def)
  with s have "keeps (silent out) (c_via (on_input P data) s)" by (simp add: keeps_def)
  then show "keeps (silent out) (client_on_input P H data s)"
    unfolding client_on_input_def by (intro keeps_andThen silent_pump) auto
qed (auto simp: silent_def)

text \<open>An untrusted host key: one disconnect message is written, and the connection stays silent for good.\<close>

lemma host_refused:
  assumes "prims_safe P" and "\<not> fst (ch_verify_host_key H key (c_handler s))" and "\<not> client_is_closing s"
    and "t_events (c_transport s) = ServerHostKey key # es"
    and "(client_step P H)\<^sup>*\<^sup>* (snd (client_pump P H s)) s'"
  shows "\<exists>t. write_packet P (disconnect_msg disconnect_KEY_EXCHANGE_FAILED (str ''host key rejected''))
      ((c_transport s)\<lparr>t_events := es\<rparr>) = (Ok (), t) \<and>
    client_is_closing s' \<and> c_host_rejected s' \<and> (t_tx (c_transport s') = t_tx t \<or> t_tx (c_transport s') = [])"
proof -
  let ?m = "disconnect_msg disconnect_KEY_EXCHANGE_FAILED (str ''host key rejected'')"
  let ?s = "s\<lparr>c_transport := (c_transport s)\<lparr>t_events := es\<rparr>\<rparr>"
  obtain t where t: "write_packet P ?m (c_transport ?s) = (Ok (), t)"
    by (rule write_packet_Ok [OF assms(1), of ?m]) (simp_all add: disconnect_msg_def writer_simps payload_max_def)
  obtain r u where u: "client_handle_event P H (ServerHostKey key) ?s = (r, u)"
    "client_pump P H s = andThen (r, u) (\<lambda>_. client_pump P H)"
    using client_pump_turn [OF assms(4)] by blast
  have "r = Ok () \<and> silent (t_tx t) u"
    using u(1) assms(2,3) t
    by (auto simp: client_handle_event_def Let_def split_def c_via_def on_field_def disconnect_def c_push_def
        client_is_closing_def silent_def)
  then have "silent (t_tx t) (snd (client_pump P H s))"
    using silent_pump [of "t_tx t" u P H] by (simp add: u(2) keeps_def)
  from silent_client.keep_client_steps [OF assms(5) this] t show ?thesis
    by (simp add: silent_def client_is_closing_def)
qed

section \<open>Properties\<close>

definition sample_client_handler :: "nat client_handler" where
  "sample_client_handler =
     \<lparr>ch_username = (\<lambda>_. str ''root''),
      ch_verify_host_key = (\<lambda>key h. (hp_verifying key = replicate 32 9, h)),
      ch_next_auth = (\<lambda>_ h. (if h = 0 then Some (AttemptPassword (str ''letmein'')) else None, h + 1))\<rparr>"

lemma sample_client_handler_ok: "client_handler_ok sample_client_handler"
  by (simp add: client_handler_ok_def sample_client_handler_def)

lemma sample_client_reachable:
  "\<exists>s. client_new sample_prims 0 (0 :: nat) = (Ok (), s) \<and> client_reachable sample_prims sample_client_handler s"
proof -
  obtain r and t :: "(nat, nat) transport" where t: "new_client sample_prims 0 = (r, t)" by fastforce
  then have "r = Ok ()"
    by (simp add: new_client_def transport_start_def send_kexinit_def write_packet_def write_body_def
        transport_init_def seal_into_def Let_def split: prod.splits)
  with t have "\<exists>t :: (nat, nat) transport. new_client sample_prims 0 = (Ok (), t)" by blast
  then show ?thesis by (auto simp: client_new_def intro!: client_reachable.cl_new [of _ 0 0])
qed

text \<open>C15: The client session never panics. In every state a driver can reach from any constructor by calling the public
  methods, no bytes a server sends and no call of the application make a method panic or loop.\<close>

theorem client_never_panics:
  assumes "prims_safe P" and "client_handler_ok H" and "client_reachable P H s"
  shows "\<not> crashed (fst (client_on_input P H data s)) \<and>
    (length command \<le> 2 ^ 20 \<longrightarrow> \<not> crashed (fst (client_exec P command s))) \<and>
    \<not> crashed (fst (client_shell P s)) \<and> \<not> crashed (fst (client_window_change P cols rows s)) \<and>
    \<not> crashed (fst (client_write_stdin P out s)) \<and> \<not> crashed (fst (client_send_eof P s)) \<and>
    \<not> crashed (fst (client_initiate_rekey P s)) \<and> \<not> crashed (fst (client_send_chaff P s)) \<and>
    (length p \<le> payload_max \<longrightarrow> \<not> crashed (fst (client_send_raw_packet P p s)))"
  using client_wf_on_input [OF assms(1,2) client_reachable_wf [OF assms]]
    client_wf_calls [OF assms(1) client_reachable_wf [OF assms]]
  by (simp only: holds_def) blast

theorem client_never_panics_witness:
  "\<exists>s. client_new sample_prims 0 (0 :: nat) = (Ok (), s) \<and>
     \<not> crashed (fst (client_on_input sample_prims sample_client_handler [83, 83, 72] s))"
  using sample_client_reachable client_never_panics [OF sample_safe sample_client_handler_ok] by blast

text \<open>C3: A rejected host key ends the session. When the transport reports a host key the application does not trust,
  the client writes one disconnect message and nothing else: after the loop that saw the key, and after any
  further calls and any further input, the connection is closing, the rejection is on record, and
  what was written is still that output (or empty, once the driver took it). No credential is ever sent.\<close>

theorem client_rejects_host:
  assumes "prims_safe P" and "\<not> fst (ch_verify_host_key H key (c_handler s))" and "\<not> client_is_closing s"
    and "t_events (c_transport s) = ServerHostKey key # es"
    and "(client_step P H)\<^sup>*\<^sup>* (snd (client_pump P H s)) s'"
  shows "\<exists>t. write_packet P (disconnect_msg disconnect_KEY_EXCHANGE_FAILED (str ''host key rejected''))
      ((c_transport s)\<lparr>t_events := es\<rparr>) = (Ok (), t) \<and>
    client_is_closing s' \<and> c_host_rejected s' \<and> (t_tx (c_transport s') = t_tx t \<or> t_tx (c_transport s') = [])"
  using host_refused [OF assms] .

definition sample_rejecting :: "(nat, nat, nat) client" where
  "sample_rejecting = client_with_transport
     ((transport_init Client 0 None None None)\<lparr>t_events := [ServerHostKey \<lparr>hp_verifying = replicate 32 1\<rparr>]\<rparr>) 0"

theorem client_rejects_host_witness:
  "client_is_closing (snd (client_pump sample_prims sample_client_handler sample_rejecting)) \<and>
   c_host_rejected (snd (client_pump sample_prims sample_client_handler sample_rejecting))"
proof -
  let ?s = "snd (client_pump sample_prims sample_client_handler sample_rejecting)"
  have "replicate 32 1 \<noteq> replicate 32 (9 :: byte)" by (simp add: replicate_eq_replicate)
  then have h: "\<not> fst (ch_verify_host_key sample_client_handler \<lparr>hp_verifying = replicate 32 1\<rparr> (c_handler sample_rejecting))"
    "\<not> client_is_closing sample_rejecting"
    "t_events (c_transport sample_rejecting) = ServerHostKey \<lparr>hp_verifying = replicate 32 1\<rparr> # []"
    by (simp_all add: sample_rejecting_def sample_client_handler_def client_with_transport_def client_is_closing_def
        transport_init_def)
  from client_rejects_host [OF sample_safe h rtranclp.rtrancl_refl] show ?thesis by blast
qed

end
