(* ===== verification/Sessions.thy ===== *)
theory Sessions
  imports Server_Auth Client_Safety
begin

text \<open>
  Client and server together: what one side's methods send is what the other side's handlers expect. A public
  key login is decided by the key alone, and a command travels from the client's \<^verbatim>\<open>exec\<close> to the server's event.
\<close>

section \<open>Requests of the connection protocol\<close>

lemma c_send_Ok:
  assumes "prims_safe P" and "t_wf (c_transport s)" "t_phase (c_transport s) = PhaseEstablished"
    and "length p \<le> payload_max"
  shows "c_send P p s = (Ok (), s\<lparr>c_transport := snd (send_packet P p (c_transport s))\<rparr>)"
proof -
  obtain t where "send_packet P p (c_transport s) = (Ok (), t)" by (rule send_packet_Ok [OF assms])
  then show ?thesis by (simp add: c_via_def on_field_def)
qed

lemma s_send_eq:
  assumes "prims_safe P" and "t_wf (s_transport s)" "t_phase (s_transport s) = PhaseEstablished"
    and "length p \<le> payload_max"
  shows "s_send P p s = (Ok (), s\<lparr>s_transport := snd (send_packet P p (s_transport s))\<rparr>)"
proof -
  obtain t where "send_packet P p (s_transport s) = (Ok (), t)" by (rule send_packet_Ok [OF assms])
  then show ?thesis by (simp add: s_via_def on_field_def)
qed

text \<open>A transport that has sent a packet can send another.\<close>

lemma send_packet_ready:
  assumes "prims_safe P" and "t_wf t" "t_phase t = PhaseEstablished" and "length p \<le> payload_max"
  shows "t_wf (snd (send_packet P p t))" "t_phase (snd (send_packet P p t)) = PhaseEstablished"
  using t_wf_send_packet [OF assms(1,2,4)] calm_send_packet [OF calm_refl, of t P p] assms(3)
  by (simp_all add: holds_def keeps_def calm_def)

lemma channel_session_text [simp]: "fits32 CHANNEL_SESSION" "utf8_ok CHANNEL_SESSION" "length CHANNEL_SESSION = 7"
  by (simp_all add: CHANNEL_SESSION_def fits32_def str_def)

lemma r_u32_end: "length pre + 4 < 2 ^ 64 \<Longrightarrow> r_u32 (rd pre (u32_be v)) = Ok (v, rd (pre @ u32_be v) [])"
  using r_u32_rd [of pre v "[]"] by simp

lemmas message_reads = reads r_u32_end writer_simps

lemma server_opens:
  assumes "s_channel s = None"
  shows "server_handle_channel_open P (channel_open_session sender) s =
    s_send P (channel_open_confirmation sender LOCAL_CHANNEL)
      (s\<lparr>s_channel := Some (set_remote sender DEFAULT_WINDOW MAX_PACKET (channel_new LOCAL_CHANNEL)), s_program_started := False\<rparr>)"
  using assms
  by (simp add: server_handle_channel_open_def channel_open_session_def message_reads
      MAX_PACKET_def MIN_REMOTE_MAX_PACKET_def)

lemma client_confirms:
  assumes "c_channel s = Some ch"
  shows "client_handle_open_confirmation P (channel_open_confirmation r sender) s =
    (let ch = set_remote sender DEFAULT_WINDOW MAX_PACKET ch;
         s = c_push (ChannelReady CLIENT_LOCAL_CHANNEL) (s\<lparr>c_channel := Some ch\<rparr>)
     in andThen (client_send_pty P sender s) (\<lambda>_ s.
        andThen (client_send_request P sender s) (\<lambda>_ s. client_flush_channel P s)))"
  using assms
  by (simp add: client_handle_open_confirmation_def channel_open_confirmation_def message_reads set_remote_def Let_def)

lemma request_names [simp]:
  "utf8_ok (str ''exec'')" "fits32 (str ''exec'')" "utf8_ok (str ''shell'')" "fits32 (str ''shell'')"
  by (simp_all add: str_def fits32_def)

lemma server_exec:
  assumes "text_ok command" and "\<not> s_program_started s"
  shows "server_handle_channel_request P (channel_request_exec r w command) s =
    server_start_program w (ExecRequest LOCAL_CHANNEL command) s"
  using assms(2) text_okD [OF assms(1)]
  by (cases w) (simp_all add: server_handle_channel_request_def channel_request_exec_def message_reads)

lemma server_refuses_program:
  assumes "text_ok command" and "s_program_started s"
  shows "server_handle_channel_request P (channel_request_exec r w command) s = server_reply P w False s"
    "server_handle_channel_request P (channel_request_shell r w) s = server_reply P w False s"
  using assms(2) text_okD [OF assms(1)]
  by (cases w; simp add: server_handle_channel_request_def channel_request_exec_def channel_request_shell_def message_reads
      r_boolean_rd [where rest = "[]", simplified])+

lemma first_bytes:
  "first_byte (channel_open_session i) = Some msg_CHANNEL_OPEN"
  "first_byte (channel_request_exec i w c) = Some msg_CHANNEL_REQUEST"
  "first_byte (channel_open_confirmation i j) = Some msg_CHANNEL_OPEN_CONFIRMATION"
  "first_byte (channel_success i) = Some msg_CHANNEL_SUCCESS"
  "first_byte (channel_request_shell i w) = Some msg_CHANNEL_REQUEST"
  "first_byte (channel_data i d) = Some msg_CHANNEL_DATA"
  "first_byte (publickey_request u sv a b sg) = Some msg_USERAUTH_REQUEST"
  by (simp_all add: channel_open_session_def channel_request_exec_def channel_request_shell_def channel_open_confirmation_def channel_success_def
      channel_data_def publickey_request_def writer_simps first_byte_def split: option.split)

text \<open>A fresh channel has nothing to flush.\<close>

lemma client_flush_idle:
  assumes "c_channel s = Some ch" and "ch_out ch = []" and "\<not> ch_want_eof ch"
  shows "client_flush_channel P s = (Ok (), s)"
proof -
  have "drain_output mc ch = (Ok [], ch)" for mc
    using assms(2) by (subst drain_output.simps) (simp add: drain_step_def)
  moreover have "s\<lparr>c_channel := Some ch\<rparr> = s" using assms(1) by (cases s) simp
  ultimately show ?thesis
    using assms by (simp add: client_flush_channel_def client_finish_eof_def c_via_def on_field_def)
qed

text \<open>Two consequences of what the dispatchers do not check: a command is reported although no channel is
  open, and the client takes a success message at its word in whatever state it is.\<close>

lemma server_exec_without_channel:
  assumes "server_is_authenticated s" and "s_channel s = None" and "\<not> s_program_started s" and "text_ok command"
  shows "\<exists>s'. server_handle_event P H (Packet (channel_request_exec i w command)) s = (Ok (), s') \<and>
    s_channel s' = None \<and> s_events s' = s_events s @ [ExecRequest LOCAL_CHANNEL command]"
  using assms server_exec [OF assms(4,3), of P i w]
  by (auto simp: server_handle_event_def server_is_authenticated_def server_handle_connection_def first_bytes msg_defs
      server_start_program_def s_push_def)

lemma client_success_in_any_state:
  "client_handle_packet P C userauth_success s = (Ok (), c_push ClAuthenticated (s\<lparr>c_state := StAuthenticated\<rparr>))"
  by (simp add: client_handle_packet_def userauth_success_def first_byte_def msg_defs)

section \<open>Data from the server to the client\<close>

lemma below_u32: "n \<le> unat (w :: u32) \<Longrightarrow> n < 2 ^ 32"
proof -
  assume "n \<le> unat w"
  also have "unat w < 2 ^ LENGTH(32)" by (rule unsigned_less)
  finally show ?thesis by simp
qed

fun client_packets ::
    "('r, 'z) prims \<Rightarrow> 'h client_handler \<Rightarrow> bytes list \<Rightarrow> ('r, 'z, 'h) client \<Rightarrow> (('r, 'z, 'h) client, unit) outcome" where
  "client_packets P C [] s = (Ok (), s)"
| "client_packets P C (p # ps) s = andThen (client_handle_event P C (Packet p) s) (\<lambda>_ s. client_packets P C ps s)"

definition chunk_event :: "bool \<times> bytes \<Rightarrow> client_event" where
  "chunk_event = (\<lambda>(e, c). if e then Stderr c else Stdout c)"

text \<open>A client that can take \<open>n\<close> more bytes of its channel's data.\<close>

definition client_takes :: "nat \<Rightarrow> ('r, 'z, 'h) client \<Rightarrow> bool" where
  "client_takes n s \<longleftrightarrow> t_wf (c_transport s) \<and> t_phase (c_transport s) = PhaseEstablished \<and>
     (\<exists>k. c_channel s = Some k \<and> channel_wf k \<and> n \<le> unat (ch_local_window k))"

lemma client_replenish_takes:
  assumes P: "prims_safe P" and s: "client_takes (length d + n) s"
  shows "\<exists>s'. client_replenish_window P (of_nat (length d)) s = (Ok (), s') \<and> client_takes n s' \<and> c_events s' = c_events s"
proof -
  let ?n = "of_nat (length d) :: u32"
  obtain k where k: "c_channel s = Some k" "channel_wf k" "length d + n \<le> unat (ch_local_window k)"
    using s by (auto simp: client_takes_def)
  have un: "unat ?n = length d"
    by (rule unat_of_nat_u32, rule below_u32 [of _ "ch_local_window k"]) (use k(3) in simp)
  obtain k' where k': "consume_incoming ?n k = (True, k')"
    using k(3) un by (simp add: consume_incoming_def word_less_nat_alt)
  obtain a k'' where a: "ack_incoming ?n k' = (a, k'')" by fastforce
  have wf: "channel_wf k'" "channel_wf k''"
    using channel_wf_updates(8) [OF k(2), of ?n] channel_wf_updates(9) [of k' ?n] k' a by simp_all
  have "n \<le> unat (ch_local_window k'')"
    using consume_incoming_window(1) [OF k'] un k(3) ack_incoming_window(2) [OF _ a] wf(1)
    by (auto simp: channel_wf_def)
  then have t: "client_takes n (s\<lparr>c_channel := Some k''\<rparr>)" using s wf(2) by (simp add: client_takes_def)
  show ?thesis
  proof (cases a)
    case None
    then show ?thesis using t by (simp add: client_replenish_window_def k(1) k' a)
  next
    case (Some add)
    have len: "length (channel_window_adjust (ch_remote_id k') add) \<le> payload_max" by (simp add: client_messages)
    have w: "t_wf (c_transport s)" "t_phase (c_transport s) = PhaseEstablished" using s by (simp_all add: client_takes_def)
    show ?thesis
      using Some t w send_packet_ready [OF P w len]
      by (simp add: client_replenish_window_def k(1) k' a c_send_Ok [OF P _ _ len] client_takes_def)
  qed
qed

lemma client_takes_chunk:
  assumes P: "prims_safe P" and s: "client_takes (length d + n) s"
  shows "\<exists>s'. client_handle_event P C (Packet (data_message i e d)) s = (Ok (), s') \<and> client_takes n s' \<and>
    c_events s' = c_events s @ [chunk_event (e, d)]"
proof -
  obtain s' where s': "client_replenish_window P (of_nat (length d)) s = (Ok (), s')" "client_takes n s'" "c_events s' = c_events s"
    using client_replenish_takes [OF assms] by blast
  obtain k where "c_channel s = Some k" "length d + n \<le> unat (ch_local_window k)"
    using s unfolding client_takes_def by blast
  then have "length d < 2 ^ 32" by (intro below_u32 [of _ "ch_local_window k"]) simp
  then have "client_handle_event P C (Packet (data_message i e d)) s =
      andThen (client_replenish_window P (of_nat (length d)) s) (\<lambda>_ s. (Ok (), c_push (chunk_event (e, d)) s))"
    by (cases e) (simp_all add: client_handle_event_def client_handle_packet_def data_message_def channel_data_def
        channel_extended_data_def client_handle_channel_data_def client_handle_extended_data_def message_reads first_byte_def
        msg_defs fits32_def chunk_event_def)
  then show ?thesis using s' by (simp add: c_push_def client_takes_def)
qed

lemma client_takes_chunks:
  assumes P: "prims_safe P"
  shows "client_takes (sum_list (map (length \<circ> snd) chunks) + n) s \<Longrightarrow>
    \<exists>s'. client_packets P C (map (\<lambda>(e, c). data_message i e c) chunks) s = (Ok (), s') \<and> client_takes n s' \<and>
      c_events s' = c_events s @ map chunk_event chunks"
proof (induction chunks arbitrary: s)
  case (Cons x xs)
  obtain e d where x: "x = (e, d)" by fastforce
  with Cons.prems have "client_takes (length d + (sum_list (map (length \<circ> snd) xs) + n)) s" by (simp add: add.assoc comp_def)
  from client_takes_chunk [OF P this] obtain s1
    where s1: "client_handle_event P C (Packet (data_message i e d)) s = (Ok (), s1)"
      "client_takes (sum_list (map (length \<circ> snd) xs) + n) s1" "c_events s1 = c_events s @ [chunk_event (e, d)]"
    by blast
  from Cons.IH [OF s1(2)] show ?case by (auto simp: x s1)
qed simp

definition received :: "client_event \<Rightarrow> (bool \<times> byte) list" where
  "received e = (case e of Stdout d \<Rightarrow> map (Pair False) d | Stderr d \<Rightarrow> map (Pair True) d | _ \<Rightarrow> [])"

lemma received_chunks: "concat (map received (map chunk_event chunks)) = concat (map (\<lambda>(e, c). map (Pair e) c) chunks)"
  by (induction chunks) (auto simp: received_def chunk_event_def)

lemma chunks_length: "sum_list (map (length \<circ> snd) chunks) = length (concat (map (\<lambda>(e, c). map (Pair e) c) chunks))"
  by (induction chunks) auto

section \<open>Properties\<close>

text \<open>C7: A public-key login is decided by the key. The request a client makes with its key pair, on a session both sides
  know by the same id, is understood by the server: its signature verifies, and the user is authenticated
  exactly if the application authorises that key for that user.\<close>

theorem publickey_login:
  assumes P: "prims_safe P" "prims_correct P" and H: "handler_ok H" "handler_limits H A R"
    and c: "ch_next_auth C methods (c_handler c) = (Some (AttemptPublicKey kp), h)" "ch_username C (c_handler c) = user"
      "text_ok user" "length user \<le> 2 ^ 16" "t_session_id (c_transport c) = Some i"
    and s: "server_wf P s" "s_authenticated s = None" "t_phase (s_transport s) = PhaseEstablished"
      "t_session_id (s_transport s) = Some i" "s_auth_requests s + 1 \<le> R"
  shows "\<exists>p s'. client_try_next_auth P C methods c = c_send P p (c\<lparr>c_handler := h\<rparr>) \<and>
    server_handle_event P H (Packet p) s = (Ok (), s') \<and>
    s_authenticated s' = (if fst (h_is_authorized_key H user (user_public P kp) (s_handler s)) then Some user else None)"
proof -
  note sz = prims_safe_laws(1) [OF P(1)] and ed = prims_correct_laws(4) [OF P(2)]
  let ?blob = "user_blob (user_public P kp)"
  let ?d = "publickey_signed_data i user SERVICE_CONNECTION HOSTKEY_ED25519 ?blob"
  let ?sig = "user_sign P kp ?d"
  let ?p = "publickey_request user SERVICE_CONNECTION HOSTKEY_ED25519 ?blob (Some ?sig)"
  let ?req = "\<lparr>ar_user = user, ar_service = SERVICE_CONNECTION,
    ar_method = MethodPublicKey HOSTKEY_ED25519 ?blob (Some ?sig)\<rparr>"
  have t: "text_ok SERVICE_CONNECTION" "text_ok HOSTKEY_ED25519"
    by (simp_all add: text_ok_def SERVICE_CONNECTION_def HOSTKEY_ED25519_def str_def)
  have parse: "auth_request_parse ?p = Ok ?req"
    by (rule requests_parse(3) [OF c(3) t]) (simp_all add: user_blob_length [OF sz] user_sign_length [OF sz])
  have len: "length ?p \<le> MAX_PACKET_LENGTH"
    using c(4) by (simp add: publickey_request_def writer_simps user_blob_length [OF sz] user_sign_length [OF sz]
        SERVICE_CONNECTION_def HOSTKEY_ED25519_def MAX_PACKET_LENGTH_def)
  have sent: "client_try_next_auth P C methods c = c_send P ?p (c\<lparr>c_handler := h\<rparr>)"
    using c by (simp add: client_try_next_auth_def ok_or_def Let_def)
  have tw: "t_wf (s_transport s)" using s(1) by (simp add: server_wf_def)
  have "auth_granted P H (Some i) (s_handler s) ?req =
      fst (h_is_authorized_key H user (user_public P kp) (s_handler s))"
    by (simp add: auth_granted_def user_key_correct [OF sz ed])
  moreover have "\<not> pk_probe_ok P H (s_handler s) ?req" by (simp add: pk_probe_ok_def)
  moreover have "server_handle_event P H (Packet ?p) s = server_handle_userauth P H ?p s"
    using s(2) by (simp add: server_handle_event_def server_handle_preauth_def first_bytes msg_SERVICE_REQUEST_def
        msg_USERAUTH_REQUEST_def)
  moreover note server_userauth_decides [OF P(1) H tw s(3-5) len parse]
  ultimately have "\<exists>s'. server_handle_event P H (Packet ?p) s = (Ok (), s') \<and>
    s_authenticated s' = (if fst (h_is_authorized_key H user (user_public P kp) (s_handler s)) then Some user else None)"
    using s(2) by (auto simp: auth_verdict_def counted_failure_def split: if_splits)
  then show ?thesis using sent by blast
qed

definition sample_keypair :: user_keypair where "sample_keypair = \<lparr>uk_signing = replicate 32 5\<rparr>"

definition sample_key_client :: "nat client_handler" where
  "sample_key_client = sample_client_handler\<lparr>ch_next_auth := (\<lambda>_ h. (Some (AttemptPublicKey sample_keypair), h + 1))\<rparr>"

definition sample_key_auth :: "nat auth_handler" where
  "sample_key_auth = default_auth_handler\<lparr>h_is_authorized_key := (\<lambda>u _ h. (u = str ''root'', h))\<rparr>"

lemma sample_key_auth_ok: "handler_ok sample_key_auth" "handler_limits sample_key_auth 6 50"
  by (simp_all add: sample_key_auth_def handler_ok_def handler_limits_def default_auth_handler_def
      METHOD_PUBLICKEY_def METHOD_PASSWORD_def str_def length_join_with)

theorem publickey_login_witness:
  "\<exists>p s'. client_try_next_auth sample_prims sample_key_client [] (client_with_transport sample_established 0) =
       c_send sample_prims p ((client_with_transport sample_established 0)\<lparr>c_handler := 1\<rparr>) \<and>
     server_handle_event sample_prims sample_key_auth (Packet p) sample_session = (Ok (), s') \<and>
     s_authenticated s' = Some (str ''root'')"
proof -
  let ?c = "client_with_transport sample_established (0 :: nat)"
  have c: "ch_next_auth sample_key_client [] (c_handler ?c) = (Some (AttemptPublicKey sample_keypair), 1)"
    "ch_username sample_key_client (c_handler ?c) = str ''root''"
    "text_ok (str ''root'')" "length (str ''root'') \<le> 2 ^ 16" "t_session_id (c_transport ?c) = Some (replicate 32 7)"
    by (simp_all add: sample_key_client_def sample_client_handler_def client_with_transport_def text_ok_def str_def
        sample_established_def)
  show ?thesis
    using publickey_login [OF sample_safe sample_correct sample_key_auth_ok c sample_session_wf(1,2,4,6)]
    by (simp add: sample_session_wf(5) sample_key_auth_def)
qed

text \<open>C18: A command reaches the server. On two established sessions, with the client authenticated and no channel open, the
  client's \<^verbatim>\<open>exec\<close> sends an open request; the server opens its channel and confirms; on the confirmation the
  client reports the channel ready and sends the command; the server reports exactly that command to its
  driver and owes a reply, and the reply of \<^verbatim>\<open>accept_channel\<close> settles the client's outstanding request.\<close>

theorem exec_reaches_server:
  assumes P: "prims_safe P"
    and c: "t_wf (c_transport c)" "t_phase (c_transport c) = PhaseEstablished" "client_is_authenticated c"
      "c_want_pty c = None" "c_reply_queue c = []"
    and s: "t_wf (s_transport s)" "t_phase (s_transport s) = PhaseEstablished" "server_is_authenticated s" "s_channel s = None"
    and cmd: "text_ok command" "length command \<le> 2 ^ 20"
  shows "\<exists>c1 s1 c2 s2 s3 c3.
    client_exec P command c = (Ok (), c1) \<and>
      c_transport c1 = snd (send_packet P (channel_open_session 0) (c_transport c)) \<and>
    server_handle_event P H (Packet (channel_open_session 0)) s = (Ok (), s1) \<and>
      s_transport s1 = snd (send_packet P (channel_open_confirmation 0 0) (s_transport s)) \<and>
    client_handle_event P C (Packet (channel_open_confirmation 0 0)) c1 = (Ok (), c2) \<and>
      c_transport c2 = snd (send_packet P (channel_request_exec 0 True command) (c_transport c1)) \<and>
      c_events c2 = c_events c @ [ChannelReady 0] \<and>
    server_handle_event P H (Packet (channel_request_exec 0 True command)) s1 = (Ok (), s2) \<and>
      s_events s2 = s_events s @ [ExecRequest 0 command] \<and>
    server_accept_channel P 0 s2 = (Ok (), s3) \<and>
      s_transport s3 = snd (send_packet P (channel_success 0) (s_transport s2)) \<and>
    client_handle_event P C (Packet (channel_success 0)) c2 = (Ok (), c3) \<and>
      c_reply_queue c3 = [] \<and> c_events c3 = c_events c2"
proof -
  let ?ch = "channel_new 0" and ?rch = "set_remote 0 DEFAULT_WINDOW MAX_PACKET (channel_new 0)"
  let ?c1 = "c\<lparr>c_channel := Some ?ch, c_pending := Some (PendingExec command),
    c_transport := snd (send_packet P (channel_open_session 0) (c_transport c))\<rparr>"
  let ?s1 = "s\<lparr>s_channel := Some ?rch, s_program_started := False,
    s_transport := snd (send_packet P (channel_open_confirmation 0 0) (s_transport s))\<rparr>"
  let ?c2 = "c\<lparr>c_channel := Some ?rch, c_pending := None, c_reply_queue := [ReplySession],
    c_transport := snd (send_packet P (channel_request_exec 0 True command) (c_transport ?c1)),
    c_events := c_events c @ [ChannelReady 0]\<rparr>"
  let ?s2 = "?s1\<lparr>s_pending_reply := True, s_program_started := True, s_events := s_events s @ [ExecRequest 0 command]\<rparr>"
  have len: "length (channel_open_session 0) \<le> payload_max" "length (channel_open_confirmation 0 0) \<le> payload_max"
    "length (channel_request_exec 0 True command) \<le> payload_max" "length (channel_success 0) \<le> payload_max"
    using cmd(2) by (simp_all add: client_messages channel_open_confirmation_def channel_success_def)
  note c1w = send_packet_ready [OF P c(1,2) len(1)] and s1w = send_packet_ready [OF P s(1,2) len(2)]
  have c1: "client_exec P command c = (Ok (), ?c1)"
    using c len by (simp add: client_exec_def client_open_session_def CLIENT_LOCAL_CHANNEL_def c_send_Ok [OF P])
  have s1: "server_handle_event P H (Packet (channel_open_session 0)) s = (Ok (), ?s1)"
    using s len
    by (auto simp: server_handle_event_def server_is_authenticated_def server_handle_connection_def first_bytes
        server_opens LOCAL_CHANNEL_def s_send_eq [OF P])
  have c2: "client_handle_event P C (Packet (channel_open_confirmation 0 0)) ?c1 = (Ok (), ?c2)"
    using c1w c(4,5) len(3)
    by (simp add: client_handle_event_def client_handle_packet_def first_bytes msg_defs client_confirms
        client_send_pty_def client_send_request_def c_push_def CLIENT_LOCAL_CHANNEL_def c_send_Ok [OF P]
        client_flush_idle set_remote_def channel_new_def)
  have s2: "server_handle_event P H (Packet (channel_request_exec 0 True command)) ?s1 = (Ok (), ?s2)"
    using s(3)
    by (auto simp: server_handle_event_def server_is_authenticated_def server_handle_connection_def first_bytes msg_defs
        server_exec [OF cmd(1)] server_start_program_def s_push_def LOCAL_CHANNEL_def)
  have s3: "server_accept_channel P 0 ?s2 = (Ok (), ?s2\<lparr>s_pending_reply := False,
      s_transport := snd (send_packet P (channel_success 0) (s_transport ?s2))\<rparr>)"
    using s1w len(4)
    by (simp add: server_accept_channel_def server_reply_def server_remote_id_def set_remote_def s_send_eq [OF P])
  have c3: "client_handle_event P C (Packet (channel_success 0)) ?c2 = (Ok (), ?c2\<lparr>c_reply_queue := []\<rparr>)"
    by (simp add: client_handle_event_def client_handle_packet_def first_bytes msg_defs client_handle_success_def)
  show ?thesis
    by (rule exI, rule exI, rule exI, rule exI, rule exI, rule exI, intro conjI,
        rule c1, simp, rule s1, simp, rule c2, simp, simp, rule s2, simp, rule s3, simp, rule c3) simp_all
qed

theorem exec_reaches_server_witness:
  "\<exists>s1 s2. server_handle_event sample_prims sample_auth (Packet (channel_open_session 0))
       (sample_session\<lparr>s_authenticated := Some (str ''root'')\<rparr>) = (Ok (), s1) \<and>
     server_handle_event sample_prims sample_auth (Packet (channel_request_exec 0 True (str ''ls''))) s1 = (Ok (), s2) \<and>
     s_events s2 = [ExecRequest 0 (str ''ls'')]"
proof -
  let ?c = "(client_with_transport sample_established (0 :: nat))\<lparr>c_state := StAuthenticated\<rparr>"
  let ?s = "sample_session\<lparr>s_authenticated := Some (str ''root'')\<rparr>"
  have c: "t_wf (c_transport ?c)" "t_phase (c_transport ?c) = PhaseEstablished" "client_is_authenticated ?c"
    "c_want_pty ?c = None" "c_reply_queue ?c = []"
    using sample_established_wf
    by (simp_all add: client_with_transport_def client_is_authenticated_def sample_established_def)
  have s: "t_wf (s_transport ?s)" "t_phase (s_transport ?s) = PhaseEstablished" "server_is_authenticated ?s" "s_channel ?s = None"
    "s_events ?s = []"
    using sample_session_wf(1,4) by (simp_all add: server_wf_def server_is_authenticated_def sample_session_def)
  have "text_ok (str ''ls'')" "length (str ''ls'') \<le> 2 ^ 20" by (simp_all add: text_ok_def str_def)
  from exec_reaches_server [OF sample_safe c s(1-4) this, of sample_auth sample_client_handler] s(5)
  show ?thesis by auto
qed

text \<open>C20: A program's output arrives. When a server drains a channel whose announced window the client still grants, and the
  client handles the messages one after the other, the client reports exactly the bytes drained, in order
  and each under its own stream; it never finds its window exceeded, and it stays ready for more.\<close>

theorem output_delivered:
  assumes P: "prims_safe P" and ch: "channel_wf ch" "1 \<le> ch_remote_max_packet ch"
    and s: "client_takes (unat (ch_remote_window ch)) s"
  shows "\<exists>msgs ch' s' es. drain_output mc ch = (Ok msgs, ch') \<and> client_packets P C msgs s = (Ok (), s') \<and>
    c_events s' = c_events s @ es \<and>
    concat (map received es) = take (unat (ch_remote_window ch)) (out_stream ch) \<and>
    out_stream ch' = drop (unat (ch_remote_window ch)) (out_stream ch) \<and>
    client_takes (unat (ch_remote_window ch')) s'"
proof -
  define n where "n = min (unat (ch_remote_window ch)) (length (out_stream ch))"
  obtain chunks items where d: "drain_output mc ch = (Ok (map (\<lambda>(e, c). data_message (ch_remote_id ch) e c) chunks),
       ch\<lparr>ch_out := items, ch_remote_window := ch_remote_window ch - of_nat n, ch_flushed_out := ch_flushed_out ch + of_nat n\<rparr>)"
    and c: "concat (map (\<lambda>(e, c). map (Pair e) c) chunks) = take n (out_stream ch)"
    and o: "out_stream (ch\<lparr>ch_out := items\<rparr>) = drop n (out_stream ch)"
    using drain_output_spec [of ch mc] ch by (auto simp: channel_wf_def n_def)
  have un: "unat (of_nat n :: u32) = n"
    by (rule unat_of_nat_u32, rule below_u32 [of _ "ch_remote_window ch"]) (simp add: n_def)
  have w: "unat (ch_remote_window ch - of_nat n) = unat (ch_remote_window ch) - n"
    using un by (simp add: unat_sub word_le_nat_alt n_def)
  have "sum_list (map (length \<circ> snd) chunks) = n" by (simp add: chunks_length c n_def)
  then have "client_takes (sum_list (map (length \<circ> snd) chunks) + (unat (ch_remote_window ch) - n)) s"
    using s by (simp add: n_def)
  from client_takes_chunks [OF P this, of C "ch_remote_id ch"] obtain s' where
    s': "client_packets P C (map (\<lambda>(e, c). data_message (ch_remote_id ch) e c) chunks) s = (Ok (), s')"
      "client_takes (unat (ch_remote_window ch) - n) s'" "c_events s' = c_events s @ map chunk_event chunks"
    by blast
  have "take n (out_stream ch) = take (unat (ch_remote_window ch)) (out_stream ch)"
    "drop n (out_stream ch) = drop (unat (ch_remote_window ch)) (out_stream ch)"
    by (simp_all add: n_def min_def)
  then show ?thesis
    using d s' w o received_chunks [of chunks] c by (auto simp: out_stream_def)
qed

theorem output_delivered_witness:
  "\<exists>msgs ch' s' es. drain_output None (enqueue_stdout (str ''hello'') (set_remote 0 3 100 (channel_new 0))) = (Ok msgs, ch') \<and>
     client_packets sample_prims sample_client_handler msgs
       ((client_with_transport sample_established 0)\<lparr>c_channel := Some (channel_new 0)\<rparr>) = (Ok (), s') \<and>
     c_events s' = es \<and> concat (map received es) = map (Pair False) (str ''hel'')"
proof -
  let ?ch = "enqueue_stdout (str ''hello'') (set_remote 0 3 100 (channel_new 0))"
  let ?s = "(client_with_transport sample_established (0 :: nat))\<lparr>c_channel := Some (channel_new 0)\<rparr>"
  have ch: "channel_wf ?ch" "1 \<le> ch_remote_max_packet ?ch" "unat (ch_remote_window ?ch) = 3"
    by (simp_all add: channel_wf_updates channel_wf_new) (simp_all add: enqueue_stdout_def set_remote_def channel_new_def max_def)
  have "client_takes (unat (ch_remote_window ?ch)) ?s"
    using sample_established_wf channel_wf_new [of 0] ch(3)
    by (simp add: client_takes_def client_with_transport_def sample_established_def)
      (simp add: channel_new_def DEFAULT_WINDOW_def)
  note out = output_delivered [OF sample_safe ch(1,2) this, of None sample_client_handler]
  have "take 3 (out_stream ?ch) = map (Pair False) (str ''hel'')" "c_events ?s = []"
    by (simp_all add: out_stream_def enqueue_stdout_def set_remote_def channel_new_def str_def client_with_transport_def)
  with out show ?thesis unfolding ch(3) by (metis append_Nil)
qed



end
