(* ===== verification/Rust_Str.thy ===== *)
theory Rust_Str
  imports Ssh_Prelude
begin

text \<open>
  What the I/O crate uses of Rust's \<^verbatim>\<open>str\<close>: \<^verbatim>\<open>split_whitespace\<close>, \<^verbatim>\<open>trim\<close>, \<^verbatim>\<open>lines\<close> and \<^verbatim>\<open>split_once\<close>, on texts that are
  their UTF-8 bytes. White space is that of Unicode; the lead byte of a multi-byte character is never a
  continuation byte, so looking at every byte finds the same characters as looking at every character.
\<close>

text \<open>The length in bytes of the white space character in front, or 0.\<close>

definition ws_char :: "bytes \<Rightarrow> nat" where
  "ws_char bs =
     (if bs = [] then 0
      else if 9 \<le> hd bs \<and> hd bs \<le> 13 \<or> hd bs = 32 then 1
      else if take 2 bs \<in> {[0xC2, 0x85], [0xC2, 0xA0]} then 2
      else if take 3 bs \<in> {[0xE1, 0x9A, 0x80], [0xE2, 0x80, 0xA8], [0xE2, 0x80, 0xA9], [0xE2, 0x80, 0xAF],
                           [0xE2, 0x81, 0x9F], [0xE3, 0x80, 0x80]} then 3
      else if 2 < length bs \<and> take 2 bs = [0xE2, 0x80] \<and> 0x80 \<le> bs ! 2 \<and> bs ! 2 \<le> 0x8A then 3
      else 0)"

lemma ws_char_le: "ws_char bs \<le> length bs"
proof -
  have "bs = [] \<or> Suc 0 \<le> length bs" by (cases bs) auto
  moreover have "2 \<le> length bs" if "take 2 bs = [a, b]" for a b using arg_cong [OF that, of length] by simp
  moreover have "3 \<le> length bs" if "take 3 bs = [a, b, c]" for a b c using arg_cong [OF that, of length] by simp
  ultimately show ?thesis by (auto simp: ws_char_def)
qed

lemma ws_char_Nil [simp]: "ws_char [] = 0"
  by (simp add: ws_char_def)

definition ascii_space :: "byte \<Rightarrow> bool" where
  "ascii_space b = (9 \<le> b \<and> b \<le> 13 \<or> b = 32)"

lemma ws_char_ascii: "b < 0x80 \<Longrightarrow> ws_char (b # bs) = (if ascii_space b then 1 else 0)"
proof -
  assume "b < 0x80"
  then have "b \<noteq> 0xC2" "b \<noteq> 0xE1" "b \<noteq> 0xE2" "b \<noteq> 0xE3" by auto
  then show ?thesis by (simp add: ws_char_def ascii_space_def take_Cons')
qed

text \<open>\<^verbatim>\<open>split_whitespace\<close>, with the token read so far.\<close>

definition emit :: "bytes \<Rightarrow> bytes list \<Rightarrow> bytes list" where
  "emit token rest = (if token = [] then rest else token # rest)"

function split_ws :: "bytes \<Rightarrow> bytes \<Rightarrow> bytes list" where
  "split_ws token [] = emit token []"
| "split_ws token (b # bs) =
     (if ws_char (b # bs) > 0 then emit token (split_ws [] (drop (ws_char (b # bs)) (b # bs)))
      else split_ws (token @ [b]) bs)"
  by pat_completeness auto
termination
  by (relation "measure (\<lambda>(token, bs). length bs)") auto

declare split_ws.simps(2) [simp del]

definition split_whitespace :: "bytes \<Rightarrow> bytes list" where
  "split_whitespace s = split_ws [] s"

text \<open>\<^verbatim>\<open>trim\<close>.\<close>

function trim_start :: "bytes \<Rightarrow> bytes" where
  "trim_start bs = (if ws_char bs > 0 then trim_start (drop (ws_char bs) bs) else bs)"
  by pat_completeness auto
termination
proof (relation "measure length", simp)
  fix bs
  assume "0 < ws_char bs"
  then show "(drop (ws_char bs) bs, bs) \<in> measure length" by (cases bs) auto
qed

declare trim_start.simps [simp del]

fun trim_end :: "bytes \<Rightarrow> bytes" where
  "trim_end [] = []"
| "trim_end (b # bs) = (if trim_start (b # bs) = [] then [] else b # trim_end bs)"

definition trim :: "bytes \<Rightarrow> bytes" where
  "trim s = trim_end (trim_start s)"

text \<open>\<^verbatim>\<open>lines\<close>: the pieces ended by a line feed, without a carriage return before it, and what follows the last
  line feed, if anything.\<close>

definition strip_cr :: "bytes \<Rightarrow> bytes" where
  "strip_cr l = (if l \<noteq> [] \<and> last l = 13 then butlast l else l)"

definition lines :: "bytes \<Rightarrow> bytes list" where
  "lines s = (let ps = split_on 10 s in map strip_cr (butlast ps) @ (if last ps = [] then [] else [last ps]))"

text \<open>\<^verbatim>\<open>split_once(char::is_whitespace)\<close>.\<close>

fun split_once_ws :: "bytes \<Rightarrow> (bytes \<times> bytes) option" where
  "split_once_ws [] = None"
| "split_once_ws (b # bs) =
     (if ws_char (b # bs) > 0 then Some ([], drop (ws_char (b # bs)) (b # bs))
      else map_option (\<lambda>(p, q). (b # p, q)) (split_once_ws bs))"

section \<open>Tokens\<close>

lemma emit_simps [simp]: "emit [] r = r" "t \<noteq> [] \<Longrightarrow> emit t r = t # r"
  by (simp_all add: emit_def)

lemma set_emit [simp]: "set (emit t r) = (if t = [] then {} else {t}) \<union> set r"
  by (simp add: emit_def)

lemma split_ws_nonempty: "[] \<notin> set (split_ws token s)"
  by (induction token s rule: split_ws.induct) (auto simp: split_ws.simps(2))

definition word_ok :: "bytes \<Rightarrow> bool" where
  "word_ok t \<longleftrightarrow> t \<noteq> [] \<and> (\<forall>b\<in>set t. b < 0x80 \<and> \<not> ascii_space b)"

lemma split_ws_word: "\<forall>b\<in>set t. b < 0x80 \<and> \<not> ascii_space b \<Longrightarrow> split_ws token (t @ rest) = split_ws (token @ t) rest"
  by (induction t arbitrary: token) (simp_all add: split_ws.simps(2) ws_char_ascii)

lemma split_ws_space: "split_ws token (32 # rest) = emit token (split_ws [] rest)"
  by (simp add: split_ws.simps(2) ws_char_ascii ascii_space_def)

text \<open>Words joined by spaces are split into these words.\<close>

lemma split_whitespace_join: "list_all word_ok ts \<Longrightarrow> split_whitespace (join_with 32 ts) = ts"
proof (induction "32 :: byte" ts rule: join_with.induct)
  case (2 t)
  then show ?case using split_ws_word [of t "[]" "[]"] by (simp add: split_whitespace_def word_ok_def)
next
  case (3 t u ts)
  then show ?case using split_ws_word [of t "[]" "32 # join_with 32 (u # ts)"]
    by (simp add: split_whitespace_def word_ok_def split_ws_space)
qed (simp add: split_whitespace_def)

section \<open>ASCII texts\<close>

text \<open>A text of ASCII bytes that starts and ends with a visible one is its own trimmed form.\<close>

definition tidy :: "bytes \<Rightarrow> bool" where
  "tidy s \<longleftrightarrow> s \<noteq> [] \<and> (\<forall>b\<in>set s. b < 0x80) \<and> \<not> ascii_space (hd s) \<and> \<not> ascii_space (last s)"

lemma trim_start_visible:
  "\<forall>b\<in>set s. b < 0x80 \<Longrightarrow> s \<noteq> [] \<Longrightarrow> \<not> ascii_space (last s) \<Longrightarrow> trim_start s \<noteq> []"
proof (induction s)
  case (Cons b bs)
  then show ?case by (cases "bs = []") (subst trim_start.simps; simp add: ws_char_ascii)+
qed simp

lemma trim_end_visible:
  "\<forall>b\<in>set s. b < 0x80 \<Longrightarrow> s \<noteq> [] \<Longrightarrow> \<not> ascii_space (last s) \<Longrightarrow> trim_end s = s"
proof (induction s)
  case (Cons b bs)
  then show ?case using trim_start_visible [of "b # bs"] by (cases "bs = []") auto
qed simp

lemma trim_tidy: "tidy s \<Longrightarrow> trim s = s"
  unfolding trim_def tidy_def
  by (subst trim_start.simps, cases s) (simp_all add: ws_char_ascii trim_end_visible del: trim_end.simps)

lemma split_once_visible:
  "\<forall>b\<in>set w. b < 0x80 \<and> \<not> ascii_space b \<Longrightarrow> split_once_ws (w @ 32 # rest) = Some (w, rest)"
  by (induction w) (simp_all add: ws_char_ascii ascii_space_def)

lemma lines_ended: "\<forall>l\<in>set ls. 10 \<notin> set l \<and> (l \<noteq> [] \<longrightarrow> last l \<noteq> 13) \<Longrightarrow> lines (concat (map (\<lambda>l. l @ [10]) ls)) = ls"
proof -
  assume ls: "\<forall>l\<in>set ls. 10 \<notin> set l \<and> (l \<noteq> [] \<longrightarrow> last l \<noteq> 13)"
  have "split_on 10 (concat (map (\<lambda>l. l @ [10]) ls)) = ls @ [[]]"
    using ls by (induction ls) (simp_all add: split_on_append)
  moreover have "map strip_cr ls = ls" using ls by (intro map_idI) (auto simp: strip_cr_def)
  ultimately show ?thesis by (simp add: lines_def Let_def)
qed

lemma join_words:
  assumes "list_all word_ok ws" and "ws \<noteq> []"
  shows "tidy (join_with 32 ws)" and "10 \<notin> set (join_with 32 ws)"
proof -
  have "tidy (join_with 32 ws) \<and> 10 \<notin> set (join_with 32 ws)"
    using assms
  proof (induction "32 :: byte" ws rule: join_with.induct)
    case (2 w)
    then show ?case by (cases w) (auto simp: tidy_def word_ok_def ascii_space_def dest: last_in_set)
  next
    case (3 w v ws)
    then have "tidy (join_with 32 (v # ws))" "10 \<notin> set (join_with 32 (v # ws))" by simp_all
    then show ?case using 3 by (cases w) (auto simp: tidy_def word_ok_def ascii_space_def)
  qed simp
  then show "tidy (join_with 32 ws)" "10 \<notin> set (join_with 32 ws)" by simp_all
qed

end
