(* ===== verification/Exec.thy ===== *)
theory Exec
  imports Rust_Str Connection
begin

text \<open>
  Command handlers and the context that routes to them (\<^verbatim>\<open>crates/ssh-io/src/exec.rs\<close>), and what \<^verbatim>\<open>system.rs\<close> and the
  client program do with text: \<^verbatim>\<open>build_command\<close>, \<^verbatim>\<open>cr_to_lf\<close>, \<^verbatim>\<open>crlf_to_lf\<close>. A handler is an opaque value \<open>'k\<close>. The
  channels and the semaphore of \<^verbatim>\<open>tokio\<close> are parameters: a receiver is polled by a function over its state, and
  what an acquire or a send comes to is an argument of the write.
\<close>

datatype outbound = Stdout bytes | Stderr bytes | Exit u32

definition MAX_RESERVE :: nat where "MAX_RESERVE = 32 * 1024"

section \<open>The context\<close>

record 'k exec_context =
  ec_exec :: "bytes \<rightharpoonup> 'k"
  ec_subsystem :: "bytes \<rightharpoonup> 'k"
  ec_shell :: "'k option"
  ec_default_exec :: "'k option"

definition context_new :: "'k exec_context" where
  "context_new = \<lparr>ec_exec = Map.empty, ec_subsystem = Map.empty, ec_shell = None, ec_default_exec = None\<rparr>"

definition on_exec :: "bytes \<Rightarrow> 'k \<Rightarrow> 'k exec_context \<Rightarrow> 'k exec_context" where
  "on_exec name handler c = c\<lparr>ec_exec := (ec_exec c)(name \<mapsto> handler)\<rparr>"

definition on_subsystem :: "bytes \<Rightarrow> 'k \<Rightarrow> 'k exec_context \<Rightarrow> 'k exec_context" where
  "on_subsystem name handler c = c\<lparr>ec_subsystem := (ec_subsystem c)(name \<mapsto> handler)\<rparr>"

definition on_shell :: "'k \<Rightarrow> 'k exec_context \<Rightarrow> 'k exec_context" where
  "on_shell handler c = c\<lparr>ec_shell := Some handler\<rparr>"

definition on_unmatched_exec :: "'k \<Rightarrow> 'k exec_context \<Rightarrow> 'k exec_context" where
  "on_unmatched_exec handler c = c\<lparr>ec_default_exec := Some handler\<rparr>"

definition exec_handler :: "bytes \<Rightarrow> 'k exec_context \<Rightarrow> 'k option" where
  "exec_handler command c =
     (let name = (case split_whitespace command of t # _ \<Rightarrow> t | [] \<Rightarrow> [])
      in case ec_exec c name of Some h \<Rightarrow> Some h | None \<Rightarrow> ec_default_exec c)"

definition subsystem_handler :: "bytes \<Rightarrow> 'k exec_context \<Rightarrow> 'k option" where
  "subsystem_handler name c = ec_subsystem c name"

definition shell_handler :: "'k exec_context \<Rightarrow> 'k option" where
  "shell_handler c = ec_shell c"

section \<open>Processes\<close>

text \<open>The invocation \<^verbatim>\<open>build_command\<close> sets up: the program and its arguments. The platform and the environment
  variable \<^verbatim>\<open>SHELL\<close> are arguments.\<close>

datatype process_mode = Direct | Shell

definition process_mode_of :: "bytes \<Rightarrow> process_mode" where
  "process_mode_of command = (if command = [] then Shell else Direct)"

definition build_command :: "bool \<Rightarrow> bytes option \<Rightarrow> bytes option \<Rightarrow> string + bytes \<times> bytes list" where
  "build_command windows shell_var command =
     (case command of
        Some cmd \<Rightarrow>
          (case split_whitespace cmd of
             [] \<Rightarrow> Inl ''empty command''
           | program # args \<Rightarrow> Inr (program, args))
      | None \<Rightarrow>
          if windows then Inr (str ''cmd.exe'', [str ''/Q''])
          else Inr (case shell_var of Some sh \<Rightarrow> sh | None \<Rightarrow> str ''/bin/sh'', [str ''-i'']))"

fun cr_to_lf :: "bytes \<Rightarrow> bytes" where
  "cr_to_lf [] = []"
| "cr_to_lf [b] = [if b = 13 then 10 else b]"
| "cr_to_lf (b # c # bs) =
     (if b = 13 then (if c = 10 then 10 # cr_to_lf bs else 10 # cr_to_lf (c # bs))
      else b # cr_to_lf (c # bs))"

fun crlf_to_lf :: "bytes \<Rightarrow> bytes" where
  "crlf_to_lf [] = []"
| "crlf_to_lf [b] = [b]"
| "crlf_to_lf (b # c # bs) = (if b = 13 \<and> c = 10 then crlf_to_lf (c # bs) else b # crlf_to_lf (c # bs))"

section \<open>Reading the channel\<close>

datatype 'a poll = Ready 'a | Pending

record 'q session_reader =
  sr_stdin :: 'q
  sr_consumed :: u64
  sr_chunk :: bytes
  sr_pos :: nat

definition session_reader_new :: "'q \<Rightarrow> 'q session_reader" where
  "session_reader_new stdin = \<lparr>sr_stdin = stdin, sr_consumed = 0, sr_chunk = [], sr_pos = 0\<rparr>"

datatype fill = Filled | AtEof | Blocked

text \<open>The loop of \<^verbatim>\<open>poll_read\<close>: receive until there is something to read.\<close>

partial_function (option) fill_chunk ::
    "('q \<Rightarrow> bytes option poll \<times> 'q) \<Rightarrow> 'q session_reader \<Rightarrow> (fill \<times> 'q session_reader) option" where
  "fill_chunk recv r =
     (if sr_pos r < length (sr_chunk r) then Some (Filled, r)
      else
        case recv (sr_stdin r) of
          (Ready (Some c), q) \<Rightarrow>
            if c \<noteq> [] then fill_chunk recv (r\<lparr>sr_stdin := q, sr_chunk := c, sr_pos := 0\<rparr>)
            else fill_chunk recv (r\<lparr>sr_stdin := q\<rparr>)
        | (Ready None, q) \<Rightarrow> Some (AtEof, r\<lparr>sr_stdin := q\<rparr>)
        | (Pending, q) \<Rightarrow> Some (Blocked, r\<lparr>sr_stdin := q\<rparr>))"

definition poll_read ::
    "('q \<Rightarrow> bytes option poll \<times> 'q) \<Rightarrow> nat \<Rightarrow> 'q session_reader \<Rightarrow> ('q session_reader, bytes poll) outcome" where
  "poll_read recv remaining r =
     (case fill_chunk recv r of
        None \<Rightarrow> (Crash ''does not return'', r)
      | Some (AtEof, r) \<Rightarrow> (Ok (Ready []), r)
      | Some (Blocked, r) \<Rightarrow> (Ok Pending, r)
      | Some (Filled, r) \<Rightarrow>
          let n = min (length (sr_chunk r) - sr_pos r) remaining
          in (Ok (Ready (take n (drop (sr_pos r) (sr_chunk r)))),
              r\<lparr>sr_pos := sr_pos r + n, sr_consumed := sr_consumed r + of_nat n\<rparr>))"

section \<open>Writing to the channel\<close>

text \<open>What a write does to the budget and the channel.\<close>

datatype write_act = Took nat | Gave nat | Sent outbound

text \<open>How the pending acquire answers when polled.\<close>

datatype acquire = Granted | NotYet | Closed

text \<open>The reservation in progress: the bytes wanted, and whether its acquire has already answered. Polling it again
  then is a panic.\<close>

record session_writer =
  sw_reserving :: "(nat \<times> bool) option"

definition writer_clone :: "session_writer \<Rightarrow> session_writer" where
  "writer_clone w = \<lparr>sw_reserving = None\<rparr>"

text \<open>\<^verbatim>\<open>poll_write\<close>; \<open>Ready None\<close> is the error of a closed channel, \<open>open\<close> whether the channel takes the send.\<close>

definition poll_write ::
    "acquire \<Rightarrow> bool \<Rightarrow> bytes \<Rightarrow> session_writer \<Rightarrow> (session_writer, nat option poll \<times> write_act list) outcome" where
  "poll_write acq open data w =
     (if data = [] then (Ok (Ready (Some 0), []), w)
      else
        let (want, answered) = (case sw_reserving w of Some r \<Rightarrow> r | None \<Rightarrow> (min (length data) MAX_RESERVE, False)) in
        if answered then (Crash ''resumed after completion'', w\<lparr>sw_reserving := Some (want, answered)\<rparr>)
        else
          case acq of
            NotYet \<Rightarrow> (Ok (Pending, []), w\<lparr>sw_reserving := Some (want, False)\<rparr>)
          | Closed \<Rightarrow> (Ok (Ready None, []), w\<lparr>sw_reserving := Some (want, True)\<rparr>)
          | Granted \<Rightarrow>
              let n = min want (length data);
                  gave = (if n < want then [Gave (want - n)] else [])
              in if open
                 then (Ok (Ready (Some n), Took want # gave @ [Sent (Stdout (take n data))]), w\<lparr>sw_reserving := None\<rparr>)
                 else (Ok (Ready None, Took want # gave), w\<lparr>sw_reserving := None\<rparr>))"

text \<open>\<^verbatim>\<open>data.chunks(n)\<close>.\<close>

function chunks :: "nat \<Rightarrow> bytes \<Rightarrow> bytes list" where
  "chunks n data = (if data = [] \<or> n = 0 then [] else take n data # chunks n (drop n data))"
  by pat_completeness auto
termination
  by (relation "measure (\<lambda>(n, data). length data)") auto

declare chunks.simps [simp del]

text \<open>\<^verbatim>\<open>reserve_and_send\<close>: for every chunk, how its acquire and its send come out. \<open>None\<close>: still waiting, \<open>Some False\<close>: the
  error of a closed channel.\<close>

fun send_chunks :: "bool \<Rightarrow> (acquire \<times> bool) list \<Rightarrow> bytes list \<Rightarrow> bool option \<times> write_act list" where
  "send_chunks ext answers [] = (Some True, [])"
| "send_chunks ext [] (c # cs) = (None, [])"
| "send_chunks ext ((acq, open) # answers) (c # cs) =
     (case acq of
        NotYet \<Rightarrow> (None, [])
      | Closed \<Rightarrow> (Some False, [])
      | Granted \<Rightarrow>
          if open then
            let (res, acts) = send_chunks ext answers cs
            in (res, Took (length c) # Sent (if ext then Stderr c else Stdout c) # acts)
          else (Some False, [Took (length c)]))"

definition reserve_and_send :: "bytes \<Rightarrow> bool \<Rightarrow> (acquire \<times> bool) list \<Rightarrow> bool option \<times> write_act list" where
  "reserve_and_send data ext answers = send_chunks ext answers (chunks MAX_RESERVE data)"

section \<open>Lemmas\<close>

fun out_bytes :: "outbound \<Rightarrow> bytes" where
  "out_bytes (Stdout d) = d"
| "out_bytes (Stderr d) = d"
| "out_bytes (Exit _) = []"

text \<open>Bytes taken from the budget and not given back, and bytes sent.\<close>

fun taken :: "write_act list \<Rightarrow> int" where
  "taken [] = 0"
| "taken (Took n # as) = int n + taken as"
| "taken (Gave n # as) = taken as - int n"
| "taken (Sent _ # as) = taken as"

fun sent :: "write_act list \<Rightarrow> bytes" where
  "sent [] = []"
| "sent (Sent o' # as) = out_bytes o' @ sent as"
| "sent (_ # as) = sent as"

lemma taken_append [simp]: "taken (as @ bs) = taken as + taken bs"
  by (induction as rule: taken.induct) simp_all

lemma sent_append [simp]: "sent (as @ bs) = sent as @ sent bs"
  by (induction as rule: sent.induct) simp_all

lemma chunks_concat: "0 < n \<Longrightarrow> concat (chunks n data) = data"
proof (induction n data rule: chunks.induct)
  case (1 n data)
  then show ?case by (cases "data = []") (simp_all add: chunks.simps [of n data] chunks.simps [of n "[]"])
qed

lemma chunks_size: "c \<in> set (chunks n data) \<Longrightarrow> 0 < length c \<and> length c \<le> n"
proof (induction n data rule: chunks.induct)
  case (1 n data)
  then show ?case by (cases "data = [] \<or> n = 0") (auto simp: chunks.simps [of n data])
qed

lemma send_chunks_result:
  assumes "send_chunks ext answers cs = (res, acts)" and "res \<noteq> Some False"
  shows "taken acts = int (length (sent acts)) \<and> (\<exists>cs'. concat cs = sent acts @ concat cs' \<and> (res = Some True \<longleftrightarrow> cs' = []))"
  using assms
proof (induction ext answers cs arbitrary: res acts rule: send_chunks.induct)
  case (2 ext c cs)
  then show ?case by (auto intro: exI [of _ "c # cs"])
next
  case (3 ext acq open' answers c cs)
  show ?case
  proof (cases acq)
    case Granted
    obtain res' acts' where r: "send_chunks ext answers cs = (res', acts')" by fastforce
    with 3 Granted show ?thesis by (cases "open'"; cases ext) auto
  next
    case NotYet
    then show ?thesis using 3 by (auto intro: exI [of _ "c # cs"])
  next
    case Closed
    then show ?thesis using 3 by auto
  qed
qed auto

text \<open>What a receiver promises: it hands out what was sent in order, ends when the sender is gone and everything was
  received, and waits otherwise.\<close>

definition fifo_receiver :: "('q \<Rightarrow> bytes option poll \<times> 'q) \<Rightarrow> ('q \<Rightarrow> bytes list) \<Rightarrow> ('q \<Rightarrow> bool) \<Rightarrow> bool" where
  "fifo_receiver recv queued closed \<longleftrightarrow> (\<forall>q. case recv q of
       (Ready (Some c), q') \<Rightarrow> queued q = c # queued q' \<and> closed q' = closed q
     | (Ready None, q') \<Rightarrow> queued q = [] \<and> queued q' = [] \<and> closed q \<and> closed q'
     | (Pending, q') \<Rightarrow> queued q = [] \<and> queued q' = [] \<and> \<not> closed q \<and> \<not> closed q')"

text \<open>The bytes a reader still has to deliver.\<close>

definition unread :: "('q \<Rightarrow> bytes list) \<Rightarrow> 'q session_reader \<Rightarrow> bytes" where
  "unread queued r = drop (sr_pos r) (sr_chunk r) @ concat (queued (sr_stdin r))"

lemma fill_chunk_result:
  assumes Q: "fifo_receiver recv queued closed"
  shows "\<exists>res r'. fill_chunk recv r = Some (res, r') \<and> unread queued r' = unread queued r \<and>
    closed (sr_stdin r') = closed (sr_stdin r) \<and> sr_consumed r' = sr_consumed r \<and>
    (case res of Filled \<Rightarrow> sr_pos r' < length (sr_chunk r')
      | AtEof \<Rightarrow> unread queued r' = [] \<and> closed (sr_stdin r') | Blocked \<Rightarrow> unread queued r' = [] \<and> \<not> closed (sr_stdin r'))"
proof (induction "length (queued (sr_stdin r))" arbitrary: r rule: less_induct)
  case less
  show ?case
  proof (cases "sr_pos r < length (sr_chunk r)")
    case True
    then show ?thesis by (simp add: fill_chunk.simps [of recv r])
  next
    case False
    obtain res q where rc: "recv (sr_stdin r) = (res, q)" by fastforce
    have "case recv (sr_stdin r) of (Ready (Some c), q') \<Rightarrow> queued (sr_stdin r) = c # queued q' \<and> closed q' = closed (sr_stdin r)
     | (Ready None, q') \<Rightarrow> queued (sr_stdin r) = [] \<and> queued q' = [] \<and> closed (sr_stdin r) \<and> closed q'
     | (Pending, q') \<Rightarrow> queued (sr_stdin r) = [] \<and> queued q' = [] \<and> \<not> closed (sr_stdin r) \<and> \<not> closed q'"
      using Q unfolding fifo_receiver_def by (rule spec)
    note law = this [unfolded rc]
    show ?thesis
    proof (cases "\<exists>c. res = Ready (Some c)")
      case True
      then obtain c where c: "res = Ready (Some c)" by blast
      let ?r = "if c \<noteq> [] then r\<lparr>sr_stdin := q, sr_chunk := c, sr_pos := 0\<rparr> else r\<lparr>sr_stdin := q\<rparr>"
      have "fill_chunk recv r = fill_chunk recv ?r"
        by (subst fill_chunk.simps) (simp add: False rc c)
      moreover have "unread queued ?r = unread queued r" "closed (sr_stdin ?r) = closed (sr_stdin r)"
          "sr_consumed ?r = sr_consumed r" "length (queued (sr_stdin ?r)) < length (queued (sr_stdin r))"
        using law c False by (simp_all add: unread_def)
      ultimately show ?thesis using less [of ?r] by presburger
    next
      case no: False
      then show ?thesis using law False rc
        by (cases res) (auto simp: fill_chunk.simps [of recv r] unread_def split: option.splits)
    qed
  qed
qed

section \<open>Properties\<close>

text \<open>Reading loses nothing and counts exactly. A read always returns: it delivers the next bytes of what the peer
  sent, in order and at most as many as asked for, and adds their number to the count that replenishes the
  peer's window; it delivers nothing only when asked for nothing or when everything was read and the
  sender is gone; and it waits only when everything was read.\<close>

theorem reader_delivers:
  assumes "fifo_receiver recv queued closed"
  shows "\<exists>res r'. poll_read recv remaining r = (Ok res, r') \<and> closed (sr_stdin r') = closed (sr_stdin r) \<and>
    (case res of
       Ready bs \<Rightarrow> unread queued r = bs @ unread queued r' \<and> length bs \<le> remaining \<and>
         sr_consumed r' = sr_consumed r + of_nat (length bs) \<and>
         (bs = [] \<longrightarrow> remaining = 0 \<or> unread queued r = [] \<and> closed (sr_stdin r))
     | Pending \<Rightarrow> unread queued r = [] \<and> \<not> closed (sr_stdin r) \<and> sr_consumed r' = sr_consumed r)"
proof -
  obtain res r' where f: "fill_chunk recv r = Some (res, r')" "unread queued r' = unread queued r"
      "closed (sr_stdin r') = closed (sr_stdin r)" "sr_consumed r' = sr_consumed r"
    and g: "case res of Filled \<Rightarrow> sr_pos r' < length (sr_chunk r')
      | AtEof \<Rightarrow> unread queued r' = [] \<and> closed (sr_stdin r') | Blocked \<Rightarrow> unread queued r' = [] \<and> \<not> closed (sr_stdin r')"
    using fill_chunk_result [OF assms] by blast
  show ?thesis
  proof (cases res)
    case Filled
    let ?n = "min (length (sr_chunk r') - sr_pos r') remaining"
    have "drop (sr_pos r') (sr_chunk r') = take ?n (drop (sr_pos r') (sr_chunk r')) @ drop (sr_pos r' + ?n) (sr_chunk r')"
      by (metis append_take_drop_id drop_drop add.commute)
    then have u: "unread queued r' = take ?n (drop (sr_pos r') (sr_chunk r')) @
        unread queued (r'\<lparr>sr_pos := sr_pos r' + ?n, sr_consumed := sr_consumed r' + of_nat ?n\<rparr>)"
      by (simp add: unread_def)
    have len: "length (take ?n (drop (sr_pos r') (sr_chunk r'))) = ?n" by simp
    have "sr_pos r' < length (sr_chunk r')" using g Filled by simp
    then show ?thesis using f Filled u len by (auto simp: poll_read_def Let_def min_def)
  next
    case AtEof
    then show ?thesis using f g by (simp add: poll_read_def)
  next
    case Blocked
    then show ?thesis using f g by (simp add: poll_read_def)
  qed
qed

text \<open>A list is a receiver.\<close>

definition sample_recv :: "bytes list \<times> bool \<Rightarrow> bytes option poll \<times> bytes list \<times> bool" where
  "sample_recv q = (case fst q of c # cs \<Rightarrow> (Ready (Some c), cs, snd q) | [] \<Rightarrow> (if snd q then Ready None else Pending, q))"

theorem reader_delivers_witness:
  "\<exists>r'. poll_read sample_recv 2 (session_reader_new ([[], [1, 2, 3]], False)) = (Ok (Ready [1, 2]), r') \<and>
     unread fst r' = [3] \<and> sr_consumed r' = 2"
proof -
  have "fifo_receiver sample_recv fst snd"
    by (simp add: fifo_receiver_def sample_recv_def split: list.split)
  note ok = reader_delivers [OF this, of 2 "session_reader_new ([[], [1, 2, 3]], False)"]
  have "fill_chunk sample_recv (session_reader_new ([[], [1, 2, 3]], False)) =
      Some (Filled, \<lparr>sr_stdin = ([], False), sr_consumed = 0, sr_chunk = [1, 2, 3], sr_pos = 0\<rparr>)"
    by (subst fill_chunk.simps, simp add: sample_recv_def session_reader_new_def)
      (subst fill_chunk.simps, simp add: sample_recv_def, subst fill_chunk.simps, simp)
  then obtain r' where r: "poll_read sample_recv 2 (session_reader_new ([[], [1, 2, 3]], False)) = (Ok (Ready [1, 2]), r')"
    by (simp add: poll_read_def)
  with ok have "unread fst (session_reader_new ([[], [1, 2, 3]], False)) = [1, 2] @ unread fst r' \<and>
      sr_consumed r' = sr_consumed (session_reader_new ([[] :: bytes, [1, 2, 3]], False)) + of_nat (length [1 :: byte, 2])" by simp
  moreover have "unread fst (session_reader_new ([[], [1, 2, 3]], False)) = [1, 2, 3]"
    by (simp add: unread_def session_reader_new_def)
  ultimately show ?thesis using r by (simp add: session_reader_new_def)
qed

text \<open>C33: Writes keep the output budget exact. A poll that accepts bytes sends precisely those bytes, the
  first ones of the data, and takes precisely their number from the budget, even when the caller came back
  with a shorter buffer; while it waits, nothing is taken. A whole write that is not refused takes what it
  has sent, and when it ends everything was sent in order.\<close>

theorem writes_account_exactly:
  assumes "sw_reserving w = Some (want, False) \<or> sw_reserving w = None" and "data \<noteq> []"
    and "reserve_and_send out ext answers = (res, acts)" and "res \<noteq> Some False"
  shows "(case poll_write acq True data w of
      (Ok (Ready (Some n), as), w') \<Rightarrow> taken as = int n \<and> sent as = take n data \<and> n \<le> length data \<and> sw_reserving w' = None
    | (Ok (Ready None, as), w') \<Rightarrow> acq = Closed \<and> taken as = 0 \<and> sent as = []
    | (Ok (Pending, as), w') \<Rightarrow> acq = NotYet \<and> as = [] \<and> sw_reserving w' \<noteq> None
    | _ \<Rightarrow> False) \<and>
    taken acts = int (length (sent acts)) \<and> (\<exists>rest. out = sent acts @ rest \<and> (res = Some True \<longrightarrow> rest = []))"
proof
  show "case poll_write acq True data w of
      (Ok (Ready (Some n), as), w') \<Rightarrow> taken as = int n \<and> sent as = take n data \<and> n \<le> length data \<and> sw_reserving w' = None
    | (Ok (Ready None, as), w') \<Rightarrow> acq = Closed \<and> taken as = 0 \<and> sent as = []
    | (Ok (Pending, as), w') \<Rightarrow> acq = NotYet \<and> as = [] \<and> sw_reserving w' \<noteq> None
    | _ \<Rightarrow> False"
    using assms(1,2) by (cases acq) (auto simp: poll_write_def Let_def min_def)
  from assms(3) have "send_chunks ext answers (chunks MAX_RESERVE out) = (res, acts)" by (simp add: reserve_and_send_def)
  from send_chunks_result [OF this assms(4)] chunks_concat [of MAX_RESERVE out]
  show "taken acts = int (length (sent acts)) \<and> (\<exists>rest. out = sent acts @ rest \<and> (res = Some True \<longrightarrow> rest = []))"
    by (auto simp: MAX_RESERVE_def)
qed

theorem writes_account_exactly_witness:
  "poll_write Granted True [7, 8] \<lparr>sw_reserving = Some (5, False)\<rparr> =
     (Ok (Ready (Some 2), [Took 5, Gave 3, Sent (Stdout [7, 8])]), \<lparr>sw_reserving = None\<rparr>) \<and>
   taken [Took 5, Gave 3, Sent (Stdout [7, 8])] = 2"
proof -
  have "reserve_and_send [] False [] = (Some True, [])" by (simp add: reserve_and_send_def chunks.simps)
  from writes_account_exactly [OF _ _ this, of "\<lparr>sw_reserving = Some (5, False)\<rparr>" 5 "[7, 8]" Granted]
  show ?thesis by (simp add: poll_write_def)
qed

text \<open>After the error of a closed channel the reservation stays behind: the next write panics.\<close>

lemma write_after_close_panics:
  assumes "data \<noteq> []" "data' \<noteq> []" and "poll_write Closed op data \<lparr>sw_reserving = None\<rparr> = (res, w)"
  shows "crashed (fst (poll_write acq op' data' w))"
  using assms by (auto simp: poll_write_def Let_def)

text \<open>The command that is routed is the command that is run. The process a system handler starts has, as its
  program, the very word by which the context chose the handler, and no shell sees the line: words
  separated by spaces arrive as the arguments, whatever characters they contain.\<close>

theorem routed_command_is_run:
  assumes "list_all word_ok (program # args)"
  shows "build_command windows sh (Some (join_with 32 (program # args))) = Inr (program, args) \<and>
    exec_handler (join_with 32 (program # args)) c = (case ec_exec c program of Some h \<Rightarrow> Some h | None \<Rightarrow> ec_default_exec c)"
  using split_whitespace_join [OF assms] by (simp add: build_command_def exec_handler_def)

theorem routed_command_is_run_witness:
  "build_command False None (Some (str ''git-upload-pack repo; sh'')) =
     Inr (str ''git-upload-pack'', [str ''repo;'', str ''sh''])"
proof -
  have "list_all word_ok [str ''git-upload-pack'', str ''repo;'', str ''sh'']"
    by (simp add: word_ok_def str_def ascii_space_def)
  moreover have "str ''git-upload-pack repo; sh'' = join_with 32 [str ''git-upload-pack'', str ''repo;'', str ''sh'']"
    by (simp add: str_def)
  ultimately show ?thesis
    using conjunct1 [OF routed_command_is_run [of "str ''git-upload-pack''" "[str ''repo;'', str ''sh'']" False None]] by metis
qed

text \<open>Line ends are mapped read by read: a carriage return and line feed that arrive in two reads become two
  lines.\<close>

lemma cr_to_lf_split: "cr_to_lf [13] @ cr_to_lf [10] = [10, 10]" "cr_to_lf [13, 10] = [10]"
  by simp_all

end
