(* ===== verification/Admission.thy ===== *)
theory Admission
  imports Ssh_Prelude "HOL-Library.Multiset"
begin

text \<open>
  Admission control of the I/O driver (\<^verbatim>\<open>crates/ssh-io/src/limits.rs\<close>, \<^verbatim>\<open>policy.rs\<close>): the limiter of concurrent
  connections and the fail2ban table. The tables are maps from addresses; the mutex makes each method one step.
  Time is an argument: an \<^verbatim>\<open>Instant\<close> and a \<^verbatim>\<open>Duration\<close> are numbers of nanoseconds, and \<^verbatim>\<open>duration_since\<close> saturates
  at zero as subtraction of naturals does. The semaphore of the \<^verbatim>\<open>tokio\<close> crate is a parameter.
\<close>

datatype ip_addr = V4 "32 word" | V6 "128 word"

record socket_addr =
  sa_ip :: ip_addr
  sa_port :: "16 word"

section \<open>The connection limiter\<close>

text \<open>The semaphore: a fresh one, taking a permit without waiting, giving one back.\<close>

record 'q semaphore =
  sem_new :: "nat \<Rightarrow> 'q"
  sem_try_acquire :: "'q \<Rightarrow> 'q option"
  sem_release :: "'q \<Rightarrow> 'q"

record 'q connection_limiter =
  cl_global :: 'q
  cl_per_ip_max :: "nat option"
  cl_per_ip :: "ip_addr \<rightharpoonup> nat"

record connection_guard =
  cg_ip :: ip_addr
  cg_counted :: bool

definition limiter_new :: "'q semaphore \<Rightarrow> nat \<Rightarrow> nat option \<Rightarrow> 'q connection_limiter" where
  "limiter_new Q max_global per_ip_max =
     \<lparr>cl_global = sem_new Q max_global, cl_per_ip_max = per_ip_max, cl_per_ip = Map.empty\<rparr>"

text \<open>\<^verbatim>\<open>map.entry(ip).or_insert(0)\<close> leaves the entry in the map on every path.\<close>

definition try_admit ::
    "'q semaphore \<Rightarrow> ip_addr \<Rightarrow> 'q connection_limiter \<Rightarrow> connection_guard option \<times> 'q connection_limiter" where
  "try_admit Q ip l =
     (case cl_per_ip_max l of
        Some mx \<Rightarrow>
          let n = (case cl_per_ip l ip of Some k \<Rightarrow> k | None \<Rightarrow> 0);
              l = l\<lparr>cl_per_ip := (cl_per_ip l)(ip \<mapsto> n)\<rparr>
          in
          if n \<ge> mx then (None, l)
          else
            (case sem_try_acquire Q (cl_global l) of
               None \<Rightarrow> (None, l)
             | Some q \<Rightarrow>
                 (Some \<lparr>cg_ip = ip, cg_counted = True\<rparr>,
                  l\<lparr>cl_global := q, cl_per_ip := (cl_per_ip l)(ip \<mapsto> n + 1)\<rparr>))
      | None \<Rightarrow>
          (case sem_try_acquire Q (cl_global l) of
             None \<Rightarrow> (None, l)
           | Some q \<Rightarrow> (Some \<lparr>cg_ip = ip, cg_counted = False\<rparr>, l\<lparr>cl_global := q\<rparr>)))"

text \<open>\<^verbatim>\<open>Drop\<close>: the body of \<^verbatim>\<open>drop\<close>, which panics when the count is already zero, then the fields, which gives the
  permit back.\<close>

definition guard_drop ::
    "'q semaphore \<Rightarrow> connection_guard \<Rightarrow> 'q connection_limiter \<Rightarrow> ('q connection_limiter, unit) outcome" where
  "guard_drop Q g l =
     (if \<not> cg_counted g then (Ok (), l\<lparr>cl_global := sem_release Q (cl_global l)\<rparr>)
      else
        (case cl_per_ip l (cg_ip g) of
           None \<Rightarrow> (Ok (), l\<lparr>cl_global := sem_release Q (cl_global l)\<rparr>)
         | Some n \<Rightarrow>
             if n = 0 then (Crash ''attempt to subtract with overflow'', l)
             else
               let m = (if n - 1 = 0 then (cl_per_ip l)(cg_ip g := None)
                        else (cl_per_ip l)(cg_ip g \<mapsto> n - 1))
               in (Ok (), l\<lparr>cl_per_ip := m, cl_global := sem_release Q (cl_global l)\<rparr>)))"

section \<open>The fail2ban table\<close>

datatype connection_decision = Accept | Reject

text \<open>\<^verbatim>\<open>AllowAll\<close>, the default policy.\<close>

definition allow_all_evaluate :: "socket_addr \<Rightarrow> connection_decision" where
  "allow_all_evaluate peer = Accept"

record f2b_record =
  fr_strikes :: u32
  fr_banned_until :: "nat option"
  fr_last_strike :: nat

record fail2ban =
  fb_state :: "ip_addr \<rightharpoonup> f2b_record"
  fb_max_auth_attempts :: u32
  fb_ban_threshold :: u32
  fb_ban_duration :: nat

definition f2b_new :: "u32 \<Rightarrow> u32 \<Rightarrow> nat \<Rightarrow> fail2ban" where
  "f2b_new max_auth_attempts ban_threshold ban_duration =
     \<lparr>fb_state = Map.empty, fb_max_auth_attempts = max_auth_attempts, fb_ban_threshold = ban_threshold,
      fb_ban_duration = ban_duration\<rparr>"

definition f2b_max_auth_attempts :: "fail2ban \<Rightarrow> u32" where
  "f2b_max_auth_attempts f = fb_max_auth_attempts f"

definition f2b_is_banned :: "nat \<Rightarrow> ip_addr \<Rightarrow> fail2ban \<Rightarrow> bool \<times> fail2ban" where
  "f2b_is_banned now ip f =
     (case fb_state f ip of
        Some record \<Rightarrow>
          (case fr_banned_until record of
             Some until \<Rightarrow> if now < until then (True, f) else (False, f\<lparr>fb_state := (fb_state f)(ip := None)\<rparr>)
           | None \<Rightarrow> (False, f))
      | None \<Rightarrow> (False, f))"

definition f2b_tracked_ips :: "fail2ban \<Rightarrow> nat" where
  "f2b_tracked_ips f = card (dom (fb_state f))"

text \<open>The test of \<^verbatim>\<open>retain\<close>, and \<^verbatim>\<open>gc\<close>.\<close>

definition retained :: "nat \<Rightarrow> nat \<Rightarrow> f2b_record \<Rightarrow> bool" where
  "retained now retention r =
     (case fr_banned_until r of
        Some until \<Rightarrow> until > now
      | None \<Rightarrow> now - fr_last_strike r < retention)"

definition f2b_gc :: "(ip_addr \<rightharpoonup> f2b_record) \<Rightarrow> nat \<Rightarrow> nat \<Rightarrow> (ip_addr \<rightharpoonup> f2b_record)" where
  "f2b_gc state now retention =
     (\<lambda>ip. case state ip of Some r \<Rightarrow> if retained now retention r then Some r else None | None \<Rightarrow> None)"

definition f2b_evaluate :: "nat \<Rightarrow> socket_addr \<Rightarrow> fail2ban \<Rightarrow> connection_decision \<times> fail2ban" where
  "f2b_evaluate now peer f =
     (let (banned, f) = f2b_is_banned now (sa_ip peer) f in (if banned then Reject else Accept, f))"

definition f2b_on_auth_exhausted :: "nat \<Rightarrow> socket_addr \<Rightarrow> fail2ban \<Rightarrow> fail2ban" where
  "f2b_on_auth_exhausted now peer f =
     (let state = f2b_gc (fb_state f) now (fb_ban_duration f);
          record = (case state (sa_ip peer) of
                      Some r \<Rightarrow> r
                    | None \<Rightarrow> \<lparr>fr_strikes = 0, fr_banned_until = None, fr_last_strike = now\<rparr>);
          record = record\<lparr>fr_strikes := sat_add (fr_strikes record) 1, fr_last_strike := now\<rparr>;
          record = (if fr_strikes record \<ge> fb_ban_threshold f
                    then record\<lparr>fr_banned_until := Some (now + fb_ban_duration f)\<rparr> else record)
      in f\<lparr>fb_state := state(sa_ip peer \<mapsto> record)\<rparr>)"

definition f2b_on_authenticated :: "socket_addr \<Rightarrow> fail2ban \<Rightarrow> fail2ban" where
  "f2b_on_authenticated peer f = f\<lparr>fb_state := (fb_state f)(sa_ip peer := None)\<rparr>"

section \<open>Lemmas on the limiter\<close>

text \<open>What the limiter relies on: the semaphore counts its permits.\<close>

definition semaphore_counts :: "'q semaphore \<Rightarrow> ('q \<Rightarrow> nat) \<Rightarrow> bool" where
  "semaphore_counts Q avail \<longleftrightarrow> (\<forall>n. avail (sem_new Q n) = n) \<and>
     (\<forall>q. (case sem_try_acquire Q q of None \<Rightarrow> avail q = 0 | Some q' \<Rightarrow> avail q = Suc (avail q'))) \<and>
     (\<forall>q. avail (sem_release Q q) = Suc (avail q))"

text \<open>A limiter in use, with the guards that are alive.\<close>

inductive limiter_run ::
    "'q semaphore \<Rightarrow> nat \<Rightarrow> nat option \<Rightarrow> 'q connection_limiter \<Rightarrow> connection_guard multiset \<Rightarrow> bool"
  for Q :: "'q semaphore" and mg :: nat and pm :: "nat option" where
  run_new: "limiter_run Q mg pm (limiter_new Q mg pm) {#}"
| run_admit: "limiter_run Q mg pm l G \<Longrightarrow> try_admit Q ip l = (Some g, l') \<Longrightarrow> limiter_run Q mg pm l' (add_mset g G)"
| run_refuse: "limiter_run Q mg pm l G \<Longrightarrow> try_admit Q ip l = (None, l') \<Longrightarrow> limiter_run Q mg pm l' G"
| run_drop: "limiter_run Q mg pm l (add_mset g G) \<Longrightarrow> guard_drop Q g l = (Ok (), l') \<Longrightarrow> limiter_run Q mg pm l' G"

definition live_from :: "ip_addr \<Rightarrow> connection_guard multiset \<Rightarrow> nat" where
  "live_from ip G = size (filter_mset (\<lambda>g. cg_ip g = ip) G)"

definition entry :: "(ip_addr \<rightharpoonup> nat) \<Rightarrow> ip_addr \<Rightarrow> nat" where
  "entry m ip = (case m ip of Some k \<Rightarrow> k | None \<Rightarrow> 0)"

definition limiter_ok :: "('q \<Rightarrow> nat) \<Rightarrow> nat \<Rightarrow> nat option \<Rightarrow> 'q connection_limiter \<Rightarrow> connection_guard multiset \<Rightarrow> bool" where
  "limiter_ok avail mg pm l G \<longleftrightarrow> avail (cl_global l) + size G = mg \<and> cl_per_ip_max l = pm \<and>
     (\<forall>g\<in>#G. cg_counted g \<longleftrightarrow> pm \<noteq> None) \<and>
     (\<forall>mx. pm = Some mx \<longrightarrow> (\<forall>ip. live_from ip G \<le> mx \<and> entry (cl_per_ip l) ip = live_from ip G))"

lemma entry_simps [simp]:
  "entry (m(ip \<mapsto> n)) i = (if i = ip then n else entry m i)" "entry (m(ip := None)) i = (if i = ip then 0 else entry m i)"
  "entry Map.empty i = 0"
  by (simp_all add: entry_def)

lemma live_from_simps [simp]:
  "live_from ip {#} = 0" "live_from ip (add_mset g G) = (if cg_ip g = ip then Suc (live_from ip G) else live_from ip G)"
  by (simp_all add: live_from_def)

lemma limiter_ok_table:
  "limiter_ok avail mg (Some mx) l G \<Longrightarrow> live_from ip G \<le> mx \<and> entry (cl_per_ip l) ip = live_from ip G"
  by (simp add: limiter_ok_def)

lemma limiter_ok_try_admit:
  assumes Q: "semaphore_counts Q avail" and ok: "limiter_ok avail mg pm l G" and t: "try_admit Q ip l = (r, l')"
  shows "limiter_ok avail mg pm l' (case r of Some g \<Rightarrow> add_mset g G | None \<Rightarrow> G) \<and>
    (r \<noteq> None \<longleftrightarrow> size G < mg \<and> (\<forall>mx. pm = Some mx \<longrightarrow> live_from ip G < mx))"
proof -
  have pm: "cl_per_ip_max l = pm" and sz: "avail (cl_global l) + size G = mg" using ok by (simp_all add: limiter_ok_def)
  have sem: "case sem_try_acquire Q (cl_global l) of None \<Rightarrow> avail (cl_global l) = 0
      | Some q' \<Rightarrow> avail (cl_global l) = Suc (avail q')"
    using Q unfolding semaphore_counts_def by blast
  show ?thesis
  proof (cases pm)
    case None
    then show ?thesis using t pm sem sz ok
      by (cases "sem_try_acquire Q (cl_global l)") (auto simp: try_admit_def limiter_ok_def)
  next
    case (Some mx)
    note tab = limiter_ok_table [OF ok [unfolded Some]]
    have keep: "limiter_ok avail mg pm (l\<lparr>cl_per_ip := (cl_per_ip l)(ip \<mapsto> entry (cl_per_ip l) ip)\<rparr>) G"
      using ok by (auto simp: limiter_ok_def)
    show ?thesis
    proof (cases "mx \<le> live_from ip G")
      case True
      then show ?thesis using t pm Some keep tab [of ip] by (auto simp: try_admit_def entry_def [symmetric])
    next
      case False
      show ?thesis
      proof (cases "sem_try_acquire Q (cl_global l)")
        case None
        then show ?thesis using t pm Some keep tab [of ip] False sem sz
          by (auto simp: try_admit_def entry_def [symmetric])
      next
        case q: (Some q)
        then show ?thesis using t pm Some tab False sem sz ok
          by (auto simp: try_admit_def entry_def [symmetric] limiter_ok_def)
      qed
    qed
  qed
qed

lemma limiter_ok_drop:
  assumes Q: "semaphore_counts Q avail" and ok: "limiter_ok avail mg pm l (add_mset g G)"
  shows "\<exists>l'. guard_drop Q g l = (Ok (), l') \<and> limiter_ok avail mg pm l' G"
proof -
  have rel: "avail (sem_release Q q) = Suc (avail q)" for q using Q by (simp add: semaphore_counts_def)
  show ?thesis
  proof (cases pm)
    case None
    then show ?thesis using ok by (auto simp: guard_drop_def limiter_ok_def rel)
  next
    case (Some mx)
    note tab = limiter_ok_table [OF ok [unfolded Some]]
    have n: "cl_per_ip l (cg_ip g) = Some (Suc (live_from (cg_ip g) G))"
      using tab [of "cg_ip g"] by (auto simp: entry_def split: option.splits)
    have "live_from ip G \<le> mx" "ip \<noteq> cg_ip g \<Longrightarrow> entry (cl_per_ip l) ip = live_from ip G" for ip
      using tab [of ip] by (auto split: if_splits)
    then show ?thesis using ok Some
      by (auto simp: guard_drop_def n limiter_ok_def rel)
  qed
qed

lemma limiter_run_ok:
  assumes Q: "semaphore_counts Q avail"
  shows "limiter_run Q mg pm l G \<Longrightarrow> limiter_ok avail mg pm l G"
proof (induction rule: limiter_run.induct)
  case run_new
  then show ?case using Q by (simp add: limiter_ok_def limiter_new_def semaphore_counts_def)
next
  case (run_admit l G ip g l')
  then show ?case using limiter_ok_try_admit [OF Q] by fastforce
next
  case (run_refuse l G ip l')
  then show ?case using limiter_ok_try_admit [OF Q] by fastforce
next
  case (run_drop l g G l')
  then show ?case using limiter_ok_drop [OF Q run_drop.IH] by simp
qed

text \<open>The limiter's caps are exact. However connections come and go, there are never more guards alive than the
  global cap, nor more from one address than the cap per address; a connection is admitted precisely when
  both have room; and dropping a guard never underflows its counter.\<close>

lemma limiter_caps:
  assumes "semaphore_counts Q avail" and "limiter_run Q mg pm l G"
  shows "size G \<le> mg" and "pm = Some mx \<Longrightarrow> live_from ip G \<le> mx"
    and "fst (try_admit Q ip l) \<noteq> None \<longleftrightarrow> size G < mg \<and> (\<forall>mx. pm = Some mx \<longrightarrow> live_from ip G < mx)"
    and "g \<in># G \<Longrightarrow> \<not> crashed (fst (guard_drop Q g l))"
proof -
  have ok: "limiter_ok avail mg pm l G" by (rule limiter_run_ok [OF assms])
  obtain r l' where t: "try_admit Q ip l = (r, l')" by fastforce
  show "size G \<le> mg" "pm = Some mx \<Longrightarrow> live_from ip G \<le> mx" using ok by (auto simp: limiter_ok_def)
  show "fst (try_admit Q ip l) \<noteq> None \<longleftrightarrow> size G < mg \<and> (\<forall>mx. pm = Some mx \<longrightarrow> live_from ip G < mx)"
    using limiter_ok_try_admit [OF assms(1) ok t] by (simp add: t)
  show "\<not> crashed (fst (guard_drop Q g l))" if "g \<in># G"
    using limiter_ok_drop [OF assms(1), of mg pm l g "G - {#g#}"] ok that by auto
qed

text \<open>A counter is a semaphore.\<close>

definition sample_semaphore :: "nat semaphore" where
  "sample_semaphore = \<lparr>sem_new = (\<lambda>n. n), sem_try_acquire = (\<lambda>q. if q = 0 then None else Some (q - 1)), sem_release = Suc\<rparr>"

section \<open>Lemmas on the ban table\<close>

datatype f2b_op = Exhausted socket_addr | LoggedIn socket_addr | Evaluated socket_addr

fun op_ip :: "f2b_op \<Rightarrow> ip_addr" where
  "op_ip (Exhausted p) = sa_ip p"
| "op_ip (LoggedIn p) = sa_ip p"
| "op_ip (Evaluated p) = sa_ip p"

fun f2b_apply :: "nat \<times> f2b_op \<Rightarrow> fail2ban \<Rightarrow> fail2ban" where
  "f2b_apply (now, Exhausted p) f = f2b_on_auth_exhausted now p f"
| "f2b_apply (now, LoggedIn p) f = f2b_on_authenticated p f"
| "f2b_apply (now, Evaluated p) f = snd (f2b_evaluate now p f)"

text \<open>The record of an address that still counts at a given time.\<close>

definition live :: "nat \<Rightarrow> fail2ban \<Rightarrow> ip_addr \<Rightarrow> f2b_record option" where
  "live now f ip = f2b_gc (fb_state f) now (fb_ban_duration f) ip"

lemma retained_earlier: "retained t' d r \<Longrightarrow> t \<le> t' \<Longrightarrow> retained t d r"
  by (auto simp: retained_def split: option.splits)

lemma live_later: "t \<le> t' \<Longrightarrow> live t' f ip = Option.bind (live t f ip) (\<lambda>r. if retained t' (fb_ban_duration f) r then Some r else None)"
  using retained_earlier by (auto simp: live_def f2b_gc_def split: option.splits)

lemma f2b_config [simp]:
  "fb_ban_duration (f2b_apply e f) = fb_ban_duration f" "fb_ban_threshold (f2b_apply e f) = fb_ban_threshold f"
  by (cases "(e, f)" rule: f2b_apply.cases;
      auto simp: f2b_on_auth_exhausted_def f2b_on_authenticated_def f2b_evaluate_def f2b_is_banned_def Let_def
        split: option.splits prod.splits)+

lemma gc_idem: "f2b_gc (f2b_gc m t d) t d = f2b_gc m t d"
  by (rule ext) (simp add: f2b_gc_def split: option.splits)

text \<open>What an operation does to the live record of an address: nothing unless it is its own.\<close>

lemma live_apply_other: "op_ip e \<noteq> ip \<Longrightarrow> live t (f2b_apply (t, e) f) ip = live t f ip"
  by (cases e) (auto simp: live_def f2b_on_auth_exhausted_def f2b_on_authenticated_def f2b_evaluate_def f2b_is_banned_def
      Let_def f2b_gc_def split: option.splits prod.splits)

lemma live_apply_own:
  assumes "op_ip e = ip" and "live t f ip = live t g ip"
    and "fb_ban_duration f = fb_ban_duration g" "fb_ban_threshold f = fb_ban_threshold g"
  shows "live t (f2b_apply (t, e) f) ip = live t (f2b_apply (t, e) g) ip"
proof (cases e)
  case (Exhausted p)
  have "f2b_gc (fb_state f) t (fb_ban_duration g) ip = f2b_gc (fb_state g) t (fb_ban_duration g) ip"
    using assms(2,3) by (simp add: live_def)
  then show ?thesis using assms(1,3,4) Exhausted
    by (simp add: live_def f2b_on_auth_exhausted_def Let_def f2b_gc_def [of "_ ( _ \<mapsto> _)"])
next
  case (LoggedIn p)
  then show ?thesis using assms(1) by (simp add: live_def f2b_on_authenticated_def f2b_gc_def)
next
  case (Evaluated p)
  have "live t (f2b_apply (t, Evaluated p) h) ip = live t h ip" for h
    using assms(1) Evaluated
    by (auto simp: live_def f2b_evaluate_def f2b_is_banned_def f2b_gc_def retained_def split: option.splits)
  then show ?thesis using assms(2) Evaluated by simp
qed

lemma banned_live:
  "fst (f2b_evaluate t p f) = (case live t f (sa_ip p) of Some r \<Rightarrow> if fr_banned_until r = None then Accept else Reject | None \<Rightarrow> Accept)"
  by (auto simp: f2b_evaluate_def f2b_is_banned_def live_def f2b_gc_def retained_def split: option.splits)

abbreviation f2b_run :: "(nat \<times> f2b_op) list \<Rightarrow> fail2ban \<Rightarrow> fail2ban" where
  "f2b_run \<equiv> fold f2b_apply"

lemma live_run_local:
  assumes "sorted (map fst tr @ [now])" and "\<And>e. e \<in> set tr \<Longrightarrow> t0 \<le> fst e" and "t0 \<le> now"
    and "live t0 f ip = live t0 g ip" "fb_ban_duration f = fb_ban_duration g" "fb_ban_threshold f = fb_ban_threshold g"
  shows "live now (f2b_run tr f) ip = live now (f2b_run (filter (\<lambda>e. op_ip (snd e) = ip) tr) g) ip"
  using assms
proof (induction tr arbitrary: f g t0)
  case Nil
  then show ?case using live_later [OF Nil.prems(3), of f ip] live_later [OF Nil.prems(3), of g ip] by simp
next
  case (Cons e tr)
  obtain t a where e: "e = (t, a)" by fastforce
  have t: "t0 \<le> t" "t \<le> now" "\<And>x. x \<in> set tr \<Longrightarrow> t \<le> fst x" "sorted (map fst tr @ [now])"
    using Cons.prems(1) Cons.prems(2) [of e] by (auto simp: e)
  have same: "live t f ip = live t g ip"
    using live_later [OF t(1), of f ip] live_later [OF t(1), of g ip] Cons.prems(4,5) by simp
  let ?g = "if op_ip a = ip then f2b_apply (t, a) g else g"
  have "live t (f2b_apply (t, a) f) ip = live t ?g ip"
    using live_apply_own [OF _ same Cons.prems(5,6)] live_apply_other [of a ip t f] same by simp
  from Cons.IH [OF t(4,3,2) this] Cons.prems(5,6) show ?case by (simp add: e)
qed

text \<open>An address whose only operations are exhausted logins, each within the ban duration of the one before.\<close>

fun close_together :: "nat \<Rightarrow> nat list \<Rightarrow> bool" where
  "close_together d (t # t' # ts) \<longleftrightarrow> t \<le> t' \<and> t' < t + d \<and> close_together d (t' # ts)"
| "close_together d ts \<longleftrightarrow> True"

definition struck :: "nat \<Rightarrow> u32 \<Rightarrow> nat \<Rightarrow> nat \<Rightarrow> f2b_record \<Rightarrow> bool" where
  "struck n thr d t r \<longleftrightarrow> unat (fr_strikes r) = min n (2 ^ 32 - 1) \<and> fr_last_strike r = t \<and>
     fr_banned_until r = (if unat thr \<le> n then Some (t + d) else None)"

lemma unat_u32_max: "unat (w :: u32) \<le> 2 ^ 32 - 1"
proof -
  have "n < 2 ^ 32" if "n \<le> unat w" for n
  proof -
    note that
    also have "unat w < 2 ^ LENGTH(32)" by (rule unsigned_less)
    finally show ?thesis by simp
  qed
  from this [OF order_refl] show ?thesis by linarith
qed

lemma strike_counts:
  fixes k thr :: u32
  assumes "unat k = min n (2 ^ 32 - 1)"
  shows "unat (sat_add k 1) = min (Suc n) (2 ^ 32 - 1)" and "thr \<le> sat_add k 1 \<longleftrightarrow> unat thr \<le> Suc n"
proof -
  show u: "unat (sat_add k 1) = min (Suc n) (2 ^ 32 - 1)" using assms by (simp add: unat_sat_add min_def)
  show "thr \<le> sat_add k 1 \<longleftrightarrow> unat thr \<le> Suc n"
    using u unat_u32_max [of thr] by (simp add: word_le_nat_alt min_def)
qed

lemma strike_again:
  assumes "live t' f (sa_ip p) = Some r" and "struck n (fb_ban_threshold f) (fb_ban_duration f) t r" and "n \<noteq> 0"
  shows "\<exists>r'. fb_state (f2b_on_auth_exhausted t' p f) (sa_ip p) = Some r' \<and>
    struck (Suc n) (fb_ban_threshold f) (fb_ban_duration f) t' r'"
  using assms strike_counts(1) [of "fr_strikes r" n] strike_counts(2) [of "fr_strikes r" n "fb_ban_threshold f"]
  by (auto simp: live_def f2b_on_auth_exhausted_def Let_def struck_def)

lemma strike_first:
  assumes "live t f (sa_ip p) = None"
  shows "\<exists>r'. fb_state (f2b_on_auth_exhausted t p f) (sa_ip p) = Some r' \<and>
    struck 1 (fb_ban_threshold f) (fb_ban_duration f) t r'"
  using assms strike_counts(1) [of 0 0] strike_counts(2) [of 0 0 "fb_ban_threshold f"]
  by (auto simp: live_def f2b_on_auth_exhausted_def Let_def struck_def)

lemma close_together_snoc:
  "xs \<noteq> [] \<Longrightarrow> close_together d (xs @ [t]) \<longleftrightarrow> close_together d xs \<and> last xs \<le> t \<and> t < last xs + d"
  by (induction d xs rule: close_together.induct) auto

lemma strikes_run:
  assumes "fb_state f ip = None"
  shows "ops \<noteq> [] \<Longrightarrow> \<forall>e\<in>set ops. \<exists>p. snd e = Exhausted p \<and> sa_ip p = ip \<Longrightarrow>
    close_together (fb_ban_duration f) (map fst ops) \<Longrightarrow>
    \<exists>r. fb_state (f2b_run ops f) ip = Some r \<and>
      struck (length ops) (fb_ban_threshold f) (fb_ban_duration f) (last (map fst ops)) r"
proof (induction ops rule: rev_induct)
  case (snoc e xs)
  obtain t p where e: "e = (t, Exhausted p)" "sa_ip p = ip" using snoc.prems(2) by (cases e) auto
  have cfg: "fb_ban_duration (f2b_run ys f) = fb_ban_duration f" "fb_ban_threshold (f2b_run ys f) = fb_ban_threshold f" for ys
    by (induction ys rule: rev_induct) simp_all
  show ?case
  proof (cases "xs = []")
    case True
    then show ?thesis using strike_first [of t f p] assms e by (simp add: live_def f2b_gc_def)
  next
    case False
    have c: "close_together (fb_ban_duration f) (map fst xs)" "last (map fst xs) \<le> t" "t < last (map fst xs) + fb_ban_duration f"
      using snoc.prems(3) False e close_together_snoc [of "map fst xs" "fb_ban_duration f" t] by simp_all
    obtain r where r: "fb_state (f2b_run xs f) ip = Some r"
      "struck (length xs) (fb_ban_threshold f) (fb_ban_duration f) (last (map fst xs)) r"
      using snoc.IH [OF False _ c(1)] snoc.prems(2) by auto
    then have "live t (f2b_run xs f) (sa_ip p) = Some r"
      using c(2,3) e(2) by (auto simp: live_def f2b_gc_def retained_def struck_def cfg)
    from strike_again [OF this] r(2) False show ?thesis by (simp add: cfg e)
  qed
qed simp

section \<open>Properties\<close>

text \<open>What refusing leaves behind: an address that is turned away at the global cap keeps an entry of zero.\<close>

lemma refused_entry_stays:
  assumes "cl_per_ip_max l = Some mx" and "cl_per_ip l ip = None" and "0 < mx" and "sem_try_acquire Q (cl_global l) = None"
  shows "try_admit Q ip l = (None, l\<lparr>cl_per_ip := (cl_per_ip l)(ip \<mapsto> 0)\<rparr>)"
  using assms by (simp add: try_admit_def)



end
