(* ===== verification/Serve.thy ===== *)
theory Serve
  imports Server_Auth Exec Admission
begin

text \<open>
  Serving a connection (\<^verbatim>\<open>crates/ssh-io/src/serve.rs\<close>) through the socket driver (\<^verbatim>\<open>lib.rs\<close>): the loop that carries bytes
  between the socket, the server session and the command handler. One turn of
  the loop is a function of what the runtime delivers (which branch of \<^verbatim>\<open>select!\<close> fires, what the socket returns, what
  arrives from the handler), so every interleaving is a sequence of turns. What the loop does outside the session is
  recorded in the log. An optional sender, receiver or guard is whether it is there; the time at which a timer fires
  is up to the runtime, as far as the branch conditions allow.
\<close>

section \<open>Control flow of the loop\<close>

datatype io_kind = ConnectionReset | ConnectionAborted | BrokenPipe | UnexpectedEof | OtherIo

datatype drive_error = DriveIo io_kind | DriveProtocol ssh_error | DriveUnexpectedEof

definition is_disconnect :: "io_kind \<Rightarrow> bool" where
  "is_disconnect e = (e \<in> {ConnectionReset, ConnectionAborted, BrokenPipe, UnexpectedEof})"

text \<open>A turn goes on with a value, or the loop ends: with \<^verbatim>\<open>Ok(())\<close>, with an error, or by a panic.\<close>

datatype exit = Served | Failed drive_error | Panicked string

datatype ('a, 's) flow = Go 'a 's | Stop exit 's

definition thenGo :: "('a, 's) flow \<Rightarrow> ('a \<Rightarrow> 's \<Rightarrow> ('b, 's) flow) \<Rightarrow> ('b, 's) flow" where
  "thenGo m k = (case m of Go a s \<Rightarrow> k a s | Stop e s \<Rightarrow> Stop e s)"

section \<open>The state of the loop\<close>

record serve_config =
  cfg_login_timeout :: nat
  cfg_idle_timeout :: "nat option"
  cfg_max_buffered_output :: nat

definition serve_config_default :: serve_config where
  "serve_config_default =
     \<lparr>cfg_login_timeout = 30 * 10 ^ 9, cfg_idle_timeout = Some (120 * 10 ^ 9), cfg_max_buffered_output = 256 * 1024\<rparr>"

definition out_limit :: "serve_config \<Rightarrow> nat" where
  "out_limit config = max (cfg_max_buffered_output config) MAX_RESERVE"

datatype 'k action =
    Wrote bytes
  | Spawned 'k bytes "pty_info option"
  | CloseBudget
  | AbortTask
  | DropStdin
  | AddPermits nat
  | ToStdin bytes
  | ResizeTo u16 u16
  | OnAuthenticated socket_addr
  | OnAuthExhausted socket_addr

record ('r, 'z, 'h, 'k) serving =
  sv_session :: "('r, 'z, 'h) server"
  sv_stdin_tx :: bool
  sv_active_channel :: u32
  sv_out_budget :: bool
  sv_out_inflight :: nat
  sv_consumed_rx :: bool
  sv_last_consumed :: u64
  sv_resize_tx :: bool
  sv_handler_task :: bool
  sv_authenticated :: bool
  sv_log :: "'k action list"

definition serving_new :: "('r, 'z, 'h) server \<Rightarrow> ('r, 'z, 'h, 'k) serving" where
  "serving_new connection =
     \<lparr>sv_session = connection, sv_stdin_tx = False, sv_active_channel = 0, sv_out_budget = False, sv_out_inflight = 0,
      sv_consumed_rx = False, sv_last_consumed = 0, sv_resize_tx = False, sv_handler_task = False,
      sv_authenticated = False, sv_log = []\<rparr>"

definition act :: "'k action \<Rightarrow> ('r, 'z, 'h, 'k) serving \<Rightarrow> ('r, 'z, 'h, 'k) serving" where
  "act a s = s\<lparr>sv_log := sv_log s @ [a]\<rparr>"

definition act_if :: "bool \<Rightarrow> 'k action \<Rightarrow> ('r, 'z, 'h, 'k) serving \<Rightarrow> ('r, 'z, 'h, 'k) serving" where
  "act_if c a s = (if c then act a s else s)"

text \<open>A call on the session, with the \<^verbatim>\<open>?\<close> that turns its error into the loop's.\<close>

definition on_session ::
    "(('r, 'z, 'h) server \<Rightarrow> (('r, 'z, 'h) server, 'a) outcome) \<Rightarrow> ('r, 'z, 'h, 'k) serving \<Rightarrow>
     ('a, ('r, 'z, 'h, 'k) serving) flow" where
  "on_session f s =
     (case f (sv_session s) of
        (Ok x, t) \<Rightarrow> Go x (s\<lparr>sv_session := t\<rparr>)
      | (Err e, t) \<Rightarrow> Stop (Failed (DriveProtocol e)) (s\<lparr>sv_session := t\<rparr>)
      | (Crash m, t) \<Rightarrow> Stop (Panicked m) (s\<lparr>sv_session := t\<rparr>))"

section \<open>The driver\<close>

text \<open>\<^verbatim>\<open>flush\<close>: write what is queued, then clear it. The result of the write is an argument.\<close>

definition driver_flush ::
    "io_kind option \<Rightarrow> ('r, 'z, 'h, 'k) serving \<Rightarrow> (unit, ('r, 'z, 'h, 'k) serving) flow" where
  "driver_flush failure s =
     (let out = t_tx (s_transport (sv_session s)) in
      if out \<noteq> [] then
        case failure of
          Some e \<Rightarrow> Stop (Failed (DriveIo e)) s
        | None \<Rightarrow> Go () ((act (Wrote out) s)\<lparr>sv_session := server_clear_output (sv_session s)\<rparr>)
      else Go () s)"

datatype socket_read = ReadOk bytes | ReadErr io_kind

definition driver_read_once ::
    "('r, 'z) prims \<Rightarrow> 'h auth_handler \<Rightarrow> socket_read \<Rightarrow> ('r, 'z, 'h, 'k) serving \<Rightarrow>
     (bool, ('r, 'z, 'h, 'k) serving) flow" where
  "driver_read_once P H read s =
     (case read of
        ReadErr e \<Rightarrow> if is_disconnect e then Go False s else Stop (Failed (DriveIo e)) s
      | ReadOk data \<Rightarrow>
          if data = [] then Go False s
          else thenGo (on_session (server_on_input P H data) s) (\<lambda>_ s. Go True s))"

section \<open>Handlers\<close>

definition spawn_handler ::
    "'k \<Rightarrow> bytes \<Rightarrow> pty_info option \<Rightarrow> ('r, 'z, 'h, 'k) serving \<Rightarrow> ('r, 'z, 'h, 'k) serving" where
  "spawn_handler handler command pty s = act (Spawned handler command pty) s"

definition wire_handler :: "('r, 'z, 'h, 'k) serving \<Rightarrow> ('r, 'z, 'h, 'k) serving" where
  "wire_handler s =
     (let s = act_if (sv_out_budget s) CloseBudget s;
          s = act_if (sv_handler_task s) AbortTask s;
          s = act_if (sv_stdin_tx s) DropStdin s
      in s\<lparr>sv_stdin_tx := True, sv_out_budget := True, sv_consumed_rx := True, sv_resize_tx := True,
           sv_handler_task := True\<rparr>)"

text \<open>The three requests have the same shape: with a handler, accept the channel, spawn and adopt it; without,
  reject.\<close>

definition start_handler ::
    "('r, 'z) prims \<Rightarrow> 'k option \<Rightarrow> u32 \<Rightarrow> bytes \<Rightarrow> ('r, 'z, 'h, 'k) serving \<Rightarrow>
     (unit, ('r, 'z, 'h, 'k) serving) flow" where
  "start_handler P handler channel command s =
     (case handler of
        Some h \<Rightarrow>
          thenGo (on_session (server_accept_channel P channel) s) (\<lambda>_ s.
          let pty = server_channel_pty channel (sv_session s);
              s = wire_handler (spawn_handler h command pty s)
          in Go () (s\<lparr>sv_active_channel := channel, sv_out_inflight := 0, sv_last_consumed := 0\<rparr>))
      | None \<Rightarrow> on_session (server_reject_channel P channel) s)"

section \<open>Events of the session\<close>

definition serve_event ::
    "('r, 'z) prims \<Rightarrow> 'k exec_context \<Rightarrow> socket_addr option \<Rightarrow> io_kind option \<Rightarrow> server_event \<Rightarrow>
     ('r, 'z, 'h, 'k) serving \<Rightarrow> (unit, ('r, 'z, 'h, 'k) serving) flow" where
  "serve_event P ctx peer failure e s =
     (case e of
        Authenticated _ \<Rightarrow>
          let s = s\<lparr>sv_authenticated := True\<rparr>
          in Go () (case peer of Some p \<Rightarrow> act (OnAuthenticated p) s | None \<Rightarrow> s)
      | AuthExhausted \<Rightarrow>
          let s = (case peer of Some p \<Rightarrow> act (OnAuthExhausted p) s | None \<Rightarrow> s)
          in thenGo (driver_flush failure s) (\<lambda>_ s. Stop Served s)
      | ExecRequest channel command \<Rightarrow> start_handler P (exec_handler command ctx) channel command s
      | ShellRequest channel \<Rightarrow> start_handler P (shell_handler ctx) channel [] s
      | SubsystemRequest channel name \<Rightarrow> start_handler P (subsystem_handler name ctx) channel name s
      | WindowChange _ cols rows \<Rightarrow> Go () (act_if (sv_resize_tx s) (ResizeTo cols rows) s)
      | SrvChannelData _ data \<Rightarrow> Go () (act_if (data \<noteq> [] \<and> sv_stdin_tx s) (ToStdin data) s)
      | SrvChannelEof _ \<Rightarrow> Go () ((act_if (sv_stdin_tx s) DropStdin s)\<lparr>sv_stdin_tx := False\<rparr>)
      | SrvChannelClose _ \<Rightarrow>
          let s = (act_if (sv_stdin_tx s) DropStdin s)\<lparr>sv_stdin_tx := False, sv_resize_tx := False\<rparr>;
              s = (act_if (sv_out_budget s) CloseBudget s)\<lparr>sv_out_budget := False\<rparr>
          in Go () ((act_if (sv_handler_task s) AbortTask s)\<lparr>sv_handler_task := False\<rparr>)
      | SrvDisconnect _ _ \<Rightarrow> Stop Served s)"

text \<open>No event handler reports a session event, so the loop over them ends.\<close>

definition pending :: "('a, ('r, 'z, 'h, 'k) serving) flow \<Rightarrow> server_event list" where
  "pending f = (case f of Go _ s \<Rightarrow> s_events (sv_session s) | Stop _ s \<Rightarrow> s_events (sv_session s))"

lemma s_via_events [simp]: "s_events (snd (s_via f s)) = s_events s"
  by (simp add: s_via_def on_field_def split_def Let_def)

lemma server_reply_events: "s_events (snd (server_reply P w b s)) = s_events s"
  by (simp add: server_reply_def Let_def)

lemma on_session_events:
  "(\<And>t. s_events (snd (f t)) = s_events t) \<Longrightarrow> pending (on_session f s) = s_events (sv_session s)"
proof -
  assume f: "\<And>t. s_events (snd (f t)) = s_events t"
  obtain r t where "f (sv_session s) = (r, t)" by fastforce
  then show ?thesis using f [of "sv_session s"] by (cases r) (simp_all add: pending_def on_session_def)
qed

lemma act_simps [simp]:
  "sv_session (act a s) = sv_session s" "sv_session (act_if c a s) = sv_session s"
  by (simp_all add: act_def act_if_def)

lemma wire_handler_session [simp]: "sv_session (wire_handler s) = sv_session s"
  by (simp add: wire_handler_def Let_def)

lemma spawn_handler_session [simp]: "sv_session (spawn_handler h c p s) = sv_session s"
  by (simp add: spawn_handler_def)

lemma start_handler_events: "pending (start_handler P h ch c s) = s_events (sv_session s)"
proof (cases h)
  case None
  then show ?thesis
    by (simp add: start_handler_def on_session_events server_reject_channel_def server_reply_events)
next
  case (Some k)
  have "pending (on_session (server_accept_channel P ch) s) = s_events (sv_session s)"
    by (rule on_session_events) (simp add: server_accept_channel_def server_reply_events)
  then show ?thesis using Some
    by (cases "on_session (server_accept_channel P ch) s") (simp_all add: start_handler_def thenGo_def pending_def Let_def)
qed

lemma start_handler_Go:
  "start_handler P h ch c s = Go u s' \<Longrightarrow> s_events (sv_session s') = s_events (sv_session s)"
  using start_handler_events [of P h ch c s] by (simp add: pending_def)

lemma serve_event_events:
  "serve_event P ctx peer failure e s = Go u s' \<Longrightarrow> s_events (sv_session s') = s_events (sv_session s)"
  by (cases e) (auto simp: serve_event_def Let_def thenGo_def dest: start_handler_Go split: option.splits flow.splits)

function serve_events ::
    "('r, 'z) prims \<Rightarrow> 'k exec_context \<Rightarrow> socket_addr option \<Rightarrow> io_kind option \<Rightarrow>
     ('r, 'z, 'h, 'k) serving \<Rightarrow> (unit, ('r, 'z, 'h, 'k) serving) flow" where
  "serve_events P ctx peer failure s =
     (case server_poll_event (sv_session s) of
        (None, t) \<Rightarrow> Go () (s\<lparr>sv_session := t\<rparr>)
      | (Some e, t) \<Rightarrow>
          (case serve_event P ctx peer failure e (s\<lparr>sv_session := t\<rparr>) of
             Go _ s \<Rightarrow> serve_events P ctx peer failure s
           | Stop x s \<Rightarrow> Stop x s))"
  by pat_completeness auto
termination
proof (relation "measure (\<lambda>(P, ctx, peer, failure, s). length (s_events (sv_session s)))", simp, clarify)
  fix P ctx peer failure s e t u s'
  assume p: "(Some e, t) = server_poll_event (sv_session s)"
    and e: "serve_event P ctx peer failure e (s\<lparr>sv_session := t\<rparr>) = Go u s'"
  have "s_events (sv_session s') = s_events t" using serve_event_events [OF e] by simp
  then show "((P, ctx, peer, failure, s'), (P, ctx, peer, failure, s)) \<in>
      measure (\<lambda>(P, ctx, peer, failure, s). length (s_events (sv_session s)))"
    using p by (auto simp: server_poll_event_def split: list.splits)
qed

declare serve_events.simps [simp del]

section \<open>One turn of the loop\<close>

text \<open>What reached the wire frees budget.\<close>

definition release_flushed :: "('r, 'z, 'h, 'k) serving \<Rightarrow> ('r, 'z, 'h, 'k) serving" where
  "release_flushed s =
     (if sv_out_budget s then
        let (flushed, t) = server_take_flushed_output (sv_active_channel s) (sv_session s);
            s = s\<lparr>sv_session := t\<rparr>;
            credit = min (unat flushed) (sv_out_inflight s)
        in if credit > 0 then act (AddPermits credit) (s\<lparr>sv_out_inflight := sv_out_inflight s - credit\<rparr>) else s
      else s)"

text \<open>The branches of the two \<^verbatim>\<open>select!\<close>s, with their conditions.\<close>

datatype flush_branch = Flushed "io_kind option" | FlushLogin | FlushIdle

datatype branch = LoginTimer | IdleTimer | Consumed bool u64 | Read socket_read | Out outbound

definition flush_enabled :: "serve_config \<Rightarrow> flush_branch \<Rightarrow> ('r, 'z, 'h, 'k) serving \<Rightarrow> bool" where
  "flush_enabled config fb s =
     (case fb of
        Flushed _ \<Rightarrow> True
      | FlushLogin \<Rightarrow> \<not> sv_authenticated s
      | FlushIdle \<Rightarrow> cfg_idle_timeout config \<noteq> None)"

definition branch_enabled :: "serve_config \<Rightarrow> branch \<Rightarrow> ('r, 'z, 'h, 'k) serving \<Rightarrow> bool" where
  "branch_enabled config br s =
     (case br of
        LoginTimer \<Rightarrow> \<not> sv_authenticated s
      | IdleTimer \<Rightarrow> cfg_idle_timeout config \<noteq> None
      | Consumed _ _ \<Rightarrow> sv_consumed_rx s
      | _ \<Rightarrow> True)"

text \<open>\<^verbatim>\<open>u32::try_from(delta).unwrap_or(u32::MAX)\<close>.\<close>

definition clamp_u32 :: "u64 \<Rightarrow> u32" where
  "clamp_u32 n = (if n \<le> 0xFFFFFFFF then ucast n else 0xFFFFFFFF)"

definition serve_consumed ::
    "('r, 'z) prims \<Rightarrow> bool \<Rightarrow> u64 \<Rightarrow> ('r, 'z, 'h, 'k) serving \<Rightarrow> (unit, ('r, 'z, 'h, 'k) serving) flow" where
  "serve_consumed P alive bytes_read s =
     (let delta = (if bytes_read > sv_last_consumed s then bytes_read - sv_last_consumed s else 0);
          s = s\<lparr>sv_last_consumed := bytes_read\<rparr>
      in
      thenGo (if delta > 0 then on_session (server_channel_consumed P (sv_active_channel s) (clamp_u32 delta)) s
              else Go () s) (\<lambda>_ s.
      Go () (if alive then s else s\<lparr>sv_consumed_rx := False\<rparr>)))"

definition serve_read ::
    "('r, 'z) prims \<Rightarrow> 'h auth_handler \<Rightarrow> 'k exec_context \<Rightarrow> socket_addr option \<Rightarrow> io_kind option \<Rightarrow> socket_read \<Rightarrow>
     ('r, 'z, 'h, 'k) serving \<Rightarrow> (unit, ('r, 'z, 'h, 'k) serving) flow" where
  "serve_read P H ctx peer failure read s =
     thenGo (driver_read_once P H read s) (\<lambda>alive s.
     if \<not> alive then Stop Served s
     else
       thenGo (serve_events P ctx peer failure s) (\<lambda>_ s.
       if server_is_closing (sv_session s)
       then thenGo (driver_flush failure s) (\<lambda>_ s. Stop Served s)
       else Go () s))"

definition serve_out ::
    "('r, 'z) prims \<Rightarrow> outbound \<Rightarrow> ('r, 'z, 'h, 'k) serving \<Rightarrow> (unit, ('r, 'z, 'h, 'k) serving) flow" where
  "serve_out P out s =
     (case out of
        Stdout data \<Rightarrow>
          on_session (server_channel_stdout P (sv_active_channel s) data)
            (s\<lparr>sv_out_inflight := sv_out_inflight s + length data\<rparr>)
      | Stderr data \<Rightarrow>
          on_session (server_channel_stderr P (sv_active_channel s) data)
            (s\<lparr>sv_out_inflight := sv_out_inflight s + length data\<rparr>)
      | Exit status \<Rightarrow> on_session (server_channel_exit P (sv_active_channel s) status) s)"

definition serve_turn ::
    "('r, 'z) prims \<Rightarrow> 'h auth_handler \<Rightarrow> 'k exec_context \<Rightarrow> socket_addr option \<Rightarrow> flush_branch \<Rightarrow> branch \<Rightarrow>
     io_kind option \<Rightarrow> ('r, 'z, 'h, 'k) serving \<Rightarrow> (unit, ('r, 'z, 'h, 'k) serving) flow" where
  "serve_turn P H ctx peer fb br failure s =
     (case fb of
        FlushLogin \<Rightarrow> Stop Served s
      | FlushIdle \<Rightarrow> Stop Served s
      | Flushed f \<Rightarrow>
          thenGo (driver_flush f s) (\<lambda>_ s.
          let s = release_flushed s in
          case br of
            LoginTimer \<Rightarrow> Stop Served s
          | IdleTimer \<Rightarrow> Stop Served s
          | Consumed alive bytes_read \<Rightarrow> serve_consumed P alive bytes_read s
          | Read read \<Rightarrow> serve_read P H ctx peer failure read s
          | Out out \<Rightarrow> serve_out P out s))"

text \<open>What the loop still holds is dropped when it returns: the task is aborted, the budget closed, the handler's
  stdin ended.\<close>

definition serve_return :: "('r, 'z, 'h, 'k) serving \<Rightarrow> ('r, 'z, 'h, 'k) serving" where
  "serve_return s =
     (let s = (act_if (sv_handler_task s) AbortTask s)\<lparr>sv_handler_task := False\<rparr>;
          s = s\<lparr>sv_resize_tx := False, sv_consumed_rx := False\<rparr>;
          s = (act_if (sv_out_budget s) CloseBudget s)\<lparr>sv_out_budget := False\<rparr>
      in (act_if (sv_stdin_tx s) DropStdin s)\<lparr>sv_stdin_tx := False\<rparr>)"

text \<open>The loop, on what the runtime delivers turn by turn: the branches that fire, and how the writes end. A branch
  whose condition is off does not fire.\<close>

fun serve_loop ::
    "('r, 'z) prims \<Rightarrow> 'h auth_handler \<Rightarrow> 'k exec_context \<Rightarrow> serve_config \<Rightarrow> socket_addr option \<Rightarrow>
     (flush_branch \<times> branch \<times> io_kind option) list \<Rightarrow> ('r, 'z, 'h, 'k) serving \<Rightarrow>
     (unit, ('r, 'z, 'h, 'k) serving) flow" where
  "serve_loop P H ctx config peer [] s = Go () s"
| "serve_loop P H ctx config peer ((fb, br, failure) # turns) s =
     (if flush_enabled config fb s \<and> branch_enabled config br s then
        case serve_turn P H ctx peer fb br failure s of
          Go _ s \<Rightarrow> serve_loop P H ctx config peer turns s
        | Stop e s \<Rightarrow> Stop e (serve_return s)
      else serve_loop P H ctx config peer turns s)"

definition serve_with ::
    "('r, 'z) prims \<Rightarrow> 'h auth_handler \<Rightarrow> ('r, 'z, 'h) server \<Rightarrow> 'k exec_context \<Rightarrow> serve_config \<Rightarrow> socket_addr option \<Rightarrow>
     (flush_branch \<times> branch \<times> io_kind option) list \<Rightarrow> (unit, ('r, 'z, 'h, 'k) serving) flow" where
  "serve_with P H connection ctx config peer turns = serve_loop P H ctx config peer turns (serving_new connection)"

definition serve ::
    "('r, 'z) prims \<Rightarrow> 'h auth_handler \<Rightarrow> ('r, 'z, 'h) server \<Rightarrow> 'k exec_context \<Rightarrow>
     (flush_branch \<times> branch \<times> io_kind option) list \<Rightarrow> (unit, ('r, 'z, 'h, 'k) serving) flow" where
  "serve P H connection ctx turns = serve_with P H connection ctx serve_config_default None turns"

end
