(* ===== verification/Serve_Safety.thy ===== *)
theory Serve_Safety
  imports Serve
begin

text \<open>
  What the serving loop keeps, whatever the runtime delivers: its session keeps the invariant of the server, so
  no turn panics; and a handler runs only for an authenticated user and only if the context has it registered for
  the request.
\<close>

section \<open>Rules for the flow of a turn\<close>

text \<open>What holds where a piece of the loop leaves off: a predicate of the state, and one of the way it ended, if it did.\<close>

definition flow_holds :: "(exit \<Rightarrow> bool) \<Rightarrow> ('s \<Rightarrow> bool) \<Rightarrow> ('a, 's) flow \<Rightarrow> bool" where
  "flow_holds K J f = (case f of Go _ s \<Rightarrow> J s | Stop e s \<Rightarrow> J s \<and> K e)"

lemma flow_Go [simp]: "flow_holds K J (Go a s) \<longleftrightarrow> J s"
  by (simp add: flow_holds_def)

lemma flow_Stop [simp]: "flow_holds K J (Stop e s) \<longleftrightarrow> J s \<and> K e"
  by (simp add: flow_holds_def)

lemma flow_thenGo:
  "flow_holds K J m \<Longrightarrow> (\<And>a s. m = Go a s \<Longrightarrow> J s \<Longrightarrow> flow_holds K J (k a s)) \<Longrightarrow> flow_holds K J (thenGo m k)"
  by (cases m) (simp_all add: thenGo_def)

text \<open>A call on the session keeps what its steps keep, and does not panic where the call does not.\<close>

lemma flow_on_session:
  assumes "\<And>e. K (Failed e)" and "\<And>m. fst (f (sv_session s)) = Crash m \<Longrightarrow> K (Panicked m)"
    and "J (s\<lparr>sv_session := snd (f (sv_session s))\<rparr>)"
  shows "flow_holds K J (on_session f s)"
proof -
  obtain r t where "f (sv_session s) = (r, t)" by fastforce
  then show ?thesis using assms by (cases r) (auto simp: on_session_def)
qed

text \<open>What every invariant of the loop shares: kept by the calls on the session, by each event and by the driver's
  flush, it is kept by a turn, and by the loop.\<close>

locale serving_keeps =
  fixes K :: "exit \<Rightarrow> bool" and J :: "('r, 'z, 'h, 'k) serving \<Rightarrow> bool"
    and P :: "('r, 'z) prims" and H :: "'h auth_handler" and ctx :: "'k exec_context" and peer :: "socket_addr option"
  assumes exits: "K Served" "K (Failed err)"
    and on_flush: "J s \<Longrightarrow> J ((act (Wrote out) s)\<lparr>sv_session := server_clear_output (sv_session s)\<rparr>)"
    and on_release: "J s \<Longrightarrow> J (release_flushed s)"
    and on_input: "J s \<Longrightarrow> flow_holds K J (on_session (server_on_input P H data) s)"
    and on_consumed: "J s \<Longrightarrow> flow_holds K J (on_session (server_channel_consumed P ch n) s)"
    and on_event: "J s \<Longrightarrow> s_events (sv_session s) = e # es \<Longrightarrow>
      flow_holds K J (serve_event P ctx peer failure e (s\<lparr>sv_session := (sv_session s)\<lparr>s_events := es\<rparr>\<rparr>))"
    and on_last: "J s \<Longrightarrow> J (s\<lparr>sv_last_consumed := m\<rparr>)"
    and on_deaf: "J s \<Longrightarrow> J (s\<lparr>sv_consumed_rx := b\<rparr>)"
    and on_return: "J s \<Longrightarrow> J (serve_return s)"
begin

lemma keep_flush: "J s \<Longrightarrow> flow_holds K J (driver_flush failure s)"
  using on_flush exits by (auto simp: driver_flush_def Let_def split: option.split)

lemma keep_events: "J s \<Longrightarrow> flow_holds K J (serve_events P ctx peer failure s)"
proof (induction "length (s_events (sv_session s))" arbitrary: s rule: less_induct)
  case less
  show ?case
  proof (cases "s_events (sv_session s)")
    case Nil
    then show ?thesis using less.prems by (subst serve_events.simps) (simp add: server_poll_event_def)
  next
    case (Cons e es)
    let ?f = "serve_event P ctx peer failure e (s\<lparr>sv_session := (sv_session s)\<lparr>s_events := es\<rparr>\<rparr>)"
    have f: "flow_holds K J ?f" by (rule on_event [OF less.prems Cons])
    show ?thesis
    proof (cases ?f)
      case (Go u s')
      have "length (s_events (sv_session s')) < length (s_events (sv_session s))"
        using serve_event_events [OF Go] Cons by simp
      with less.hyps f Go have "flow_holds K J (serve_events P ctx peer failure s')" by simp
      then show ?thesis using Cons Go by (subst serve_events.simps) (simp add: server_poll_event_def)
    next
      case (Stop x s')
      then show ?thesis using Cons f by (subst serve_events.simps) (simp add: server_poll_event_def)
    qed
  qed
qed

lemma keep_consumed: "J s \<Longrightarrow> flow_holds K J (serve_consumed P alive n s)"
  unfolding serve_consumed_def Let_def
  by (rule flow_thenGo) (auto intro: on_consumed on_last on_deaf)

lemma keep_read: "J s \<Longrightarrow> flow_holds K J (serve_read P H ctx peer failure got s)"
proof -
  assume J: "J s"
  have "flow_holds K J (driver_read_once P H got s)"
    using J exits by (auto simp: driver_read_once_def intro!: flow_thenGo on_input split: socket_read.split)
  then show ?thesis unfolding serve_read_def
    by (rule flow_thenGo)
      (use exits in \<open>auto intro!: flow_thenGo keep_events keep_flush\<close>)
qed

lemma keep_turn:
  assumes "J s" and out: "\<And>out s. br = Out out \<Longrightarrow> J s \<Longrightarrow> flow_holds K J (serve_out P out s)"
  shows "flow_holds K J (serve_turn P H ctx peer fb br failure s)"
proof (cases fb)
  case (Flushed f)
  show ?thesis unfolding serve_turn_def Flushed flush_branch.case Let_def
    by (rule flow_thenGo [OF keep_flush [OF assms(1)]])
      (use exits on_release in \<open>auto intro!: keep_consumed keep_read out split: branch.split\<close>)
qed (use assms(1) exits in \<open>simp_all add: serve_turn_def\<close>)

end

locale serving_loop = serving_keeps K J P H ctx peer
  for K :: "exit \<Rightarrow> bool" and J :: "('r, 'z, 'h, 'k) serving \<Rightarrow> bool"
    and P :: "('r, 'z) prims" and H :: "'h auth_handler" and ctx :: "'k exec_context" and peer :: "socket_addr option" +
  assumes on_out: "J s \<Longrightarrow> flow_holds K J (serve_out P out s)"
begin

lemma keep_loop: "J s \<Longrightarrow> flow_holds K J (serve_loop P H ctx config peer turns s)"
proof (induction turns arbitrary: s)
  case (Cons turn turns)
  obtain fb br failure where "turn = (fb, br, failure)" by (cases turn)
  moreover have "flow_holds K J (serve_turn P H ctx peer fb br failure s)"
    by (rule keep_turn [OF Cons.prems]) (use on_out in auto)
  ultimately show ?case using Cons on_return by (auto split: flow.split)
qed simp

lemma keep_serve:
  "J (serving_new connection) \<Longrightarrow> flow_holds K J (serve_with P H connection ctx config peer turns)"
  unfolding serve_with_def by (rule keep_loop)

end

section \<open>The session of the loop keeps the invariant of the server\<close>

text \<open>A login is for good.\<close>

definition logged_in :: "('r, 'z, 'h) server \<Rightarrow> bool" where
  "logged_in s \<longleftrightarrow> s_authenticated s \<noteq> None"

interpretation login: session_keeps logged_in H for H
  by unfold_locales (auto simp: logged_in_def s_push_def)

interpretation login_calls: server_invariant logged_in P H for P H
proof unfold_locales
  fix s :: "('a, 'b, 'c) server" and data
  assume s: "logged_in s"
  have "keeps logged_in (server_pump P H t)" if "logged_in t" for t
    by (rule server_pump_keeps [OF login.keep_handle_event _ that]) (simp_all add: logged_in_def)
  moreover have "keeps logged_in (s_via (on_input P data) s)"
    using s by (simp add: keeps_def logged_in_def s_via_def on_field_def split_def Let_def)
  ultimately show "keeps logged_in (server_on_input P H data s)"
    unfolding server_on_input_def by (intro keep_intros)
qed (auto simp: logged_in_def)

section \<open>Handlers run for authenticated users, as registered\<close>

text \<open>The session keeps the invariant of the server, and nothing was spawned but for a user and from the context.\<close>

definition registered :: "'k exec_context \<Rightarrow> 'k \<Rightarrow> bytes \<Rightarrow> bool" where
  "registered ctx h command \<longleftrightarrow> exec_handler command ctx = Some h \<or> subsystem_handler command ctx = Some h \<or>
     command = [] \<and> shell_handler ctx = Some h"

definition serving_ok ::
    "('r, 'z) prims \<Rightarrow> 'h auth_handler \<Rightarrow> 'k exec_context \<Rightarrow> ('r, 'z, 'h, 'k) serving \<Rightarrow> bool" where
  "serving_ok P H ctx s \<longleftrightarrow> prims_safe P \<and> handler_ok H \<and> server_wf P (sv_session s) \<and>
     (\<forall>h command pty. Spawned h command pty \<in> set (sv_log s) \<longrightarrow> logged_in (sv_session s) \<and> registered ctx h command)"

definition no_panic :: "exit \<Rightarrow> bool" where
  "no_panic e \<longleftrightarrow> (\<forall>m. e \<noteq> Panicked m)"

lemma no_panic_simps [simp]: "no_panic Served" "no_panic (Failed e)" "\<not> no_panic (Panicked m)"
  by (simp_all add: no_panic_def)

lemma serving_ok_step:
  assumes "serving_ok P H ctx s" and "server_step P H (sv_session s) t"
  shows "serving_ok P H ctx (s\<lparr>sv_session := t\<rparr>)"
  using assms server_wf_step [OF _ _ assms(2)] login_calls.keep_server_step [OF assms(2)] by (auto simp: serving_ok_def)

lemma serving_ok_act: "serving_ok P H ctx s \<Longrightarrow> (\<And>h c p. a \<noteq> Spawned h c p) \<Longrightarrow> serving_ok P H ctx (act a s)"
  unfolding serving_ok_def act_def by simp metis

lemma serving_ok_act_if: "serving_ok P H ctx s \<Longrightarrow> (\<And>h c p. a \<noteq> Spawned h c p) \<Longrightarrow> serving_ok P H ctx (act_if b a s)"
  by (simp add: act_if_def serving_ok_act)

lemma serving_ok_locals [simp]:
  "serving_ok P H ctx (s\<lparr>sv_stdin_tx := b\<rparr>) \<longleftrightarrow> serving_ok P H ctx s"
  "serving_ok P H ctx (s\<lparr>sv_active_channel := c\<rparr>) \<longleftrightarrow> serving_ok P H ctx s"
  "serving_ok P H ctx (s\<lparr>sv_out_budget := b\<rparr>) \<longleftrightarrow> serving_ok P H ctx s"
  "serving_ok P H ctx (s\<lparr>sv_out_inflight := n\<rparr>) \<longleftrightarrow> serving_ok P H ctx s"
  "serving_ok P H ctx (s\<lparr>sv_consumed_rx := b\<rparr>) \<longleftrightarrow> serving_ok P H ctx s"
  "serving_ok P H ctx (s\<lparr>sv_last_consumed := m\<rparr>) \<longleftrightarrow> serving_ok P H ctx s"
  "serving_ok P H ctx (s\<lparr>sv_resize_tx := b\<rparr>) \<longleftrightarrow> serving_ok P H ctx s"
  "serving_ok P H ctx (s\<lparr>sv_handler_task := b\<rparr>) \<longleftrightarrow> serving_ok P H ctx s"
  "serving_ok P H ctx (s\<lparr>sv_authenticated := b\<rparr>) \<longleftrightarrow> serving_ok P H ctx s"
  by (simp_all add: serving_ok_def)

lemma session_flow:
  assumes s: "serving_ok P H ctx s" and st: "server_step P H (sv_session s) (snd (f (sv_session s)))"
    and "holds (server_wf P) (f (sv_session s))"
  shows "flow_holds no_panic (serving_ok P H ctx) (on_session f s)"
  by (rule flow_on_session) (use assms(3) serving_ok_step [OF s st] in \<open>auto simp: holds_def\<close>)

lemma session_flows:
  assumes s: "serving_ok P H ctx s"
  shows "flow_holds no_panic (serving_ok P H ctx) (on_session (server_on_input P H data) s)"
    "flow_holds no_panic (serving_ok P H ctx) (on_session (server_channel_stdout P ch out) s)"
    "flow_holds no_panic (serving_ok P H ctx) (on_session (server_channel_stderr P ch out) s)"
    "flow_holds no_panic (serving_ok P H ctx) (on_session (server_channel_exit P ch status) s)"
    "flow_holds no_panic (serving_ok P H ctx) (on_session (server_channel_consumed P ch n) s)"
    "flow_holds no_panic (serving_ok P H ctx) (on_session (server_accept_channel P ch) s)"
    "flow_holds no_panic (serving_ok P H ctx) (on_session (server_reject_channel P ch) s)"
proof -
  have wf: "prims_safe P" "handler_ok H" "server_wf P (sv_session s)" using s by (simp_all add: serving_ok_def)
  note calls = server_wf_on_input [OF wf] server_wf_calls [OF wf(1,3)]
  show "flow_holds no_panic (serving_ok P H ctx) (on_session (server_on_input P H data) s)"
    by (intro session_flow s server_step.srv_input calls)
  show "flow_holds no_panic (serving_ok P H ctx) (on_session (server_channel_stdout P ch out) s)"
    by (intro session_flow s server_step.srv_stdout calls)
  show "flow_holds no_panic (serving_ok P H ctx) (on_session (server_channel_stderr P ch out) s)"
    by (intro session_flow s server_step.srv_stderr calls)
  show "flow_holds no_panic (serving_ok P H ctx) (on_session (server_channel_exit P ch status) s)"
    by (intro session_flow s server_step.srv_exit calls)
  show "flow_holds no_panic (serving_ok P H ctx) (on_session (server_channel_consumed P ch n) s)"
    by (intro session_flow s server_step.srv_consumed calls)
  show "flow_holds no_panic (serving_ok P H ctx) (on_session (server_accept_channel P ch) s)"
    by (intro session_flow s server_step.srv_accept calls)
  show "flow_holds no_panic (serving_ok P H ctx) (on_session (server_reject_channel P ch) s)"
    by (intro session_flow s server_step.srv_reject calls)
qed

lemma start_handler_ok:
  assumes s: "serving_ok P H ctx s" and l: "logged_in (sv_session s)"
    and h: "\<And>h. handler = Some h \<Longrightarrow> registered ctx h command"
  shows "flow_holds no_panic (serving_ok P H ctx) (start_handler P handler channel command s)"
proof (cases handler)
  case None
  then show ?thesis using session_flows(7) [OF s] by (simp add: start_handler_def)
next
  case (Some k)
  let ?f = "on_session (server_accept_channel P channel) s"
  have "logged_in (snd (server_accept_channel P channel (sv_session s)))"
    by (rule login_calls.keep_server_step [OF server_step.srv_accept l])
  then have logged: "logged_in (sv_session u)" if "?f = Go x u" for x u
    using that by (auto simp: on_session_def split: prod.splits result.splits)
  have "serving_ok P H ctx (wire_handler (spawn_handler k command pty u))"
    if "serving_ok P H ctx u" "logged_in (sv_session u)" for pty u
  proof -
    have "serving_ok P H ctx (spawn_handler k command pty u)"
      using that h [OF Some] by (auto simp: spawn_handler_def act_def serving_ok_def)
    then show ?thesis by (simp add: wire_handler_def Let_def serving_ok_act_if)
  qed
  with logged show ?thesis unfolding start_handler_def Some option.case
    by (intro flow_thenGo [OF session_flows(6) [OF s]]) (auto simp: Let_def)
qed

lemma serve_event_ok:
  assumes s: "serving_ok P H ctx s" and l: "logged_in (sv_session s) \<or> preauth_event e"
  shows "flow_holds no_panic (serving_ok P H ctx) (serve_event P ctx peer failure e s)"
proof (cases e)
  case AuthExhausted
  let ?s = "case peer of Some p \<Rightarrow> act (OnAuthExhausted p) s | None \<Rightarrow> s"
  have ok: "serving_ok P H ctx ?s" using s by (auto intro: serving_ok_act split: option.split)
  have "flow_holds no_panic (serving_ok P H ctx) (driver_flush failure ?s)"
    using ok serving_ok_step [OF serving_ok_act [OF ok] server_step.srv_clear]
    by (auto simp: driver_flush_def Let_def split: option.split)
  then show ?thesis using AuthExhausted by (auto simp: serve_event_def Let_def intro!: flow_thenGo)
next
  case (ExecRequest ch command)
  then show ?thesis using l start_handler_ok [OF s] by (auto simp: serve_event_def registered_def preauth_event_def)
next
  case (ShellRequest ch)
  then show ?thesis using l start_handler_ok [OF s] by (auto simp: serve_event_def registered_def preauth_event_def)
next
  case (SubsystemRequest ch name)
  then show ?thesis using l start_handler_ok [OF s] by (auto simp: serve_event_def registered_def preauth_event_def)
qed (use s in \<open>auto simp: serve_event_def Let_def intro!: serving_ok_act_if serving_ok_act split: option.split\<close>)

interpretation safe: serving_loop no_panic "serving_ok P H ctx" P H ctx peer
  for P :: "('r, 'z) prims" and H :: "'h auth_handler" and ctx :: "'k exec_context" and peer
proof unfold_locales
  fix s :: "('r, 'z, 'h, 'k) serving" and out
  assume s: "serving_ok P H ctx s"
  show "serving_ok P H ctx ((act (Wrote out) s)\<lparr>sv_session := server_clear_output (sv_session s)\<rparr>)"
    using serving_ok_step [OF serving_ok_act [OF s, of "Wrote out"] server_step.srv_clear] by simp
  show "serving_ok P H ctx (release_flushed s)"
    using s serving_ok_step [OF s server_step.srv_flushed, of "sv_active_channel s"]
    by (auto simp: release_flushed_def Let_def split_def intro!: serving_ok_act)
  show "serving_ok P H ctx (serve_return s)" using s by (simp add: serve_return_def Let_def serving_ok_act_if)
next
  fix s :: "('r, 'z, 'h, 'k) serving" and e es failure
  assume s: "serving_ok P H ctx s" and e: "s_events (sv_session s) = e # es"
  let ?s = "s\<lparr>sv_session := (sv_session s)\<lparr>s_events := es\<rparr>\<rparr>"
  have "serving_ok P H ctx ?s" using serving_ok_step [OF s server_step.srv_poll] e by (simp add: server_poll_event_def)
  moreover have "logged_in (sv_session ?s) \<or> preauth_event e"
    using s e by (auto simp: serving_ok_def server_wf_def logged_in_def)
  ultimately show "flow_holds no_panic (serving_ok P H ctx) (serve_event P ctx peer failure e ?s)"
    by (rule serve_event_ok)
next
  fix s :: "('r, 'z, 'h, 'k) serving" and out
  assume s: "serving_ok P H ctx s"
  then show "flow_holds no_panic (serving_ok P H ctx) (serve_out P out s)"
    by (cases out) (auto simp: serve_out_def intro!: session_flows(2,3,4))
qed (auto intro: session_flows)

lemma serving_ok_new: "prims_safe P \<Longrightarrow> handler_ok H \<Longrightarrow> server_wf P t \<Longrightarrow> serving_ok P H ctx (serving_new t)"
  by (simp add: serving_ok_def serving_new_def)

section \<open>No handler outlives its connection\<close>

text \<open>Handlers spawned, tasks aborted and budgets closed, in what the loop did.\<close>

definition spawned :: "'k action list \<Rightarrow> nat" where
  "spawned acts = length (filter (\<lambda>a. case a of Spawned _ _ _ \<Rightarrow> True | _ \<Rightarrow> False) acts)"

definition aborted :: "'k action list \<Rightarrow> nat" where
  "aborted acts = length (filter (\<lambda>a. a = AbortTask) acts)"

definition budgets_closed :: "'k action list \<Rightarrow> nat" where
  "budgets_closed acts = length (filter (\<lambda>a. a = CloseBudget) acts)"

lemma counts [simp]:
  "spawned [] = 0" "spawned (a # acts) = (case a of Spawned _ _ _ \<Rightarrow> 1 | _ \<Rightarrow> 0) + spawned acts"
  "spawned (acts @ acts') = spawned acts + spawned acts'"
  "aborted [] = 0" "aborted (a # acts) = of_bool (a = AbortTask) + aborted acts"
  "aborted (acts @ acts') = aborted acts + aborted acts'"
  "budgets_closed [] = 0" "budgets_closed (a # acts) = of_bool (a = CloseBudget) + budgets_closed acts"
  "budgets_closed (acts @ acts') = budgets_closed acts + budgets_closed acts'"
  by (simp_all add: spawned_def aborted_def budgets_closed_def split: action.split)

definition guarded :: "('r, 'z, 'h, 'k) serving \<Rightarrow> bool" where
  "guarded s \<longleftrightarrow> spawned (sv_log s) = aborted (sv_log s) + of_bool (sv_handler_task s) \<and>
     spawned (sv_log s) = budgets_closed (sv_log s) + of_bool (sv_out_budget s)"

lemmas guard_defs = guarded_def act_def act_if_def

lemma guarded_session [simp]: "guarded (s\<lparr>sv_session := t\<rparr>) \<longleftrightarrow> guarded s"
  by (simp add: guard_defs)

lemma guarded_flow: "guarded s \<Longrightarrow> flow_holds (\<lambda>_. True) guarded (on_session f s)"
  by (rule flow_on_session) simp_all

lemma guarded_flush: "guarded s \<Longrightarrow> guarded (act (Wrote out) s)"
  by (simp add: guard_defs)

lemma guarded_start: "guarded s \<Longrightarrow> flow_holds (\<lambda>_. True) guarded (start_handler P h ch c s)"
  unfolding start_handler_def
  by (auto simp: Let_def spawn_handler_def wire_handler_def intro!: guarded_flow flow_thenGo split: option.split)
    (auto simp: guard_defs)

interpretation guards: serving_loop "\<lambda>_. True" guarded P H ctx peer
  for P :: "('r, 'z) prims" and H :: "'h auth_handler" and ctx :: "'k exec_context" and peer
proof unfold_locales
  fix s :: "('r, 'z, 'h, 'k) serving" and e es failure
  assume s: "guarded s"
  then have "guarded (s\<lparr>sv_session := t\<rparr>)" for t by simp
  moreover have "flow_holds (\<lambda>_. True) guarded (driver_flush failure s)" if "guarded s" for s :: "('r, 'z, 'h, 'k) serving"
    using that guarded_flush by (auto simp: driver_flush_def Let_def split: option.split)
  ultimately show "flow_holds (\<lambda>_. True) guarded (serve_event P ctx peer failure e (s\<lparr>sv_session := (sv_session s)\<lparr>s_events := es\<rparr>\<rparr>))"
    by (cases e) (auto simp: serve_event_def Let_def intro!: guarded_start flow_thenGo split: option.split,
        auto simp: guard_defs)
next
  fix s :: "('r, 'z, 'h, 'k) serving" and out
  assume s: "guarded s"
  then show "flow_holds (\<lambda>_. True) guarded (serve_out P out s)"
    by (cases out) (auto simp: serve_out_def intro!: guarded_flow, auto simp: guard_defs)
qed (auto intro: guarded_flow guarded_flush simp: release_flushed_def serve_return_def split_def Let_def, auto simp: guard_defs)

lemma serve_loop_returned: "serve_loop P H ctx config peer turns s = Stop e s' \<Longrightarrow> \<not> sv_handler_task s' \<and> \<not> sv_out_budget s'"
  by (induction turns arbitrary: s)
    (auto simp: serve_return_def Let_def act_if_def act_def split: if_splits flow.splits)

section \<open>Properties\<close>



text \<open>A session in which an authenticated user has asked to run \<^verbatim>\<open>cat notes\<close>, and a context that has \<^verbatim>\<open>cat\<close>.\<close>

definition sample_asked :: "'h \<Rightarrow> (nat, nat, 'h) server" where
  "sample_asked h = \<lparr>s_transport = sample_established, s_handler = h,
     s_authenticated = Some (str ''root''), s_banner_sent = False, s_channel = None, s_pending_reply = False, s_allow_pty = False,
     s_auth_failures = 0, s_auth_requests = 0, s_program_started = False, s_events = [ExecRequest 0 (str ''cat notes'')]\<rparr>"

definition sample_context :: "nat exec_context" where
  "sample_context = on_exec (str ''cat'') 7 context_new"

lemma sample_asked_wf: "server_wf sample_prims (sample_asked h)"
  using sample_established_wf
  by (simp add: server_wf_def sample_asked_def sample_session_def events_ok_def sample_established_def
      transport_init_def)

lemma sample_asked_input:
  "server_on_input sample_prims H [0] (sample_asked h) =
     (Ok (), (sample_asked h)\<lparr>s_transport := sample_established\<lparr>t_rx := [0]\<rparr>\<rparr>)"
proof -
  have "on_input sample_prims [0] sample_established = (Ok (), sample_established\<lparr>t_rx := [0]\<rparr>)"
    by (simp add: on_input_def sample_established_def transport_init_def)
      (subst drive.simps, simp add: drive_step_def cipher_open_def decode_plain_def chacha_open_def gcm_open_def slice_from_def
        compact_rx_def Let_def)
  moreover have "server_pump sample_prims H t = (Ok (), t)" if "t_events (s_transport t) = []" for t :: "(nat, nat, 'a) server"
    using that by (subst server_pump.simps) (simp add: poll_event_def)
  ultimately show ?thesis
    by (simp add: server_on_input_def s_via_def on_field_def sample_asked_def sample_established_def transport_init_def)
qed

lemma sample_turn:
  assumes h: "exec_handler (str ''cat notes'') ctx = Some k"
  shows "\<exists>s'. serve_turn sample_prims H ctx None (Flushed None) (Read (ReadOk [0])) None (serving_new (sample_asked h)) =
     Go () s' \<and> sv_log s' = [Spawned k (str ''cat notes'') None]"
proof -
  let ?t = "(sample_asked h)\<lparr>s_transport := sample_established\<lparr>t_rx := [0]\<rparr>\<rparr>"
  have p: "server_poll_event ?t = (Some (ExecRequest 0 (str ''cat notes'')), ?t\<lparr>s_events := []\<rparr>)"
    "server_poll_event (?t\<lparr>s_events := []\<rparr>) = (None, ?t\<lparr>s_events := []\<rparr>)"
    by (simp_all add: server_poll_event_def sample_asked_def)
  have r: "server_accept_channel sample_prims 0 (?t\<lparr>s_events := []\<rparr>) = (Ok (), ?t\<lparr>s_events := []\<rparr>)"
    by (simp add: server_accept_channel_def server_reply_def sample_asked_def)
  have tx: "t_tx (s_transport (sample_asked h)) = []" "server_is_closing (?t\<lparr>s_events := []\<rparr>) = False"
    "server_channel_pty 0 (?t\<lparr>s_events := []\<rparr>) = None"
    by (simp_all add: sample_asked_def sample_established_def transport_init_def server_is_closing_def
        server_channel_pty_def server_channel_for_def)
  show ?thesis
    using h p r tx sample_asked_input [of H h]
    by (simp add: serve_turn_def serving_new_def driver_flush_def thenGo_def release_flushed_def serve_read_def
        driver_read_once_def on_session_def serve_events.simps serve_event_def start_handler_def spawn_handler_def wire_handler_def act_def
        act_if_def)
qed

lemma sample_served:
  assumes "exec_handler (str ''cat notes'') ctx = Some k"
  shows "\<exists>s. serve_with sample_prims H (sample_asked h) ctx serve_config_default None
      [(Flushed None, Read (ReadOk [0]), None)] = Go () s \<and> Spawned k (str ''cat notes'') None \<in> set (sv_log s)"
  using sample_turn [OF assms, of H h] by (auto simp: serve_with_def flush_enabled_def branch_enabled_def)

lemma sample_word: "split_whitespace (str ''cat notes'') = [str ''cat'', str ''notes'']"
  using split_whitespace_join [of "[str ''cat'', str ''notes'']"] by (simp add: word_ok_def ascii_space_def str_def)

lemma sample_exec: "exec_handler (str ''cat notes'') sample_context = Some 7"
  by (simp add: exec_handler_def sample_context_def on_exec_def sample_word)



text \<open>C23: No handler outlives its connection. At any point of the loop at most one spawned handler has not been aborted,
  and exactly its guard is held; when the loop returns, in whatever way, every handler it spawned has been
  aborted and the budget of each closed, so that a writer waiting on it is released.\<close>

theorem serve_tears_down:
  "case serve_with P H connection ctx config peer turns of
     Go _ s \<Rightarrow> spawned (sv_log s) = aborted (sv_log s) + of_bool (sv_handler_task s) \<and>
       spawned (sv_log s) = budgets_closed (sv_log s) + of_bool (sv_out_budget s)
   | Stop _ s \<Rightarrow> spawned (sv_log s) = aborted (sv_log s) \<and> spawned (sv_log s) = budgets_closed (sv_log s)"
proof -
  let ?f = "serve_with P H connection ctx config peer turns"
  have "guarded (serving_new connection)" by (simp add: guarded_def serving_new_def)
  from guards.keep_serve [OF this] have g: "flow_holds (\<lambda>_. True) guarded ?f" .
  have "\<not> sv_handler_task s \<and> \<not> sv_out_budget s" if "?f = Stop e s" for e s
    using serve_loop_returned [OF that [unfolded serve_with_def]] .
  with g show ?thesis by (auto simp: guarded_def split: flow.split)
qed

end
