(* ===== verification/Serve_Budget.thy ===== *)
theory Serve_Budget
  imports Serve_Safety
begin

text \<open>
  The output budget of the serving loop, end to end: the permits a handler may still take, the writes it has queued
  to the loop, the bytes the loop counts as in flight, and what the session's channel owes. Together they show
  the bound on buffered output that \<^verbatim>\<open>ServeConfig::max_buffered_output\<close> promises.
\<close>

section \<open>What the session owes\<close>

text \<open>No input from the peer makes the channel owe more.\<close>

definition owes :: "nat \<Rightarrow> ('r, 'z, 'h) server \<Rightarrow> bool" where
  "owes k s \<longleftrightarrow> owed (s_channel s) \<le> k"

interpretation owing: channel_keeps "owes k" "\<lambda>c. owed c \<le> k" for k
  by unfold_locales (auto simp: owes_def s_push_def)

interpretation owing_auth: auth_keeps "owes k" H for k H
  by unfold_locales (auto simp: owes_def s_push_def)

lemma owes_input:
  fixes s :: "('r, 'z, 'h) server"
  assumes "owes k s"
  shows "keeps (owes k) (server_on_input P H data s)"
proof -
  have "keeps (owes k) (server_handle_event P H e t)" if "owes k t" for e and t :: "('r, 'z, 'h) server"
    by (intro server_event_keeps that owing.upd_push owing.keep_handle_connection owing_auth.keep_handle_preauth)
  then have "keeps (owes k) (server_pump P H t)" if "owes k t" for t
    by (rule server_pump_keeps) (use that in \<open>auto simp: owes_def\<close>)
  moreover have "keeps (owes k) (s_via (on_input P data) s)"
    using assms by (simp add: keeps_def owes_def)
  ultimately show ?thesis unfolding server_on_input_def by (intro keep_intros)
qed

lemma owes_reply: "owes k s \<Longrightarrow> keeps (owes k) (server_accept_channel P ch s)"
  "owes k s \<Longrightarrow> keeps (owes k) (server_reject_channel P ch s)"
  unfolding server_accept_channel_def server_reject_channel_def by (intro owing.keep_reply owing.upd_pending, assumption)+

lemma channel_for_eq: "server_channel_for ch s = Some c \<Longrightarrow> s_channel s = Some c"
  by (simp add: server_channel_for_def split: option.splits if_splits)

lemma owes_with_channel:
  assumes "owes k s" and "\<And>c. ch_owed (f c) \<le> ch_owed c + n"
  shows "owes (k + n) (server_with_channel ch f s)"
proof (cases "server_channel_for ch s")
  case (Some c)
  then show ?thesis using assms(1) assms(2) [of c] channel_for_eq [OF Some]
    by (simp add: owes_def owed_def server_with_channel_def)
qed (use assms(1) in \<open>simp add: owes_def server_with_channel_def\<close>)

lemma owes_consumed: "owes k s \<Longrightarrow> keeps (owes k) (server_channel_consumed P ch n s)"
proof -
  assume s: "owes k s"
  have ack: "ch_owed (snd (ack_incoming n c)) = ch_owed c" for c
    by (simp add: ch_owed_def ack_incoming_def Let_def)
  have "owes k (s\<lparr>s_channel := Some c'\<rparr>)" if "server_channel_for ch s = Some c" "ack_incoming n c = (r, c')" for c r c'
    using s ack [of c] that(2) channel_for_eq [OF that(1)] by (simp add: owes_def owed_def)
  then show ?thesis
    unfolding server_channel_consumed_def Let_def using s by (intro keep_intros owing.sends) auto
qed

text \<open>Output adds its length, and what was flushed is handed over once.\<close>

lemma owes_written:
  assumes "owes k s"
  shows "keeps (owes (k + length data)) (server_channel_stdout P ch data s)"
    and "keeps (owes (k + length data)) (server_channel_stderr P ch data s)"
    and "keeps (owes k) (server_channel_exit P ch status s)"
  unfolding server_channel_stdout_def server_channel_stderr_def server_channel_exit_def
  using owes_with_channel [OF assms, where n = 0]
  by (auto simp: enqueue_stdout_def enqueue_stderr_def request_close_def ch_owed_def intro!: owing.keep_flush_channel owes_with_channel assms)

lemma take_flushed_owed:
  assumes "server_take_flushed_output ch s = (n, s')"
  shows "owed (s_channel s') + unat n = owed (s_channel s)"
proof (cases "server_channel_for ch s")
  case (Some c)
  then show ?thesis using assms channel_for_eq [OF Some]
    by (auto simp: server_take_flushed_output_def take_flushed_out_def owed_def ch_owed_def)
qed (use assms in \<open>simp add: server_take_flushed_output_def\<close>)

section \<open>The permits\<close>

text \<open>The permits of all handlers so far: a fresh budget for each new one, and what the loop adds. That a handler which was
  replaced can no longer use what it had left is not relied on. The writes not yet received by the loop count by
  their data.\<close>

definition grant :: "serve_config \<Rightarrow> nat \<Rightarrow> 'k action \<Rightarrow> nat" where
  "grant config permits a =
     (case a of Spawned _ _ _ \<Rightarrow> permits + out_limit config | AddPermits n \<Rightarrow> permits + n | _ \<Rightarrow> permits)"

definition queued :: "outbound list \<Rightarrow> nat" where
  "queued queue = sum_list (map (\<lambda>out. length (out_bytes out)) queue)"

text \<open>The books: nothing before the first handler; for the first handler, permits, queued writes and bytes in flight make
  up the limit, and what the channel owes is in flight; for any number of handlers, permits, queued writes and what
  the channel owes are within as many limits.\<close>

definition balanced :: "serve_config \<Rightarrow> nat \<Rightarrow> nat \<Rightarrow> nat \<Rightarrow> ('r, 'z, 'h, 'k) serving \<Rightarrow> bool" where
  "balanced config n permits k s \<longleftrightarrow>
     (n = 0 \<longrightarrow> permits = 0 \<and> k = 0 \<and> sv_out_inflight s = 0 \<and> owed (s_channel (sv_session s)) = 0) \<and>
     (n = 1 \<longrightarrow> permits + k + sv_out_inflight s = out_limit config \<and> owed (s_channel (sv_session s)) \<le> sv_out_inflight s) \<and>
     permits + k + owed (s_channel (sv_session s)) \<le> n * out_limit config"

text \<open>The same in the middle of a turn, which began with a given log and permits.\<close>

definition accounted :: "serve_config \<Rightarrow> 'k action list \<Rightarrow> nat \<Rightarrow> nat \<Rightarrow> ('r, 'z, 'h, 'k) serving \<Rightarrow> bool" where
  "accounted config log0 permits k s \<longleftrightarrow>
     (\<exists>acts. sv_log s = log0 @ acts \<and> balanced config (spawned (sv_log s)) (foldl (grant config) permits acts) k s)"

lemma accounted_session:
  assumes "accounted config l p k s" and "owed (s_channel t) \<le> owed (s_channel (sv_session s))"
  shows "accounted config l p k (s\<lparr>sv_session := t\<rparr>)"
  using assms by (auto simp: accounted_def balanced_def)

lemma accounted_act:
  assumes "accounted config l p k s" and "(case a of Spawned _ _ _ \<Rightarrow> False | AddPermits _ \<Rightarrow> False | _ \<Rightarrow> True)"
  shows "accounted config l p k (act a s)"
proof -
  obtain acts where "sv_log s = l @ acts" "balanced config (spawned (sv_log s)) (foldl (grant config) p acts) k s"
    using assms(1) by (auto simp: accounted_def)
  then show ?thesis using assms(2)
    by (auto simp: accounted_def balanced_def act_def grant_def intro!: exI [of _ "acts @ [a]"] split: action.splits)
qed

lemma accounted_act_if:
  "accounted config l p k s \<Longrightarrow> (case a of Spawned _ _ _ \<Rightarrow> False | AddPermits _ \<Rightarrow> False | _ \<Rightarrow> True) \<Longrightarrow>
   accounted config l p k (act_if b a s)"
  by (simp add: act_if_def accounted_act)

lemma accounted_locals [simp]:
  "accounted config l p k (s\<lparr>sv_stdin_tx := b\<rparr>) \<longleftrightarrow> accounted config l p k s"
  "accounted config l p k (s\<lparr>sv_active_channel := c\<rparr>) \<longleftrightarrow> accounted config l p k s"
  "accounted config l p k (s\<lparr>sv_out_budget := b\<rparr>) \<longleftrightarrow> accounted config l p k s"
  "accounted config l p k (s\<lparr>sv_consumed_rx := b\<rparr>) \<longleftrightarrow> accounted config l p k s"
  "accounted config l p k (s\<lparr>sv_last_consumed := m\<rparr>) \<longleftrightarrow> accounted config l p k s"
  "accounted config l p k (s\<lparr>sv_resize_tx := b\<rparr>) \<longleftrightarrow> accounted config l p k s"
  "accounted config l p k (s\<lparr>sv_handler_task := b\<rparr>) \<longleftrightarrow> accounted config l p k s"
  "accounted config l p k (s\<lparr>sv_authenticated := b\<rparr>) \<longleftrightarrow> accounted config l p k s"
  by (simp_all add: accounted_def balanced_def)

lemma accounted_flow:
  assumes "accounted config l p k s" and "\<And>n. owes n (sv_session s) \<Longrightarrow> keeps (owes n) (f (sv_session s))"
  shows "flow_holds (\<lambda>_. True) (accounted config l p k) (on_session f s)"
  using assms(2) [of "owed (s_channel (sv_session s))"]
  by (intro flow_on_session accounted_session assms(1)) (simp_all add: owes_def keeps_def)

lemma accounted_spawn:
  assumes "accounted config l p k s"
  shows "accounted config l p k ((act (Spawned h c pty) s)\<lparr>sv_out_inflight := 0\<rparr>)"
proof -
  obtain acts where "sv_log s = l @ acts" "balanced config (spawned (sv_log s)) (foldl (grant config) p acts) k s"
    using assms by (auto simp: accounted_def)
  then show ?thesis
    by (auto simp: accounted_def balanced_def act_def grant_def intro!: exI [of _ "acts @ [Spawned h c pty]"])
qed

lemma accounted_start:
  fixes s :: "('r, 'z, 'h, 'k) serving"
  assumes "accounted config l p k s"
  shows "flow_holds (\<lambda>_. True) (accounted config l p k) (start_handler P handler ch c s)"
proof (cases handler)
  case None
  then show ?thesis using accounted_flow [OF assms owes_reply(2)] by (simp add: start_handler_def)
next
  case (Some h)
  have "(wire_handler (spawn_handler h c pty u))\<lparr>sv_active_channel := ch, sv_out_inflight := 0, sv_last_consumed := 0\<rparr> =
      (wire_handler ((act (Spawned h c pty) u)\<lparr>sv_out_inflight := 0\<rparr>))\<lparr>sv_active_channel := ch, sv_last_consumed := 0\<rparr>"
    for pty and u :: "('r, 'z, 'h, 'k) serving"
    by (simp add: wire_handler_def spawn_handler_def act_if_def act_def Let_def)
  moreover have "accounted config l p k (wire_handler ((act (Spawned h c pty) u)\<lparr>sv_out_inflight := 0\<rparr>))"
    if "accounted config l p k u" for pty and u :: "('r, 'z, 'h, 'k) serving"
    using accounted_spawn [OF that] by (simp add: wire_handler_def Let_def accounted_act_if)
  ultimately show ?thesis unfolding start_handler_def Some option.case
    by (intro flow_thenGo accounted_flow [OF assms] owes_reply) (simp_all add: Let_def)
qed

lemma accounted_release:
  assumes "accounted config l p k s"
  shows "accounted config l p k (release_flushed s)"
proof (cases "sv_out_budget s")
  case True
  obtain flushed t where t: "server_take_flushed_output (sv_active_channel s) (sv_session s) = (flushed, t)" by fastforce
  note o = take_flushed_owed [OF t]
  obtain acts where acts: "sv_log s = l @ acts" "balanced config (spawned (sv_log s)) (foldl (grant config) p acts) k s"
    using assms by (auto simp: accounted_def)
  show ?thesis
  proof (cases "0 < min (unat flushed) (sv_out_inflight s)")
    case pos: True
    then show ?thesis using True t acts o
      by (auto simp: release_flushed_def Let_def accounted_def balanced_def act_def grant_def
          intro!: exI [of _ "acts @ [AddPermits (min (unat flushed) (sv_out_inflight s))]"])
  next
    case False
    then show ?thesis using True t o accounted_session [OF assms, of t] by (auto simp: release_flushed_def Let_def)
  qed
qed (use assms in \<open>simp add: release_flushed_def\<close>)

lemma accounted_out:
  assumes "accounted config l p (length (out_bytes out) + k) s"
  shows "serve_out P out s = Go u s' \<Longrightarrow> accounted config l p k s'"
proof -
  let ?o = "owed (s_channel (sv_session s))"
  have out: "accounted config l p k s'"
    if "on_session f (s\<lparr>sv_out_inflight := sv_out_inflight s + n\<rparr>) = Go u s'" "length (out_bytes out) = n"
      "keeps (owes (?o + n)) (f (sv_session s))" for f n
    using assms that by (auto simp: on_session_def accounted_def balanced_def keeps_def owes_def split: prod.splits result.splits)
  have o: "owes ?o (sv_session s)" by (simp add: owes_def)
  have same: "s\<lparr>sv_out_inflight := sv_out_inflight s + 0\<rparr> = s" by simp
  assume "serve_out P out s = Go u s'"
  then show ?thesis using out owes_written [OF o] out [where n = 0, unfolded same add_0_right]
    by (cases out) (auto simp: serve_out_def)
qed

interpretation budget: serving_keeps "\<lambda>_. True" "accounted config l p k" P H ctx peer
  for config and l :: "'k action list" and p k and P :: "('r, 'z) prims" and H :: "'h auth_handler" and ctx :: "'k exec_context" and peer
proof unfold_locales
  fix s :: "('r, 'z, 'h, 'k) serving" and out
  assume s: "accounted config l p k s"
  show "accounted config l p k ((act (Wrote out) s)\<lparr>sv_session := server_clear_output (sv_session s)\<rparr>)"
    by (intro accounted_session accounted_act s) (simp_all add: server_clear_output_def)
  show "accounted config l p k (serve_return s)" using s by (simp add: serve_return_def Let_def accounted_act_if)
next
  fix s :: "('r, 'z, 'h, 'k) serving" and e es failure
  assume s: "accounted config l p k s"
  have t: "accounted config l p k (s\<lparr>sv_session := (sv_session s)\<lparr>s_events := es\<rparr>\<rparr>)"
    by (rule accounted_session [OF s]) simp
  have flush: "flow_holds (\<lambda>_. True) (accounted config l p k) (driver_flush failure u)" if "accounted config l p k u"
    for u :: "('r, 'z, 'h, 'k) serving"
    using that by (auto simp: driver_flush_def Let_def server_clear_output_def intro!: accounted_session accounted_act split: option.split)
  show "flow_holds (\<lambda>_. True) (accounted config l p k)
      (serve_event P ctx peer failure e (s\<lparr>sv_session := (sv_session s)\<lparr>s_events := es\<rparr>\<rparr>))"
    using t by (cases e) (auto simp: serve_event_def Let_def
        intro!: flush accounted_start accounted_act accounted_act_if flow_thenGo split: option.split)
qed (auto intro!: accounted_release accounted_flow owes_input owes_consumed)

section \<open>The loop and its handler together\<close>

text \<open>A handler takes permits for a write and queues it, or reports its exit; the loop takes turns, receiving from the
  head of the queue when that branch fires.\<close>

inductive output_run ::
    "('r, 'z) prims \<Rightarrow> 'h auth_handler \<Rightarrow> 'k exec_context \<Rightarrow> serve_config \<Rightarrow> socket_addr option \<Rightarrow>
     ('r, 'z, 'h, 'k) serving \<Rightarrow> nat \<Rightarrow> outbound list \<Rightarrow> bool"
  for P :: "('r, 'z) prims" and H :: "'h auth_handler" and ctx :: "'k exec_context" and config :: serve_config
    and peer :: "socket_addr option" where
  run_start: "s_channel connection = None \<Longrightarrow> output_run P H ctx config peer (serving_new connection) 0 []"
| run_write: "output_run P H ctx config peer s permits queue \<Longrightarrow> length data \<le> permits \<Longrightarrow> out \<in> {Stdout data, Stderr data} \<Longrightarrow>
    output_run P H ctx config peer s (permits - length data) (queue @ [out])"
| run_exit: "output_run P H ctx config peer s permits queue \<Longrightarrow> output_run P H ctx config peer s permits (queue @ [Exit status])"
| run_turn: "output_run P H ctx config peer s permits queue \<Longrightarrow> (\<And>out. br \<noteq> Out out) \<Longrightarrow>
    serve_turn P H ctx peer fb br failure s = Go () s' \<Longrightarrow>
    output_run P H ctx config peer s' (foldl (grant config) permits (drop (length (sv_log s)) (sv_log s'))) queue"
| run_receive: "output_run P H ctx config peer s permits (out # queue) \<Longrightarrow>
    serve_turn P H ctx peer fb (Out out) failure s = Go () s' \<Longrightarrow>
    output_run P H ctx config peer s' (foldl (grant config) permits (drop (length (sv_log s)) (sv_log s'))) queue"

lemma accounted_here: "balanced config (spawned (sv_log s)) p k s \<Longrightarrow> accounted config (sv_log s) p k s"
  by (simp add: accounted_def)

lemma accounted_there:
  "accounted config l p k s \<Longrightarrow> balanced config (spawned (sv_log s)) (foldl (grant config) p (drop (length l) (sv_log s))) k s"
  by (auto simp: accounted_def)

lemma output_run_balanced:
  "output_run P H ctx config peer s permits queue \<Longrightarrow> balanced config (spawned (sv_log s)) permits (queued queue) s"
proof (induction rule: output_run.induct)
  case (run_start connection)
  then show ?case by (simp add: balanced_def serving_new_def queued_def owed_def)
next
  case (run_write s permits queue data out)
  then show ?case by (auto simp: balanced_def queued_def)
next
  case (run_exit s permits queue status)
  then show ?case by (simp add: queued_def)
next
  case (run_turn s permits queue br fb failure s')
  have "flow_holds (\<lambda>_. True) (accounted config (sv_log s) permits (queued queue)) (serve_turn P H ctx peer fb br failure s)"
    by (rule budget.keep_turn [OF accounted_here [OF run_turn.IH]]) (use run_turn.hyps(2) in blast)
  then show ?case using run_turn.hyps(3) by (simp add: accounted_there)
next
  case (run_receive s permits out queue fb failure s')
  obtain f u where u: "fb = Flushed f" "driver_flush f s = Go () u" "serve_out P out (release_flushed u) = Go () s'"
    using run_receive.hyps(2) by (cases fb) (auto simp: serve_turn_def thenGo_def split: flow.splits)
  have "accounted config (sv_log s) permits (length (out_bytes out) + queued queue) u"
    using budget.keep_flush [OF accounted_here [OF run_receive.IH], of f] u(2) by (simp add: queued_def)
  from accounted_there [OF accounted_out [OF accounted_release [OF this] u(3)]] show ?case .
qed

section \<open>Properties\<close>



end
