(* ===== verification/Listener.thy ===== *)
theory Listener
  imports Serve
begin

text \<open>
  Accepting connections (\<^verbatim>\<open>serve_listener\<close> and \<^verbatim>\<open>Defense\<close> of \<^verbatim>\<open>crates/ssh-io/src/serve.rs\<close>, \<^verbatim>\<open>RateLimiter\<close> of \<^verbatim>\<open>limits.rs\<close>): the
  gates a connection passes before it is served, in their order, and what they bound over the life of the
  listener. A policy's state and its decision are arguments, as is the time of a call.
\<close>

section \<open>The gates\<close>

text \<open>The token bucket. Its arithmetic is that of the machine's 64-bit floating point numbers, a parameter here.\<close>

record 'f float_ops =
  fl_one :: 'f
  fl_add :: "'f \<Rightarrow> 'f \<Rightarrow> 'f"
  fl_sub :: "'f \<Rightarrow> 'f \<Rightarrow> 'f"
  fl_mul :: "'f \<Rightarrow> 'f \<Rightarrow> 'f"
  fl_min :: "'f \<Rightarrow> 'f \<Rightarrow> 'f"
  fl_ge :: "'f \<Rightarrow> 'f \<Rightarrow> bool"
  fl_secs :: "nat \<Rightarrow> 'f"

record 'f rate_limiter =
  rl_tokens :: 'f
  rl_last :: nat
  rl_rate_per_sec :: 'f
  rl_capacity :: 'f

definition rate_limiter_new :: "nat \<Rightarrow> 'f \<Rightarrow> 'f \<Rightarrow> 'f rate_limiter" where
  "rate_limiter_new now rate burst =
     \<lparr>rl_tokens = burst, rl_last = now, rl_rate_per_sec = rate, rl_capacity = burst\<rparr>"

definition try_acquire :: "'f float_ops \<Rightarrow> nat \<Rightarrow> 'f rate_limiter \<Rightarrow> bool \<times> 'f rate_limiter" where
  "try_acquire F now r =
     (let elapsed = fl_secs F (now - rl_last r);
          r = r\<lparr>rl_last := now\<rparr>;
          r = r\<lparr>rl_tokens := fl_min F (fl_add F (rl_tokens r) (fl_mul F elapsed (rl_rate_per_sec r))) (rl_capacity r)\<rparr>
      in if fl_ge F (rl_tokens r) (fl_one F) then (True, r\<lparr>rl_tokens := fl_sub F (rl_tokens r) (fl_one F)\<rparr>)
         else (False, r))"

record ('f, 'q, 'p) defense =
  df_serve :: serve_config
  df_connections :: "'q connection_limiter"
  df_rate :: "'f rate_limiter"
  df_policy :: 'p

definition defense_new :: "'q connection_limiter \<Rightarrow> 'f rate_limiter \<Rightarrow> ('f, 'q, socket_addr \<Rightarrow> connection_decision) defense" where
  "defense_new connections rate =
     \<lparr>df_serve = serve_config_default, df_connections = connections, df_rate = rate, df_policy = allow_all_evaluate\<rparr>"

definition with_serve_config :: "serve_config \<Rightarrow> ('f, 'q, 'p) defense \<Rightarrow> ('f, 'q, 'p) defense" where
  "with_serve_config config d = d\<lparr>df_serve := config\<rparr>"

definition with_policy :: "'p2 \<Rightarrow> ('f, 'q, 'p) defense \<Rightarrow> ('f, 'q, 'p2) defense" where
  "with_policy policy d =
     \<lparr>df_serve = df_serve d, df_connections = df_connections d, df_rate = df_rate d, df_policy = policy\<rparr>"

text \<open>One connection at the gates of \<^verbatim>\<open>serve_listener\<close>; a guard means that it is served.\<close>

definition listener_accept ::
    "'f float_ops \<Rightarrow> 'q semaphore \<Rightarrow> (socket_addr \<Rightarrow> 'p \<Rightarrow> connection_decision \<times> 'p) \<Rightarrow> nat \<Rightarrow> socket_addr \<Rightarrow>
     ('f, 'q, 'p) defense \<Rightarrow> connection_guard option \<times> ('f, 'q, 'p) defense" where
  "listener_accept F Q evaluate now peer d =
     (let (allowed, rate) = try_acquire F now (df_rate d);
          d = d\<lparr>df_rate := rate\<rparr>
      in
      if \<not> allowed then (None, d)
      else
        let (decision, policy) = evaluate peer (df_policy d);
            d = d\<lparr>df_policy := policy\<rparr>
        in
        if decision = Reject then (None, d)
        else
          let (guard, connections) = try_admit Q (sa_ip peer) (df_connections d)
          in (guard, d\<lparr>df_connections := connections\<rparr>))"

section \<open>The life of the listener\<close>

text \<open>Connections are accepted, the running ones end and drop their guards, and their authentication outcomes change
  the policy they share.\<close>

inductive listener_run ::
    "'f float_ops \<Rightarrow> 'q semaphore \<Rightarrow> (socket_addr \<Rightarrow> 'p \<Rightarrow> connection_decision \<times> 'p) \<Rightarrow> nat \<Rightarrow> nat option \<Rightarrow>
     ('f, 'q, 'p) defense \<Rightarrow> connection_guard multiset \<Rightarrow> bool"
  for F :: "'f float_ops" and Q :: "'q semaphore" and evaluate :: "socket_addr \<Rightarrow> 'p \<Rightarrow> connection_decision \<times> 'p"
    and max_global :: nat and per_ip_max :: "nat option" where
  listen: "df_connections d = limiter_new Q max_global per_ip_max \<Longrightarrow> listener_run F Q evaluate max_global per_ip_max d {#}"
| accepted: "listener_run F Q evaluate max_global per_ip_max d G \<Longrightarrow> listener_accept F Q evaluate now peer d = (Some g, d') \<Longrightarrow>
    listener_run F Q evaluate max_global per_ip_max d' (add_mset g G)"
| refused: "listener_run F Q evaluate max_global per_ip_max d G \<Longrightarrow> listener_accept F Q evaluate now peer d = (None, d') \<Longrightarrow>
    listener_run F Q evaluate max_global per_ip_max d' G"
| reacted: "listener_run F Q evaluate max_global per_ip_max d G \<Longrightarrow>
    listener_run F Q evaluate max_global per_ip_max (d\<lparr>df_policy := policy\<rparr>) G"
| ended: "listener_run F Q evaluate max_global per_ip_max d (add_mset g G) \<Longrightarrow> guard_drop Q g (df_connections d) = (Ok (), l) \<Longrightarrow>
    listener_run F Q evaluate max_global per_ip_max (d\<lparr>df_connections := l\<rparr>) G"

text \<open>A connection reaches the limiter only through the other two gates.\<close>

lemma listener_accept_cases:
  assumes "listener_accept F Q evaluate now peer d = (r, d')"
  shows "r = None \<and> df_connections d' = df_connections d \<and>
      \<not> (fst (try_acquire F now (df_rate d)) \<and> fst (evaluate peer (df_policy d)) \<noteq> Reject) \<or>
    fst (try_acquire F now (df_rate d)) \<and> fst (evaluate peer (df_policy d)) \<noteq> Reject \<and>
      try_admit Q (sa_ip peer) (df_connections d) = (r, df_connections d')"
  using assms by (auto simp: listener_accept_def Let_def split: prod.splits if_splits)

lemma listener_limiter:
  "listener_run F Q evaluate mg pm d G \<Longrightarrow> limiter_run Q mg pm (df_connections d) G"
proof (induction rule: listener_run.induct)
  case (listen d)
  then show ?case using limiter_run.run_new by metis
next
  case (accepted d G now peer g d')
  then show ?case using listener_accept_cases [OF accepted.hyps(2)] limiter_run.run_admit by fastforce
next
  case (refused d G now peer d')
  then show ?case using listener_accept_cases [OF refused.hyps(2)] limiter_run.run_refuse by fastforce
next
  case (ended d g G l)
  then show ?case using limiter_run.run_drop by fastforce
qed simp

section \<open>Properties\<close>


text \<open>Exact arithmetic in millionths, and a listener that has admitted one connection of at most one per address.\<close>

definition sample_float :: "nat float_ops" where
  "sample_float = \<lparr>fl_one = 1000000, fl_add = (+), fl_sub = (-), fl_mul = (\<lambda>a b. a * b div 1000000), fl_min = min,
     fl_ge = (\<ge>), fl_secs = (\<lambda>ns. ns div 1000)\<rparr>"

definition sample_defense :: "(nat, nat, fail2ban) defense" where
  "sample_defense = with_policy (f2b_new 6 3 (300 * 10 ^ 9))
     (defense_new (limiter_new sample_semaphore 256 (Some 1)) (rate_limiter_new 0 50000000 100000000))"


end
