(* ===== verification/Keystore.thy ===== *)
theory Keystore
  imports Rust_Str Auth Hostkey
begin

text \<open>
  Key stores on the file system (\<^verbatim>\<open>crates/ssh-io/src/keystore.rs\<close>): \<^verbatim>\<open>authorized_keys\<close>, \<^verbatim>\<open>known_hosts\<close> and the server's
  own key, with the methods of \<^verbatim>\<open>HostKey\<close> (\<^verbatim>\<open>crates/ssh-transport/src/hostkey.rs\<close>) that read and write it. The OpenSSH text of a
  public and of a private key belongs to the \<^verbatim>\<open>ssh-key\<close> crate and is a parameter, as is whether an access to a file
  fails. A file is its content and its permission bits.
\<close>

section \<open>Keys as text\<close>

text \<open>What the crate makes of a text: the kind of key and, for the kind that is used here, its bytes (the public key, and
  the seed of a private one).\<close>

datatype key_data = Ed25519Data bytes | OtherKeyData

record ssh_key_format =
  public_from_openssh :: "bytes \<Rightarrow> key_data option"
  private_from_openssh :: "bytes \<Rightarrow> key_data option"
  private_to_openssh :: "bytes \<Rightarrow> bytes option"

definition host_from_openssh :: "ssh_key_format \<Rightarrow> bytes \<Rightarrow> host_key result" where
  "host_from_openssh K pem =
     (case private_from_openssh K pem of
        None \<Rightarrow> Err (Key ''invalid OpenSSH private key'')
      | Some (Ed25519Data seed) \<Rightarrow> Ok (host_key_from_seed seed)
      | Some OtherKeyData \<Rightarrow> Err (Key ''host key is not ssh-ed25519 (or is encrypted)''))"

definition host_to_openssh :: "ssh_key_format \<Rightarrow> host_key \<Rightarrow> bytes result" where
  "host_to_openssh K key =
     (case private_to_openssh K (hk_signing key) of
        None \<Rightarrow> Err (Key ''failed to encode host key'')
      | Some pem \<Rightarrow> Ok pem)"

definition ok_of :: "'a result \<Rightarrow> 'a option" where
  "ok_of r = (case r of Ok x \<Rightarrow> Some x | _ \<Rightarrow> None)"

definition parse_user_key :: "('r, 'z) prims \<Rightarrow> ssh_key_format \<Rightarrow> bytes \<Rightarrow> user_public_key option" where
  "parse_user_key P K line =
     (let trimmed = trim line in
      if trimmed = [] \<or> hd trimmed = 35 then None
      else
        case public_from_openssh K trimmed of
          Some (Ed25519Data ed) \<Rightarrow> ok_of (user_from_ed25519_bytes P ed)
        | _ \<Rightarrow> None)"

definition host_key_from_openssh :: "('r, 'z) prims \<Rightarrow> ssh_key_format \<Rightarrow> bytes \<Rightarrow> host_public_key option" where
  "host_key_from_openssh P K key_part =
     (case public_from_openssh K key_part of
        Some (Ed25519Data ed) \<Rightarrow> ok_of (host_from_ed25519_bytes P ed)
      | _ \<Rightarrow> None)"

section \<open>Authorized keys\<close>

record authorized_keys =
  ak_keys :: "user_public_key list"

definition ak_default :: authorized_keys where
  "ak_default = \<lparr>ak_keys = []\<rparr>"

definition ak_parse :: "('r, 'z) prims \<Rightarrow> ssh_key_format \<Rightarrow> bytes \<Rightarrow> authorized_keys" where
  "ak_parse P K contents = \<lparr>ak_keys = List.map_filter (parse_user_key P K) (lines contents)\<rparr>"

definition ak_contains :: "user_public_key \<Rightarrow> authorized_keys \<Rightarrow> bool" where
  "ak_contains key a = list_ex (\<lambda>k. k = key) (ak_keys a)"

definition ak_is_empty :: "authorized_keys \<Rightarrow> bool" where
  "ak_is_empty a = (ak_keys a = [])"

definition ak_len :: "authorized_keys \<Rightarrow> nat" where
  "ak_len a = length (ak_keys a)"

section \<open>Known hosts\<close>

record known_hosts =
  kh_entries :: "(bytes \<times> host_public_key) list"

definition kh_line :: "('r, 'z) prims \<Rightarrow> ssh_key_format \<Rightarrow> bytes \<Rightarrow> (bytes \<times> host_public_key) list" where
  "kh_line P K line =
     (let trimmed = trim line in
      if trimmed = [] \<or> hd trimmed = 35 then []
      else
        case split_once_ws trimmed of
          Some (hosts, key_part) \<Rightarrow>
            (case host_key_from_openssh P K (trim key_part) of
               Some key \<Rightarrow> map (\<lambda>h. (h, key)) (filter (\<lambda>h. h \<noteq> []) (split_on 44 hosts))
             | None \<Rightarrow> [])
        | None \<Rightarrow> [])"

definition kh_parse :: "('r, 'z) prims \<Rightarrow> ssh_key_format \<Rightarrow> bytes \<Rightarrow> known_hosts" where
  "kh_parse P K contents = \<lparr>kh_entries = concat (map (kh_line P K) (lines contents))\<rparr>"

definition kh_is_trusted :: "bytes \<Rightarrow> host_public_key \<Rightarrow> known_hosts \<Rightarrow> bool" where
  "kh_is_trusted host key k = list_ex (\<lambda>(h, hk). h = host \<and> hk = key) (kh_entries k)"

definition kh_is_empty :: "known_hosts \<Rightarrow> bool" where
  "kh_is_empty k = (kh_entries k = [])"

section \<open>Files\<close>

datatype file_error = FileNotFound | InvalidData | FileOther

record key_file =
  f_mode :: nat
  f_bytes :: bytes

type_synonym files = "bytes \<rightharpoonup> key_file"

text \<open>\<^verbatim>\<open>std::fs::read_to_string\<close>, which may fail for reasons of its own.\<close>

definition read_to_string :: "bool \<Rightarrow> bytes \<Rightarrow> files \<Rightarrow> file_error + bytes" where
  "read_to_string fault path fs =
     (if fault then Inl FileOther
      else
        case fs path of
          None \<Rightarrow> Inl FileNotFound
        | Some f \<Rightarrow> if utf8_ok (f_bytes f) then Inr (f_bytes f) else Inl InvalidData)"

definition ak_load :: "('r, 'z) prims \<Rightarrow> ssh_key_format \<Rightarrow> bool \<Rightarrow> bytes \<Rightarrow> files \<Rightarrow> file_error + authorized_keys" where
  "ak_load P K fault path fs =
     (case read_to_string fault path fs of Inl e \<Rightarrow> Inl e | Inr contents \<Rightarrow> Inr (ak_parse P K contents))"

definition kh_load :: "('r, 'z) prims \<Rightarrow> ssh_key_format \<Rightarrow> bool \<Rightarrow> bytes \<Rightarrow> files \<Rightarrow> file_error + known_hosts" where
  "kh_load P K fault path fs =
     (case read_to_string fault path fs of Inl e \<Rightarrow> Inl e | Inr contents \<Rightarrow> Inr (kh_parse P K contents))"

definition from_pem :: "ssh_key_format \<Rightarrow> bytes \<Rightarrow> file_error + host_key" where
  "from_pem K pem = (case host_from_openssh K pem of Ok k \<Rightarrow> Inr k | _ \<Rightarrow> Inl InvalidData)"

definition load_host_key :: "ssh_key_format \<Rightarrow> bool \<Rightarrow> bytes \<Rightarrow> files \<Rightarrow> file_error + host_key" where
  "load_host_key K fault path fs =
     (case read_to_string fault path fs of Inl e \<Rightarrow> Inl e | Inr pem \<Rightarrow> from_pem K pem)"

text \<open>The permission bits are those of a file that is there; a new one gets 0600. A write that fails may leave the
  file empty.\<close>

definition write_private :: "bool \<Rightarrow> bool \<Rightarrow> bytes \<Rightarrow> bytes \<Rightarrow> files \<Rightarrow> (file_error + unit) \<times> files" where
  "write_private open_fault write_fault path bs fs =
     (if open_fault then (Inl FileOther, fs)
      else
        let mode = (case fs path of Some f \<Rightarrow> f_mode f | None \<Rightarrow> 384);
            fs = fs(path \<mapsto> \<lparr>f_mode = mode, f_bytes = []\<rparr>)
        in if write_fault then (Inl FileOther, fs) else (Inr (), fs(path \<mapsto> \<lparr>f_mode = mode, f_bytes = bs\<rparr>)))"

definition save_host_key ::
    "ssh_key_format \<Rightarrow> bool \<Rightarrow> bool \<Rightarrow> host_key \<Rightarrow> bytes \<Rightarrow> files \<Rightarrow> (file_error + unit) \<times> files" where
  "save_host_key K open_fault write_fault key path fs =
     (case host_to_openssh K key of
        Ok pem \<Rightarrow> write_private open_fault write_fault path pem fs
      | _ \<Rightarrow> (Inl InvalidData, fs))"

definition load_or_create_host_key ::
    "('r, 'z) prims \<Rightarrow> ssh_key_format \<Rightarrow> bool \<Rightarrow> bool \<Rightarrow> bool \<Rightarrow> bytes \<Rightarrow> 'r \<Rightarrow> files \<Rightarrow>
     (file_error + host_key) \<times> 'r \<times> files" where
  "load_or_create_host_key P K fault open_fault write_fault path r fs =
     (case read_to_string fault path fs of
        Inr pem \<Rightarrow> (from_pem K pem, r, fs)
      | Inl FileNotFound \<Rightarrow>
          let (key, r) = host_key_generate P r;
              (saved, fs) = save_host_key K open_fault write_fault key path fs
          in (case saved of Inl e \<Rightarrow> Inl e | Inr _ \<Rightarrow> Inr key, r, fs)
      | Inl e \<Rightarrow> (Inl e, r, fs))"

section \<open>Reading back an entry\<close>

text \<open>A line of \<^verbatim>\<open>known_hosts\<close>, as it is written: the host names, and the words of the key.\<close>

definition kh_text :: "bytes list \<times> bytes list \<Rightarrow> bytes" where
  "kh_text e = join_with 44 (fst e) @ 32 # join_with 32 (snd e)"

definition kh_entry_ok :: "bytes list \<times> bytes list \<Rightarrow> bool" where
  "kh_entry_ok e \<longleftrightarrow> fst e \<noteq> [] \<and> snd e \<noteq> [] \<and> list_all word_ok (fst e) \<and> list_all word_ok (snd e) \<and>
     (\<forall>h\<in>set (fst e). 44 \<notin> set h) \<and> hd (hd (fst e)) \<noteq> 35"

lemma hosts_visible:
  assumes "list_all word_ok hs"
  shows "\<forall>b\<in>set (join_with 44 hs). b < 0x80 \<and> \<not> ascii_space b"
  using assms set_join_with [of 44 hs] by (fastforce simp: list_all_iff word_ok_def ascii_space_def)

lemma hd_join: "hs \<noteq> [] \<Longrightarrow> hd hs \<noteq> [] \<Longrightarrow> join_with c hs \<noteq> [] \<and> hd (join_with c hs) = hd (hd hs)"
  by (induction c hs rule: join_with.induct) auto

lemma kh_text_tidy:
  assumes "kh_entry_ok e"
  shows "tidy (kh_text e)" "10 \<notin> set (kh_text e)" "hd (kh_text e) \<noteq> 35"
proof -
  have ws: "list_all word_ok (snd e)" "snd e \<noteq> []" and hs: "list_all word_ok (fst e)" "fst e \<noteq> []"
    using assms by (simp_all add: kh_entry_ok_def)
  note w = join_words [OF ws] and v = hosts_visible [OF hs(1)]
  have "hd (fst e) \<noteq> []" using hs by (cases "fst e") (simp_all add: word_ok_def)
  note h = hd_join [OF hs(2) this, of 44]
  then show "hd (kh_text e) \<noteq> 35" using assms by (simp add: kh_text_def kh_entry_ok_def)
  have "hd (join_with 44 (fst e)) \<in> set (join_with 44 (fst e))" using h by (intro hd_in_set) blast
  then show "tidy (kh_text e)" using v w h unfolding kh_text_def tidy_def by auto
  show "10 \<notin> set (kh_text e)" using v w(2) by (auto simp: kh_text_def ascii_space_def)
qed

lemma kh_line_text:
  assumes "kh_entry_ok e"
  shows "set (kh_line P K (kh_text e)) =
    (case host_key_from_openssh P K (join_with 32 (snd e)) of Some key \<Rightarrow> set (fst e) \<times> {key} | None \<Rightarrow> {})"
proof -
  have ws: "list_all word_ok (snd e)" "snd e \<noteq> []" and hs: "list_all word_ok (fst e)" "fst e \<noteq> []"
    "\<forall>h\<in>set (fst e). 44 \<notin> set h" using assms by (simp_all add: kh_entry_ok_def)
  have "kh_text e \<noteq> []" by (simp add: kh_text_def)
  moreover have "split_once_ws (kh_text e) = Some (join_with 44 (fst e), join_with 32 (snd e))"
    unfolding kh_text_def by (rule split_once_visible [OF hosts_visible [OF hs(1)]])
  moreover have "filter (\<lambda>h. h \<noteq> []) (fst e) = fst e"
    using hs(1) by (intro filter_True) (auto simp: list_all_iff word_ok_def)
  ultimately show ?thesis
    using kh_text_tidy [OF assms] trim_tidy trim_tidy [OF join_words(1) [OF ws]] split_on_join [OF hs(2,3)]
    by (auto simp: kh_line_def Let_def split: option.split)
qed

section \<open>Properties\<close>

text \<open>C34: A recorded key is trusted for the hosts it was recorded for and no other. Of a \<^verbatim>\<open>known_hosts\<close> file with any
  lines of host names and key words, a key is trusted for a host precisely when a line names that very host
  and carries that key.\<close>

theorem known_hosts_binds:
  assumes "\<forall>e\<in>set entries. kh_entry_ok e"
  shows "kh_is_trusted host key (kh_parse P K (concat (map (\<lambda>e. kh_text e @ [10]) entries))) \<longleftrightarrow>
    (\<exists>(hosts, key_words)\<in>set entries. host \<in> set hosts \<and> host_key_from_openssh P K (join_with 32 key_words) = Some key)"
proof -
  have "lines (concat (map (\<lambda>l. l @ [10]) (map kh_text entries))) = map kh_text entries"
    using assms kh_text_tidy by (intro lines_ended) (fastforce simp: tidy_def ascii_space_def)
  then have "set (kh_entries (kh_parse P K (concat (map (\<lambda>e. kh_text e @ [10]) entries)))) =
      (\<Union>e\<in>set entries. set (kh_line P K (kh_text e)))"
    by (simp add: kh_parse_def o_def)
  then show ?thesis using assms kh_line_text [of _ P K]
    by (fastforce simp: kh_is_trusted_def list_ex_iff split: option.splits)
qed

text \<open>A key format that knows one public key, and writes a private key as its bytes where these are a text.\<close>

definition sample_format :: ssh_key_format where
  "sample_format =
     \<lparr>public_from_openssh = (\<lambda>s. if s = str ''ssh-ed25519 AAAA'' then Some (Ed25519Data (replicate 32 9)) else None),
      private_from_openssh = (\<lambda>pem. Some (Ed25519Data pem)),
      private_to_openssh = (\<lambda>seed. if utf8_ok seed then Some seed else None)\<rparr>"

theorem known_hosts_binds_witness:
  "kh_is_trusted (str ''b'') \<lparr>hp_verifying = replicate 32 9\<rparr>
     (kh_parse sample_prims sample_format (str ''a,b ssh-ed25519 AAAA'' @ [10])) \<and>
   \<not> kh_is_trusted (str ''c'') \<lparr>hp_verifying = replicate 32 9\<rparr>
     (kh_parse sample_prims sample_format (str ''a,b ssh-ed25519 AAAA'' @ [10]))"
proof -
  let ?e = "([str ''a'', str ''b''], [str ''ssh-ed25519'', str ''AAAA''])"
  have ok: "\<forall>e\<in>set [?e]. kh_entry_ok e" by (simp add: kh_entry_ok_def word_ok_def ascii_space_def str_def)
  have t: "kh_text ?e = str ''a,b ssh-ed25519 AAAA''" by (simp add: kh_text_def str_def)
  have k: "host_key_from_openssh sample_prims sample_format (join_with 32 (snd ?e)) = Some \<lparr>hp_verifying = replicate 32 9\<rparr>"
    by (simp add: host_key_from_openssh_def sample_format_def str_def ok_of_def host_from_ed25519_bytes_def sample_prims_def)
  have "str ''b'' \<noteq> str ''c''" "str ''a'' \<noteq> str ''c''" by (simp_all add: str_def)
  with known_hosts_binds [OF ok, of "str ''b''" "\<lparr>hp_verifying = replicate 32 9\<rparr>" sample_prims sample_format]
    known_hosts_binds [OF ok, of "str ''c''" "\<lparr>hp_verifying = replicate 32 9\<rparr>" sample_prims sample_format] k
  show ?thesis by (simp add: t)
qed

text \<open>The server keeps its identity. If there was no key file and the first start succeeded, the file holds the key
  with access for the owner only, and every later start, whatever randomness it has, uses that same key
  and leaves the file alone, provided the key format reads what it writes.\<close>

theorem host_key_stable:
  assumes "\<And>seed pem. private_to_openssh K seed = Some pem \<Longrightarrow> utf8_ok pem \<and> private_from_openssh K pem = Some (Ed25519Data seed)"
    and "fs path = None"
    and "load_or_create_host_key P K False open_fault write_fault path r fs = (Inr key, r', fs')"
  shows "(\<exists>pem. fs' = fs(path \<mapsto> \<lparr>f_mode = 384, f_bytes = pem\<rparr>)) \<and>
    load_or_create_host_key P K False open_fault' write_fault' path r'' fs' = (Inr key, r'', fs') \<and>
    load_host_key K False path fs' = Inr key"
  using assms
  by (auto simp: load_or_create_host_key_def load_host_key_def save_host_key_def write_private_def read_to_string_def
      from_pem_def host_from_openssh_def host_to_openssh_def host_key_from_seed_def Let_def
      split: prod.splits option.splits if_splits sum.splits)

theorem host_key_stable_witness:
  "\<exists>fs'. load_or_create_host_key sample_prims sample_format False False False (str ''key'') 7 Map.empty =
       (Inr \<lparr>hk_signing = replicate 32 7\<rparr>, 8, fs') \<and>
     load_or_create_host_key sample_prims sample_format False False False (str ''key'') 99 fs' =
       (Inr \<lparr>hk_signing = replicate 32 7\<rparr>, 99, fs') \<and> load_host_key sample_format False (str ''key'') fs' = Inr \<lparr>hk_signing = replicate 32 7\<rparr>"
proof -
  let ?c = "load_or_create_host_key sample_prims sample_format False False False (str ''key'') 7 Map.empty"
  have f: "utf8_ok pem \<and> private_from_openssh sample_format pem = Some (Ed25519Data k)" if "private_to_openssh sample_format k = Some pem" for k pem
    using that by (auto simp: sample_format_def split: if_splits)
  have c: "?c = (Inr \<lparr>hk_signing = replicate 32 7\<rparr>, 8, snd (snd ?c))"
    using utf8_ok_ascii [of "replicate 32 7"]
    by (simp add: load_or_create_host_key_def read_to_string_def host_key_generate_def sample_prims_def save_host_key_def
        sample_format_def write_private_def host_to_openssh_def)
  from host_key_stable [of sample_format, OF f _ c] c show ?thesis by (metis (no_types, lifting))
qed

end
