(* ===== verification/Server_Program.thy ===== *)
theory Server_Program
  imports Serve_Safety Listener Keystore
begin

text \<open>
  The command-line server (\<^verbatim>\<open>crates/ssh-server/src/main.rs\<close>): its accounts, the commands it offers, and the defences it
  starts the listener with.
\<close>

record demo_policy =
  dp_username :: bytes
  dp_password :: bytes
  dp_authorized_keys :: authorized_keys
  dp_max_auth_attempts :: u32

definition demo_banner :: "demo_policy \<Rightarrow> bytes option \<times> demo_policy" where
  "demo_banner p = (Some (str ''rust_ssh demo server'' @ [10]), p)"

definition demo_verify_password :: "bytes \<Rightarrow> bytes \<Rightarrow> demo_policy \<Rightarrow> bool \<times> demo_policy" where
  "demo_verify_password user password p = (user = dp_username p \<and> password = dp_password p, p)"

definition demo_is_authorized_key :: "bytes \<Rightarrow> user_public_key \<Rightarrow> demo_policy \<Rightarrow> bool \<times> demo_policy" where
  "demo_is_authorized_key user key p = (ak_contains key (dp_authorized_keys p), p)"

definition demo_auth :: "demo_policy auth_handler" where
  "demo_auth = default_auth_handler
     \<lparr>h_banner := demo_banner, h_verify_password := demo_verify_password,
      h_is_authorized_key := demo_is_authorized_key, h_max_auth_attempts := dp_max_auth_attempts\<rparr>"

datatype demo_handler = CatHandler | SystemRunner

definition build_context :: "bool \<Rightarrow> demo_handler exec_context" where
  "build_context restricted =
     (let ctx = on_exec (str ''cat'') CatHandler context_new in
      if restricted then ctx else on_shell SystemRunner (on_unmatched_exec SystemRunner ctx))"

text \<open>What \<^verbatim>\<open>main\<close> puts together: the keys that may log in, the table of bans, the gates, and a session for a peer.\<close>

definition demo_authorized_keys ::
    "('r, 'z) prims \<Rightarrow> ssh_key_format \<Rightarrow> bool \<Rightarrow> bytes option \<Rightarrow> files \<Rightarrow> authorized_keys" where
  "demo_authorized_keys P K fault env fs =
     (case env of
        Some path \<Rightarrow> (case ak_load P K fault path fs of Inr ak \<Rightarrow> ak | Inl _ \<Rightarrow> ak_default)
      | None \<Rightarrow> ak_default)"

definition demo_fail2ban :: fail2ban where
  "demo_fail2ban = f2b_new 6 3 (300 * 10 ^ 9)"

definition demo_defense :: "'q semaphore \<Rightarrow> nat \<Rightarrow> 'f \<Rightarrow> 'f \<Rightarrow> ('f, 'q, fail2ban) defense" where
  "demo_defense Q now fifty hundred =
     with_policy demo_fail2ban (defense_new (limiter_new Q 256 (Some 8)) (rate_limiter_new now fifty hundred))"

definition make_connection ::
    "('r, 'z) prims \<Rightarrow> 'r \<Rightarrow> host_key \<Rightarrow> authorized_keys \<Rightarrow> fail2ban \<Rightarrow> (('r, 'z, demo_policy) server, unit) outcome" where
  "make_connection P rng host_key keys fail2ban =
     server_new P rng host_key
       \<lparr>dp_username = str ''myuser'', dp_password = str ''mysecretpassword'', dp_authorized_keys = keys,
        dp_max_auth_attempts = f2b_max_auth_attempts fail2ban\<rparr>"

lemma demo_auth_ok: "handler_ok demo_auth"
  by (simp add: handler_ok_def demo_auth_def demo_banner_def default_auth_handler_def METHOD_PUBLICKEY_def METHOD_PASSWORD_def
      str_def length_join_with)

lemma restricted_context:
  "exec_handler command (build_context True) =
     (if split_whitespace command \<noteq> [] \<and> hd (split_whitespace command) = str ''cat'' then Some CatHandler else None)"
  "subsystem_handler name (build_context True) = None" "shell_handler (build_context True) = None"
  by (auto simp: build_context_def exec_handler_def subsystem_handler_def shell_handler_def on_exec_def context_new_def str_def
      split: list.split)

section \<open>Properties\<close>

text \<open>C22: A restricted server runs nothing but \<^verbatim>\<open>cat\<close>. Started with \<^verbatim>\<open>SSH_RESTRICTED\<close>, whatever a peer sends, the only handler
  that is ever spawned is the in-process one, for a logged-in user and a command whose first word is
  \<^verbatim>\<open>cat\<close>; no process is started.\<close>

theorem restricted_runs_only_cat:
  assumes "prims_safe P" and "server_wf P connection"
    and "serve_with P demo_auth connection (build_context True) config peer turns = Go () s \<or>
      serve_with P demo_auth connection (build_context True) config peer turns = Stop e s"
    and "Spawned h command pty \<in> set (sv_log s)"
  shows "h = CatHandler \<and> (\<exists>args. split_whitespace command = str ''cat'' # args) \<and> server_is_authenticated (sv_session s)"
proof -
  have "serving_ok P demo_auth (build_context True) s"
    using safe.keep_serve [OF serving_ok_new [OF assms(1) demo_auth_ok assms(2)], of "build_context True" config peer turns] assms(3)
    by auto
  then have "registered (build_context True) h command" "logged_in (sv_session s)"
    using assms(4) by (auto simp: serving_ok_def)
  then show ?thesis
    by (cases "split_whitespace command")
      (auto simp: registered_def restricted_context logged_in_def server_is_authenticated_def split: if_splits)
qed

definition sample_policy :: demo_policy where
  "sample_policy = \<lparr>dp_username = str ''root'', dp_password = str ''letmein'', dp_authorized_keys = ak_default, dp_max_auth_attempts = 6\<rparr>"

theorem restricted_runs_only_cat_witness:
  "\<exists>s. serve_with sample_prims demo_auth (sample_asked sample_policy) (build_context True) serve_config_default None
      [(Flushed None, Read (ReadOk [0]), None)] = Go () s \<and> Spawned CatHandler (str ''cat notes'') None \<in> set (sv_log s) \<and>
     server_is_authenticated (sv_session s)"
proof -
  have x: "exec_handler (str ''cat notes'') (build_context True) = Some CatHandler"
    by (simp add: restricted_context sample_word)
  obtain s where s: "serve_with sample_prims demo_auth (sample_asked sample_policy) (build_context True) serve_config_default None
      [(Flushed None, Read (ReadOk [0]), None)] = Go () s" "Spawned CatHandler (str ''cat notes'') None \<in> set (sv_log s)"
    using sample_served [OF x, of demo_auth sample_policy] by blast
  from restricted_runs_only_cat [OF sample_safe sample_asked_wf disjI1 [OF s(1)] s(2)] s show ?thesis by blast
qed

end
