(* ===== verification/Client_Program.thy ===== *)
theory Client_Program
  imports Client_Safety Keystore
begin

text \<open>
  The credentials and the trust of the command-line client (\<^verbatim>\<open>DemoClient\<close> of \<^verbatim>\<open>crates/ssh-client/src/main.rs\<close>): the
  application behind the client session, with the host keys it was given.
\<close>

record demo_client =
  dc_user :: bytes
  dc_password :: "bytes option"
  dc_known_hosts :: "known_hosts option"
  dc_host :: bytes

definition demo_verify_host_key :: "host_public_key \<Rightarrow> demo_client \<Rightarrow> bool \<times> demo_client" where
  "demo_verify_host_key key c =
     (case dc_known_hosts c of
        Some kh \<Rightarrow> if kh_is_trusted (dc_host c) key kh then True else False
      | None \<Rightarrow> True, c)"

definition demo_next_auth :: "bytes list \<Rightarrow> demo_client \<Rightarrow> auth_attempt option \<times> demo_client" where
  "demo_next_auth can_continue c = (map_option AttemptPassword (dc_password c), c\<lparr>dc_password := None\<rparr>)"

definition demo_client_handler :: "demo_client client_handler" where
  "demo_client_handler =
     \<lparr>ch_username = dc_user, ch_verify_host_key = demo_verify_host_key, ch_next_auth = demo_next_auth\<rparr>"

text \<open>As \<^verbatim>\<open>main\<close> sets it up: the path of the trusted keys is that of an environment variable, if set.\<close>

definition demo_client_new ::
    "('r, 'z) prims \<Rightarrow> ssh_key_format \<Rightarrow> bool \<Rightarrow> bytes option \<Rightarrow> files \<Rightarrow> bytes \<Rightarrow> bytes \<Rightarrow> bytes \<Rightarrow> demo_client" where
  "demo_client_new P K fault env fs addr user password =
     \<lparr>dc_user = user, dc_password = Some password,
      dc_known_hosts =
        (case env of
           None \<Rightarrow> None
         | Some path \<Rightarrow> (case kh_load P K fault path fs of Inr kh \<Rightarrow> Some kh | Inl _ \<Rightarrow> None)),
      dc_host = addr\<rparr>"

definition demo_session_new ::
    "('r, 'z) prims \<Rightarrow> 'r \<Rightarrow> bool \<Rightarrow> demo_client \<Rightarrow> (('r, 'z, demo_client) client, unit) outcome" where
  "demo_session_new P rng compression demo =
     (if compression then client_with_compression_preference P rng demo [str ''zlib@openssh.com'', str ''none'']
      else client_new P rng demo)"

text \<open>A file that cannot be read turns the check off.\<close>

lemma unreadable_known_hosts_trusts:
  assumes "kh_load P K fault path fs = Inl e"
  shows "fst (demo_verify_host_key key (demo_client_new P K fault (Some path) fs addr user password)) = True"
  using assms by (simp add: demo_verify_host_key_def demo_client_new_def)

lemma demo_trusts_recorded:
  assumes "kh_load P K fault path fs = Inr kh"
  shows "fst (demo_verify_host_key key (demo_client_new P K fault (Some path) fs addr user password)) \<longleftrightarrow> kh_is_trusted addr key kh"
  using assms by (simp add: demo_verify_host_key_def demo_client_new_def)

section \<open>Properties\<close>

text \<open>The password goes to the recorded host only. Given a readable \<^verbatim>\<open>known_hosts\<close> file, a server that presents a key
  not recorded for the very address the user connected to gets one disconnect message and nothing else:
  whatever it sends afterwards, the session is closing, and what was written is still that output, or nothing.\<close>

theorem demo_client_checks_host:
  assumes "prims_safe P" and "kh_load P K fault path fs = Inr kh" and "\<not> kh_is_trusted addr key kh"
    and "c_handler s = demo_client_new P K fault (Some path) fs addr user password" and "\<not> client_is_closing s"
    and "t_events (c_transport s) = ServerHostKey key # es"
    and "(client_step P demo_client_handler)\<^sup>*\<^sup>* (snd (client_pump P demo_client_handler s)) s'"
  shows "\<exists>t. write_packet P (disconnect_msg disconnect_KEY_EXCHANGE_FAILED (str ''host key rejected''))
      ((c_transport s)\<lparr>t_events := es\<rparr>) = (Ok (), t) \<and>
    client_is_closing s' \<and> c_host_rejected s' \<and> (t_tx (c_transport s') = t_tx t \<or> t_tx (c_transport s') = [])"
proof (rule host_refused [OF assms(1) _ assms(5-7)])
  show "\<not> fst (ch_verify_host_key demo_client_handler key (c_handler s))"
    using demo_trusts_recorded [OF assms(2), of key] assms(3,4) by (simp add: demo_client_handler_def)
qed

definition sample_known_hosts :: files where
  "sample_known_hosts = [str ''kh'' \<mapsto> \<lparr>f_mode = 420, f_bytes = str ''a,b ssh-ed25519 AAAA'' @ [10]\<rparr>]"

definition sample_demo :: "(nat, nat, demo_client) client" where
  "sample_demo = client_with_transport
     ((transport_init Client 0 None None None)\<lparr>t_events := [ServerHostKey \<lparr>hp_verifying = replicate 32 1\<rparr>]\<rparr>)
     (demo_client_new sample_prims sample_format False (Some (str ''kh'')) sample_known_hosts (str ''a'') (str ''me'') (str ''pw''))"

lemma sample_kh_load:
  "\<exists>kh. kh_load sample_prims sample_format False (str ''kh'') sample_known_hosts = Inr kh \<and>
     \<not> kh_is_trusted (str ''a'') \<lparr>hp_verifying = replicate 32 1\<rparr> kh"
proof -
  have "replicate 32 1 \<noteq> replicate 32 (9 :: byte)" by (simp add: replicate_eq_replicate)
  then have line: "\<not> list_ex (\<lambda>(h, hk). h = host \<and> hk = \<lparr>hp_verifying = replicate 32 1\<rparr>) (kh_line sample_prims sample_format l)" for host l
    by (auto simp: kh_line_def host_key_from_openssh_def sample_format_def ok_of_def host_from_ed25519_bytes_def sample_prims_def
        Let_def list_ex_iff split: option.splits if_splits)
  have "utf8_ok (str ''a,b ssh-ed25519 AAAA'' @ [10])" by (rule utf8_ok_ascii) (simp add: str_def)
  then show ?thesis using line
    by (fastforce simp: kh_load_def read_to_string_def sample_known_hosts_def kh_is_trusted_def kh_parse_def list_ex_iff)
qed

theorem demo_client_checks_host_witness:
  "client_is_closing (snd (client_pump sample_prims demo_client_handler sample_demo)) \<and>
   c_host_rejected (snd (client_pump sample_prims demo_client_handler sample_demo))"
proof -
  obtain kh where kh: "kh_load sample_prims sample_format False (str ''kh'') sample_known_hosts = Inr kh"
    "\<not> kh_is_trusted (str ''a'') \<lparr>hp_verifying = replicate 32 1\<rparr> kh" using sample_kh_load by blast
  have h: "c_handler sample_demo = demo_client_new sample_prims sample_format False (Some (str ''kh'')) sample_known_hosts
      (str ''a'') (str ''me'') (str ''pw'')" "\<not> client_is_closing sample_demo"
    "t_events (c_transport sample_demo) = ServerHostKey \<lparr>hp_verifying = replicate 32 1\<rparr> # []"
    by (simp_all add: sample_demo_def client_with_transport_def client_is_closing_def transport_init_def)
  from demo_client_checks_host [OF sample_safe kh h rtranclp.rtrancl_refl] show ?thesis by blast
qed

end
