(* ===== verification/Client_Run.thy ===== *)
theory Client_Run
  imports Client_Program Serve
begin

text \<open>
  The command-line client at work (\<^verbatim>\<open>crates/ssh-client/src/main.rs\<close>) on the socket driver (\<^verbatim>\<open>next_event\<close>, \<^verbatim>\<open>flush\<close> and \<^verbatim>\<open>read_once\<close> of
  \<^verbatim>\<open>crates/ssh-io/src/lib.rs\<close>): logging in, asking for a command or a shell, and carrying bytes until the channel closes.
  What the socket and the terminal do is given: what each read returns, which branch of \<^verbatim>\<open>select!\<close> fires, and
  which writes fail, by how much has been done so far. What the program does is recorded in the log, the events it takes from
  the session included; the lines it prints about itself are not.
\<close>

datatype client_action = ToSocket bytes | Polled client_event | PrintOut bytes | PrintErr bytes

record io_faults =
  io_socket :: "nat \<Rightarrow> io_kind option"
  io_print :: "nat \<Rightarrow> io_kind option"

record ('r, 'z) running =
  cr_session :: "('r, 'z, demo_client) client"
  cr_stdin_open :: bool
  cr_exit_status :: "u32 option"
  cr_log :: "client_action list"

definition running_new :: "('r, 'z, demo_client) client \<Rightarrow> ('r, 'z) running" where
  "running_new session = \<lparr>cr_session = session, cr_stdin_open = True, cr_exit_status = None, cr_log = []\<rparr>"

definition client_act :: "client_action \<Rightarrow> ('r, 'z) running \<Rightarrow> ('r, 'z) running" where
  "client_act a s = s\<lparr>cr_log := cr_log s @ [a]\<rparr>"

text \<open>An answer, or still waiting for the socket.\<close>

datatype 'a wait = Got 'a | Waiting

section \<open>The driver\<close>

text \<open>A call on the session with the \<^verbatim>\<open>?\<close> behind it.\<close>

definition on_client ::
    "(('r, 'z, demo_client) client \<Rightarrow> (('r, 'z, demo_client) client, 'a) outcome) \<Rightarrow> ('r, 'z) running \<Rightarrow>
     ('a, ('r, 'z) running) flow" where
  "on_client f s =
     (case f (cr_session s) of
        (Ok x, c) \<Rightarrow> Go x (s\<lparr>cr_session := c\<rparr>)
      | (Err e, c) \<Rightarrow> Stop (Failed (DriveProtocol e)) (s\<lparr>cr_session := c\<rparr>)
      | (Crash m, c) \<Rightarrow> Stop (Panicked m) (s\<lparr>cr_session := c\<rparr>))"

definition client_flush :: "io_faults \<Rightarrow> ('r, 'z) running \<Rightarrow> (unit, ('r, 'z) running) flow" where
  "client_flush E s =
     (let out = t_tx (c_transport (cr_session s)) in
      if out \<noteq> [] then
        case io_socket E (length (cr_log s)) of
          Some e \<Rightarrow> Stop (Failed (DriveIo e)) s
        | None \<Rightarrow> Go () ((client_act (ToSocket out) s)\<lparr>cr_session := client_clear_output (cr_session s)\<rparr>)
      else Go () s)"

definition client_read_once ::
    "('r, 'z) prims \<Rightarrow> socket_read \<Rightarrow> ('r, 'z) running \<Rightarrow> (bool, ('r, 'z) running) flow" where
  "client_read_once P read s =
     (case read of
        ReadErr e \<Rightarrow> if is_disconnect e then Go False s else Stop (Failed (DriveIo e)) s
      | ReadOk data \<Rightarrow>
          if data = [] then Go False s
          else thenGo (on_client (client_on_input P demo_client_handler data) s) (\<lambda>_ s. Go True s))"

text \<open>The next event of the session, reading as needed; \<open>None\<close> at the end of the stream. Also what is left to read.\<close>

fun next_event ::
    "io_faults \<Rightarrow> ('r, 'z) prims \<Rightarrow> socket_read list \<Rightarrow> ('r, 'z) running \<Rightarrow>
     (client_event option wait \<times> socket_read list, ('r, 'z) running) flow" where
  "next_event E P reads s =
     (case client_poll_event (cr_session s) of
        (Some e, c) \<Rightarrow> thenGo (client_flush E (s\<lparr>cr_session := c\<rparr>)) (\<lambda>_ s. Go (Got (Some e), reads) s)
      | (None, c) \<Rightarrow>
          thenGo (client_flush E (s\<lparr>cr_session := c\<rparr>)) (\<lambda>_ s.
            case reads of
              [] \<Rightarrow> Go (Waiting, []) s
            | ReadErr e # reads \<Rightarrow> if is_disconnect e then Go (Got None, reads) s else Stop (Failed (DriveIo e)) s
            | ReadOk data # reads \<Rightarrow>
                if data = [] then Go (Got None, reads) s
                else thenGo (on_client (client_on_input P demo_client_handler data) s) (\<lambda>_ s. next_event E P reads s)))"

declare next_event.simps [simp del]

lemma client_flush_events [simp]: "client_flush E s = Go u s' \<Longrightarrow> c_events (cr_session s') = c_events (cr_session s)"
  by (auto simp: client_flush_def client_act_def client_clear_output_def Let_def split: if_splits option.splits)

lemma thenGo_Go: "thenGo m k = Go x s \<longleftrightarrow> (\<exists>a t. m = Go a t \<and> k a t = Go x s)"
  by (cases m) (simp_all add: thenGo_def)

lemma next_event_shrinks:
  "next_event E P reads s = Go (Got (Some e), reads') s' \<Longrightarrow>
    length reads' < length reads \<or> reads' = reads \<and> length (c_events (cr_session s')) < length (c_events (cr_session s))"
proof (induction reads arbitrary: s)
  case Nil
  then show ?case
    by (cases "c_events (cr_session s)") (auto simp: next_event.simps [of E P "[]" s] client_poll_event_def thenGo_Go)
next
  case (Cons r rest)
  show ?case
  proof (cases "c_events (cr_session s)")
    case Nil
    have "\<exists>t. next_event E P rest t = Go (Got (Some e), reads') s'"
      using Cons.prems [unfolded next_event.simps [of E P "r # rest" s]]
      by (cases r) (auto simp: client_poll_event_def Nil thenGo_Go split: if_splits)
    then show ?thesis using Cons.IH by fastforce
  next
    case (Cons a list)
    then show ?thesis using Cons.prems
      by (auto simp: next_event.simps [of E P "r # rest" s] client_poll_event_def thenGo_Go)
  qed
qed

section \<open>Logging in\<close>

text \<open>What an event means for the login: \<open>Some None\<close>, it succeeded, \<open>Some\<close> of a code, the session ended before; \<open>None\<close>, go on.\<close>

definition login_event :: "client_event \<Rightarrow> int option option" where
  "login_event e =
     (case e of
        ClAuthenticated \<Rightarrow> Some None
      | ClAuthFailed _ \<Rightarrow> Some (Some 1)
      | HostKeyRejected \<Rightarrow> Some (Some 1)
      | ClDisconnect _ _ \<Rightarrow> Some (Some 1)
      | _ \<Rightarrow> None)"

function authenticate ::
    "io_faults \<Rightarrow> ('r, 'z) prims \<Rightarrow> socket_read list \<Rightarrow> ('r, 'z) running \<Rightarrow> (int option wait, ('r, 'z) running) flow" where
  "authenticate E P reads s =
     (case next_event E P reads s of
        Stop x s \<Rightarrow> Stop x s
      | Go (Waiting, reads) s \<Rightarrow> Go Waiting s
      | Go (Got None, reads) s \<Rightarrow> Go (Got (Some 1)) s
      | Go (Got (Some e), reads) s \<Rightarrow>
          (case login_event e of
             Some code \<Rightarrow> Go (Got code) s
           | None \<Rightarrow> authenticate E P reads s))"
  by pat_completeness auto
termination
  by (relation "measures [\<lambda>(E, P, reads, s). length reads, \<lambda>(E, P, reads, s). length (c_events (cr_session s))]")
    (use next_event_shrinks in fastforce)+

declare authenticate.simps [simp del]

section \<open>The session\<close>

definition exit_code :: "u32 option \<Rightarrow> u32 \<Rightarrow> int" where
  "exit_code status otherwise = sint (case status of Some c \<Rightarrow> c | None \<Rightarrow> otherwise)"

text \<open>One event; \<open>Some\<close> code where the program is to return it.\<close>

definition print :: "io_faults \<Rightarrow> client_action \<Rightarrow> ('r, 'z) running \<Rightarrow> (int option, ('r, 'z) running) flow" where
  "print E a s =
     (case io_print E (length (cr_log s)) of
        Some e \<Rightarrow> Stop (Failed (DriveIo e)) s
      | None \<Rightarrow> Go None (client_act a s))"

definition session_event :: "io_faults \<Rightarrow> client_event \<Rightarrow> ('r, 'z) running \<Rightarrow> (int option, ('r, 'z) running) flow" where
  "session_event E e s =
     (case e of
        client_event.Stdout data \<Rightarrow> print E (PrintOut data) s
      | client_event.Stderr data \<Rightarrow> print E (PrintErr data) s
      | ExitStatus status \<Rightarrow> Go None (s\<lparr>cr_exit_status := Some status\<rparr>)
      | RequestFailed \<Rightarrow> Go None (s\<lparr>cr_exit_status := Some 1\<rparr>)
      | ChannelClosed \<Rightarrow> Go (Some (exit_code (cr_exit_status s) 0)) s
      | ChannelOpenFailure _ _ \<Rightarrow> Go (Some 1) s
      | ClDisconnect _ _ \<Rightarrow> Go (Some (exit_code (cr_exit_status s) 1)) s
      | _ \<Rightarrow> Go None s)"

lemma session_event_events: "session_event E e s = Go r s' \<Longrightarrow> cr_session s' = cr_session s"
  by (auto simp: session_event_def print_def client_act_def split: client_event.splits option.splits)

function drain_events :: "io_faults \<Rightarrow> ('r, 'z) running \<Rightarrow> (int option, ('r, 'z) running) flow" where
  "drain_events E s =
     (case client_poll_event (cr_session s) of
        (None, c) \<Rightarrow> Go None (s\<lparr>cr_session := c\<rparr>)
      | (Some e, c) \<Rightarrow>
          (case session_event E e (client_act (Polled e) (s\<lparr>cr_session := c\<rparr>)) of
             Stop x s \<Rightarrow> Stop x s
           | Go (Some code) s \<Rightarrow> Go (Some code) s
           | Go None s \<Rightarrow> drain_events E s))"
  by pat_completeness auto
termination
  by (relation "measure (\<lambda>(E, s). length (c_events (cr_session s)))")
    (auto simp: client_poll_event_def client_act_def dest!: session_event_events split: list.splits)

declare drain_events.simps [simp del]

datatype turn_source = FromSocket socket_read | FromStdin "bytes option"

text \<open>One round of the loop: flush, then the branch of \<^verbatim>\<open>select!\<close> that fires. The input branch is off once the input has
  ended.\<close>

definition session_turn :: "io_faults \<Rightarrow> ('r, 'z) prims \<Rightarrow> turn_source \<Rightarrow> ('r, 'z) running \<Rightarrow> (int option wait, ('r, 'z) running) flow" where
  "session_turn E P turn s =
     thenGo (client_flush E s) (\<lambda>_ s.
       case turn of
         FromSocket read \<Rightarrow>
           thenGo (client_read_once P read s) (\<lambda>more s.
             if \<not> more then Go (Got (Some (exit_code (cr_exit_status s) 0))) s
             else thenGo (drain_events E s) (\<lambda>r s. Go (Got r) s))
       | FromStdin input \<Rightarrow>
           if \<not> cr_stdin_open s then Go Waiting s
           else
             (case input of
                Some chunk \<Rightarrow> thenGo (on_client (client_write_stdin P (crlf_to_lf chunk)) s) (\<lambda>_ s. Go (Got None) s)
              | None \<Rightarrow> thenGo (on_client (client_send_eof P) (s\<lparr>cr_stdin_open := False\<rparr>)) (\<lambda>_ s. Go (Got None) s)))"

fun run_session ::
    "io_faults \<Rightarrow> ('r, 'z) prims \<Rightarrow> turn_source list \<Rightarrow> ('r, 'z) running \<Rightarrow> (int wait, ('r, 'z) running) flow" where
  "run_session E P [] s = Go Waiting s"
| "run_session E P (turn # turns) s =
     thenGo (session_turn E P turn s) (\<lambda>r s.
       case r of Got (Some code) \<Rightarrow> Go (Got code) s | Got None \<Rightarrow> run_session E P turns s | Waiting \<Rightarrow> Go Waiting s)"

section \<open>The program\<close>

text \<open>\<^verbatim>\<open>main\<close> behind the connection to the server: the exit code of the program.\<close>

definition client_main ::
    "io_faults \<Rightarrow> ('r, 'z) prims \<Rightarrow> bytes option \<Rightarrow> bool \<Rightarrow> socket_read list \<Rightarrow> turn_source list \<Rightarrow>
     ('r, 'z, demo_client) client \<Rightarrow> (int wait, ('r, 'z) running) flow" where
  "client_main E P command rekey reads turns session =
     thenGo (authenticate E P reads (running_new session)) (\<lambda>r s.
       case r of
         Waiting \<Rightarrow> Go Waiting s
       | Got (Some code) \<Rightarrow> Go (Got code) s
       | Got None \<Rightarrow>
           thenGo (on_client (case command of Some cmd \<Rightarrow> client_exec P cmd | None \<Rightarrow> client_shell P) s) (\<lambda>_ s.
           thenGo (if rekey then on_client (client_initiate_rekey P) s else Go () s) (\<lambda>_ s.
           run_session E P turns s)))"

section \<open>What the program owes its caller\<close>

text \<open>The events taken and the bytes printed, from the log.\<close>

fun polled :: "client_action list \<Rightarrow> client_event list" where
  "polled [] = []"
| "polled (Polled e # as) = e # polled as"
| "polled (_ # as) = polled as"

fun printed_out :: "client_action list \<Rightarrow> bytes" where
  "printed_out [] = []"
| "printed_out (PrintOut d # as) = d @ printed_out as"
| "printed_out (_ # as) = printed_out as"

fun printed_err :: "client_action list \<Rightarrow> bytes" where
  "printed_err [] = []"
| "printed_err (PrintErr d # as) = d @ printed_err as"
| "printed_err (_ # as) = printed_err as"

text \<open>What the events of a session amount to: the remote output, the last status reported, and the event that ends
  it.\<close>

fun out_data :: "client_event \<Rightarrow> bytes" where
  "out_data (client_event.Stdout d) = d"
| "out_data _ = []"

fun err_data :: "client_event \<Rightarrow> bytes" where
  "err_data (client_event.Stderr d) = d"
| "err_data _ = []"

fun reported :: "client_event \<Rightarrow> u32 option" where
  "reported (ExitStatus c) = Some c"
| "reported RequestFailed = Some 1"
| "reported _ = None"

definition last_status :: "client_event list \<Rightarrow> u32 option" where
  "last_status es = (let cs = List.map_filter reported es in if cs = [] then None else Some (last cs))"

fun ends :: "client_event \<Rightarrow> bool" where
  "ends ChannelClosed = True"
| "ends (ChannelOpenFailure _ _) = True"
| "ends (ClDisconnect _ _) = True"
| "ends _ = False"

text \<open>The exit code of a session: that of the remote program, read as a signed number. Without a report it is 0 where the
  channel closed or the stream ended, and 1 where the server disconnected; a channel that could not be opened
  is 1.\<close>

definition verdict :: "client_event list \<Rightarrow> int" where
  "verdict es =
     (case find ends es of
        Some (ChannelOpenFailure _ _) \<Rightarrow> 1
      | Some (ClDisconnect _ _) \<Rightarrow> exit_code (last_status es) 1
      | _ \<Rightarrow> exit_code (last_status es) 0)"

text \<open>Nothing printed but the remote output, all of it; the status is the last one reported; nothing that ends the
  session was seen.\<close>

definition books :: "('r, 'z) running \<Rightarrow> bool" where
  "books s \<longleftrightarrow> printed_out (cr_log s) = concat (map out_data (polled (cr_log s))) \<and>
     printed_err (cr_log s) = concat (map err_data (polled (cr_log s))) \<and>
     cr_exit_status s = last_status (polled (cr_log s))"

definition going :: "('r, 'z) running \<Rightarrow> bool" where
  "going s \<longleftrightarrow> books s \<and> (\<forall>e\<in>set (polled (cr_log s)). \<not> ends e)"

lemma polled_append [simp]: "polled (as @ bs) = polled as @ polled bs"
  by (induction as rule: polled.induct) simp_all

lemma printed_append [simp]:
  "printed_out (as @ bs) = printed_out as @ printed_out bs \<and> printed_err (as @ bs) = printed_err as @ printed_err bs"
  by (induction as rule: printed_out.induct) simp_all

lemma last_status_snoc: "last_status (es @ [e]) = (case reported e of Some c \<Rightarrow> Some c | None \<Rightarrow> last_status es)"
  by (auto simp: last_status_def List.map_filter_def split: option.split)

lemma find_none: "\<forall>e\<in>set es. \<not> p e \<Longrightarrow> find p es = None"
  by (simp add: find_None_iff)

lemma find_snoc: "\<forall>e\<in>set es. \<not> p e \<Longrightarrow> find p (es @ [e]) = (if p e then Some e else None)"
  by (induction es) auto

lemma client_flush_going: "client_flush E s = Go u s' \<Longrightarrow> going s \<Longrightarrow> going s'"
  by (auto simp: client_flush_def client_act_def going_def books_def Let_def split: if_splits option.splits)

lemma on_client_going: "on_client f s = Go x s' \<Longrightarrow> going s \<Longrightarrow> going s'"
  by (auto simp: on_client_def going_def books_def split: prod.splits result.splits)

lemma client_read_once_going: "client_read_once P read s = Go x s' \<Longrightarrow> going s \<Longrightarrow> going s'"
  by (auto simp: client_read_once_def thenGo_Go on_client_going split: socket_read.splits if_splits)

text \<open>An event keeps the books, and ends the session exactly if it is one that does.\<close>

lemma session_event_books:
  assumes "going s" and "session_event E e (client_act (Polled e) s) = Go r s'"
  shows "books s' \<and> (case r of None \<Rightarrow> going s' | Some code \<Rightarrow> code = verdict (polled (cr_log s')))"
  using assms
  by (cases e) (auto simp: session_event_def print_def client_act_def going_def books_def verdict_def last_status_snoc find_snoc
    split: option.splits)

lemma drain_books:
  "going s \<Longrightarrow> drain_events E s = Go r s' \<Longrightarrow> books s' \<and> (case r of None \<Rightarrow> going s' | Some code \<Rightarrow> code = verdict (polled (cr_log s')))"
proof (induction E s arbitrary: r s' rule: drain_events.induct)
  case (1 E s)
  show ?case
  proof (cases "c_events (cr_session s)")
    case Nil
    then have "drain_events E s = Go None s"
      by (subst drain_events.simps) (simp add: client_poll_event_def)
    then show ?thesis using 1 by (simp add: going_def)
  next
    case (Cons e es)
    let ?s = "s\<lparr>cr_session := (cr_session s)\<lparr>c_events := es\<rparr>\<rparr>"
    have p: "client_poll_event (cr_session s) = (Some e, (cr_session s)\<lparr>c_events := es\<rparr>)" using Cons by (simp add: client_poll_event_def)
    have g: "going ?s" using 1(2) by (simp add: going_def books_def)
    obtain r1 s1 where s1: "session_event E e (client_act (Polled e) ?s) = Go r1 s1"
      using 1(3) p by (subst (asm) drain_events.simps) (auto split: flow.splits option.splits)
    note b = session_event_books [OF g s1]
    show ?thesis
    proof (cases r1)
      case None
      have "drain_events E s = drain_events E s1" using p s1 None by (subst drain_events.simps) simp
      then show ?thesis using 1(1) [OF p [symmetric] refl s1 None, of r s'] b None 1(3) by simp
    next
      case (Some code)
      have "drain_events E s = Go (Some code) s1" using p s1 Some by (subst drain_events.simps) simp
      then show ?thesis using b Some 1(3) by auto
    qed
  qed
qed

lemma session_turn_books:
  assumes "going s" and "session_turn E P turn s = Go r s'"
  shows "books s' \<and> (case r of Got (Some code) \<Rightarrow> code = verdict (polled (cr_log s')) | _ \<Rightarrow> going s')"
proof -
  obtain u s1 where s1: "client_flush E s = Go u s1" "going s1"
    using assms client_flush_going by (auto simp: session_turn_def thenGo_Go)
  show ?thesis
  proof (cases turn)
    case (FromSocket read)
    then obtain more' s2 where s2: "client_read_once P read s1 = Go more' s2" "going s2"
      using assms(2) s1 client_read_once_going [of P read s1] by (auto simp: session_turn_def thenGo_Go)
    then have v: "exit_code (cr_exit_status s2) 0 = verdict (polled (cr_log s2))"
      by (auto simp: going_def books_def verdict_def find_none)
    show ?thesis
    proof (cases "more'")
      case True
      then obtain r' where "drain_events E s2 = Go r' s'" "r = Got r'"
        using assms(2) FromSocket s1(1) s2(1) by (auto simp: session_turn_def thenGo_Go)
      then show ?thesis using drain_books [OF s2(2)] by (auto split: option.splits)
    next
      case False
      then show ?thesis using assms(2) FromSocket s1(1) s2 v by (auto simp: session_turn_def thenGo_def going_def)
    qed
  next
    case (FromStdin input)
    have "going (s1\<lparr>cr_stdin_open := False\<rparr>)" using s1(2) by (simp add: going_def books_def)
    then have "going s' \<and> (r = Waiting \<or> r = Got None)"
      using assms(2) FromStdin s1 on_client_going
      by (auto simp: session_turn_def thenGo_def split: if_splits option.splits flow.splits)
    then show ?thesis by (auto simp: going_def)
  qed
qed

lemma run_session_books:
  "going s \<Longrightarrow> run_session E P turns s = Go (Got code) s' \<Longrightarrow> books s' \<and> code = verdict (polled (cr_log s'))"
proof (induction turns arbitrary: s)
  case (Cons turn turns)
  then obtain r s1 where s1: "session_turn E P turn s = Go r s1" by (auto simp: thenGo_Go)
  note b = session_turn_books [OF Cons.prems(1) s1]
  show ?case
  proof (cases r)
    case (Got c)
    then show ?thesis using Cons b s1 by (cases c) (auto simp: thenGo_def)
  next
    case Waiting
    then show ?thesis using Cons.prems(2) s1 by (simp add: thenGo_def)
  qed
qed simp

text \<open>Before the login nothing is printed.\<close>

definition quiet :: "('r, 'z) running \<Rightarrow> bool" where
  "quiet s \<longleftrightarrow> polled (cr_log s) = [] \<and> printed_out (cr_log s) = [] \<and> printed_err (cr_log s) = [] \<and> cr_exit_status s = None"

lemma quiet_going: "quiet s \<Longrightarrow> going s"
  by (simp add: quiet_def going_def books_def last_status_def List.map_filter_def)

lemma client_flush_quiet: "client_flush E s = Go u s' \<Longrightarrow> quiet s \<Longrightarrow> quiet s'"
  by (auto simp: client_flush_def client_act_def quiet_def Let_def split: if_splits option.splits)

lemma on_client_quiet: "on_client f s = Go x s' \<Longrightarrow> quiet s \<Longrightarrow> quiet s'"
  by (auto simp: on_client_def quiet_def split: prod.splits result.splits)

lemma next_event_quiet: "next_event E P reads s = Go x s' \<Longrightarrow> quiet s \<Longrightarrow> quiet s'"
proof (induction reads arbitrary: s)
  case Nil
  have q: "quiet (s\<lparr>cr_session := c\<rparr>)" for c using Nil.prems(2) by (simp add: quiet_def)
  obtain e c where p: "client_poll_event (cr_session s) = (e, c)" by fastforce
  from Nil.prems(1) p obtain u where "client_flush E (s\<lparr>cr_session := c\<rparr>) = Go u s'"
    by (cases e) (auto simp: next_event.simps [of E P "[]" s] thenGo_Go)
  from client_flush_quiet [OF this q] show ?case .
next
  case (Cons r rest)
  have q: "quiet (s\<lparr>cr_session := c\<rparr>)" for c using Cons.prems(2) by (simp add: quiet_def)
  obtain e c where p: "client_poll_event (cr_session s) = (e, c)" by fastforce
  note ne = Cons.prems(1) [unfolded next_event.simps [of E P "r # rest" s] p]
  obtain u s1 where f: "client_flush E (s\<lparr>cr_session := c\<rparr>) = Go u s1"
    using ne by (cases e) (auto simp: thenGo_Go)
  note q1 = client_flush_quiet [OF f q]
  show ?case
  proof (cases "e = None \<and> (\<exists>data. r = ReadOk data \<and> data \<noteq> [])")
    case True
    then obtain data v s2 where o: "on_client (client_on_input P demo_client_handler data) s1 = Go v s2"
      and n: "next_event E P rest s2 = Go x s'"
      using ne f by (auto simp: thenGo_Go)
    show ?thesis by (rule Cons.IH [OF n on_client_quiet [OF o q1]])
  next
    case False
    then have "s' = s1" using ne f by (cases e; cases r) (auto simp: thenGo_def split: if_splits)
    then show ?thesis using q1 by simp
  qed
qed

lemma login_event_code: "login_event e = Some (Some code) \<Longrightarrow> code = 1"
  by (auto simp: login_event_def split: client_event.splits)

lemma authenticate_quiet:
  "authenticate E P reads s = Go r s' \<Longrightarrow> quiet s \<Longrightarrow> quiet s' \<and> (\<forall>code. r = Got (Some code) \<longrightarrow> code = 1)"
proof (induction E P reads s rule: authenticate.induct)
  case (1 E P reads s)
  note au = 1(2) [unfolded authenticate.simps [of E P reads s]]
  obtain y rest s1 where s1: "next_event E P reads s = Go (y, rest) s1" using au by (auto split: flow.splits)
  note q = next_event_quiet [OF s1 1(3)]
  show ?case
  proof (cases y)
    case (Got z)
    show ?thesis
    proof (cases z)
      case (Some e)
      show ?thesis
      proof (cases "login_event e")
        case None
        have "authenticate E P rest s1 = Go r s'" using au s1 Got Some None by simp
        from 1(1) [OF s1 refl Got Some None this q] show ?thesis .
      next
        case (Some l)
        have "r = Got l" "s' = s1" using au s1 Got \<open>z = Some e\<close> Some by simp_all
        then show ?thesis using q login_event_code Some by blast
      qed
    qed (use au s1 Got q in auto)
  qed (use au s1 q in auto)
qed

section \<open>Properties\<close>

text \<open>C19: The client prints what the remote program wrote and exits with its status. Whatever the server sends and however reads, input and
  writes interleave, a run that ends has printed exactly the data of the events it took, in order, each on its own
  stream, and nothing before the login. It exits with 1 if the login failed; otherwise
  with the last status the server reported, read as a signed number, or, without one, with what the event that
  ended the session says.\<close>

theorem client_reports_exit:
  assumes "client_main E P command rekey reads turns session = Go (Got code) s'"
  shows "printed_out (cr_log s') = concat (map out_data (polled (cr_log s'))) \<and>
    printed_err (cr_log s') = concat (map err_data (polled (cr_log s'))) \<and>
    (authenticate E P reads (running_new session) = Go (Got (Some code)) s' \<and> code = 1 \<and> polled (cr_log s') = [] \<or>
     (\<exists>s1. authenticate E P reads (running_new session) = Go (Got None) s1) \<and> code = verdict (polled (cr_log s')))"
proof -
  obtain r s1 where a: "authenticate E P reads (running_new session) = Go r s1"
    using assms by (auto simp: client_main_def thenGo_Go)
  have "quiet (running_new session)" by (simp add: quiet_def running_new_def)
  note q = authenticate_quiet [OF a this]
  show ?thesis
  proof (cases "r = Got None")
    case True
    obtain u s2 v s3 where s2: "on_client (case command of Some cmd \<Rightarrow> client_exec P cmd | None \<Rightarrow> client_shell P) s1 = Go u s2"
      and s3: "(if rekey then on_client (client_initiate_rekey P) s2 else Go () s2) = Go v s3"
      and run: "run_session E P turns s3 = Go (Got code) s'"
      using assms a True by (auto simp: client_main_def thenGo_Go)
    from on_client_going [OF s2 quiet_going] q have "going s2" by blast
    then have "going s3" using s3 on_client_going by (cases rekey) auto
    from run_session_books [OF this run] a True show ?thesis by (auto simp: books_def)
  next
    case False
    then have "r = Got (Some code) \<and> s' = s1"
      using assms a by (auto simp: client_main_def thenGo_def split: wait.splits option.splits)
    then show ?thesis using q a by (auto simp: quiet_def)
  qed
qed

text \<open>A session that is logged in and then cut off.\<close>

definition sample_logged_in :: "(nat, nat, demo_client) client" where
  "sample_logged_in = (client_with_transport ((transport_init Client 0 None None None)\<lparr>t_phase := PhaseEstablished, t_rekeying := True, t_tx := []\<rparr>)
     \<lparr>dc_user = str ''me'', dc_password = None, dc_known_hosts = None, dc_host = str ''a''\<rparr>)
     \<lparr>c_state := StAuthenticated, c_events := [Banner (str ''hello''), ClAuthenticated]\<rparr>"

definition no_faults :: io_faults where
  "no_faults = \<lparr>io_socket = (\<lambda>_. None), io_print = (\<lambda>_. None)\<rparr>"

lemma sample_login:
  "\<exists>s1. authenticate no_faults P reads (running_new sample_logged_in) = Go (Got None) s1 \<and>
     cr_session s1 = sample_logged_in\<lparr>c_events := []\<rparr> \<and> cr_exit_status s1 = None \<and> cr_log s1 = []"
proof -
  have flush: "client_flush no_faults s = Go () s" if "t_tx (c_transport (cr_session s)) = []" for s :: "(nat, nat) running"
    using that by (simp add: client_flush_def)
  have tx: "t_tx (c_transport sample_logged_in) = []" by (simp add: sample_logged_in_def client_with_transport_def)
  have ev: "c_events sample_logged_in = [Banner (str ''hello''), ClAuthenticated]"
    by (simp add: sample_logged_in_def)
  show ?thesis
    by (subst authenticate.simps, simp add: next_event.simps client_poll_event_def running_new_def ev flush tx thenGo_def login_event_def)
      (subst authenticate.simps, simp add: next_event.simps client_poll_event_def flush tx thenGo_def login_event_def)
qed

theorem client_reports_exit_witness:
  "\<exists>s'. client_main no_faults sample_prims (Some (str ''ls'')) False [] [FromSocket (ReadErr ConnectionReset)]
       sample_logged_in = Go (Got 0) s' \<and> printed_out (cr_log s') = concat (map out_data (polled (cr_log s'))) \<and>
     verdict (polled (cr_log s')) = 0"
proof -
  obtain s1 where s1: "authenticate no_faults sample_prims [] (running_new sample_logged_in) = Go (Got None) s1"
      "cr_session s1 = sample_logged_in\<lparr>c_events := []\<rparr>" "cr_exit_status s1 = None" "cr_log s1 = []"
    using sample_login [of sample_prims "[]"] by blast
  obtain c where c: "client_exec sample_prims (str ''ls'') (cr_session s1) = (Ok (), c)" "t_tx (c_transport c) = []"
    by (simp add: client_exec_def client_open_session_def client_is_authenticated_def s1(2) sample_logged_in_def
      client_with_transport_def send_packet_def c_via_def on_field_def)
  have m: "client_main no_faults sample_prims (Some (str ''ls'')) False [] [FromSocket (ReadErr ConnectionReset)]
       sample_logged_in = Go (Got 0) (s1\<lparr>cr_session := c\<rparr>)"
    by (simp add: client_main_def s1(1,3) on_client_def c thenGo_def session_turn_def client_flush_def client_read_once_def
      is_disconnect_def exit_code_def)
  have "authenticate no_faults sample_prims [] (running_new sample_logged_in) \<noteq> Go (Got (Some 0)) (s1\<lparr>cr_session := c\<rparr>)"
    using s1(1) by simp
  with client_reports_exit [OF m] m show ?thesis by metis
qed

text \<open>A connection that is lost, or a stream that just ends, while the remote program runs is a success to the
  caller.\<close>

lemma lost_connection_exits_zero:
  assumes "cr_exit_status s = None" and "t_tx (c_transport (cr_session s)) = []" and "is_disconnect e"
  shows "run_session E P (FromSocket (ReadErr e) # turns) s = Go (Got 0) s"
    and "run_session E P (FromSocket (ReadOk []) # turns) s = Go (Got 0) s"
  using assms by (simp_all add: session_turn_def client_flush_def client_read_once_def thenGo_def exit_code_def)

end
