(* ===== verification/Channel_Session.thy ===== *)
theory Channel_Session
  imports Exec
begin

text \<open>
  What a command handler is given (\<^verbatim>\<open>ChannelSession\<close> of \<^verbatim>\<open>crates/ssh-io/src/exec.rs\<close>): the two halves of the channel, the
  terminal that was granted and a watch over its size. The watch is a parameter of the runtime: its state \<open>'w\<close>, as
  the receiver \<open>'q\<close> of the reader. Writes answer as in \<^verbatim>\<open>Exec\<close>.
\<close>

record ('q, 'w) channel_session =
  cs_reader :: "'q session_reader"
  cs_writer :: session_writer
  cs_pty :: "pty_info option"
  cs_resize :: 'w

definition session_new :: "'q \<Rightarrow> pty_info option \<Rightarrow> 'w \<Rightarrow> ('q, 'w) channel_session" where
  "session_new stdin pty resize =
     \<lparr>cs_reader = session_reader_new stdin, cs_writer = \<lparr>sw_reserving = None\<rparr>, cs_pty = pty, cs_resize = resize\<rparr>"

definition session_pty :: "('q, 'w) channel_session \<Rightarrow> pty_info option" where
  "session_pty s = cs_pty s"

definition resize_events :: "('w \<Rightarrow> 'w) \<Rightarrow> ('q, 'w) channel_session \<Rightarrow> 'w" where
  "resize_events clone s = clone (cs_resize s)"

definition session_split :: "('q, 'w) channel_session \<Rightarrow> 'q session_reader \<times> session_writer" where
  "session_split s = (cs_reader s, cs_writer s)"

definition write_stdout :: "bytes \<Rightarrow> (acquire \<times> bool) list \<Rightarrow> bool option \<times> write_act list" where
  "write_stdout data answers = reserve_and_send data False answers"

definition write_stderr :: "bytes \<Rightarrow> (acquire \<times> bool) list \<Rightarrow> bool option \<times> write_act list" where
  "write_stderr data answers = reserve_and_send data True answers"

definition session_poll_read ::
    "('q \<Rightarrow> bytes option poll \<times> 'q) \<Rightarrow> nat \<Rightarrow> ('q, 'w) channel_session \<Rightarrow> (('q, 'w) channel_session, bytes poll) outcome" where
  "session_poll_read recv remaining s =
     (case poll_read recv remaining (cs_reader s) of (res, r) \<Rightarrow> (res, s\<lparr>cs_reader := r\<rparr>))"

definition session_poll_write ::
    "acquire \<Rightarrow> bool \<Rightarrow> bytes \<Rightarrow> ('q, 'w) channel_session \<Rightarrow>
     (('q, 'w) channel_session, nat option poll \<times> write_act list) outcome" where
  "session_poll_write acq open data s =
     (case poll_write acq open data (cs_writer s) of (res, w) \<Rightarrow> (res, s\<lparr>cs_writer := w\<rparr>))"

definition poll_flush :: "session_writer \<Rightarrow> (session_writer, unit poll) outcome" where
  "poll_flush w = (Ok (Ready ()), w)"

definition poll_shutdown :: "session_writer \<Rightarrow> (session_writer, unit poll) outcome" where
  "poll_shutdown w = (Ok (Ready ()), w)"

definition session_poll_flush :: "('q, 'w) channel_session \<Rightarrow> (('q, 'w) channel_session, unit poll) outcome" where
  "session_poll_flush s = (case poll_flush (cs_writer s) of (res, w) \<Rightarrow> (res, s\<lparr>cs_writer := w\<rparr>))"

definition session_poll_shutdown :: "('q, 'w) channel_session \<Rightarrow> (('q, 'w) channel_session, unit poll) outcome" where
  "session_poll_shutdown s = (case poll_shutdown (cs_writer s) of (res, w) \<Rightarrow> (res, s\<lparr>cs_writer := w\<rparr>))"

section \<open>Lemmas\<close>

text \<open>What a write sent, as items of the channel.\<close>

fun items :: "write_act list \<Rightarrow> outbound list" where
  "items [] = []"
| "items (Sent i # as) = i # items as"
| "items (_ # as) = items as"

lemma items_append [simp]: "items (as @ bs) = items as @ items bs"
  by (induction as rule: items.induct) simp_all

text \<open>A write that fits one reservation is one item, or nothing.\<close>

lemma chunks_one: "data \<noteq> [] \<Longrightarrow> length data \<le> n \<Longrightarrow> chunks n data = [data]"
  by (cases "n = 0") (simp_all add: chunks.simps [of n data] chunks.simps [of n "[]"])

lemma reserve_one:
  assumes "data \<noteq> []" and "length data \<le> MAX_RESERVE" and "reserve_and_send data ext answers = (Some done, acts)"
  shows "items acts = (if done then [if ext then Stderr data else Stdout data] else [])"
  using assms by (cases answers) (auto simp: reserve_and_send_def chunks_one split: acquire.splits if_splits)

text \<open>The writes of a session are those of its halves: reading changes only the reader, writing only the writer.\<close>

lemma session_halves:
  "cs_writer (snd (session_poll_read recv n s)) = cs_writer s"
  "cs_reader (snd (session_poll_write acq op data s)) = cs_reader s"
  "session_pty (snd (session_poll_read recv n s)) = session_pty s"
  by (simp_all add: session_poll_read_def session_poll_write_def session_pty_def split: prod.split)

end
