(* ===== verification/Process.thy ===== *)
theory Process
  imports Channel_Session "HOL-Library.Sublist"
begin

text \<open>
  Running a command as a process of the operating system (\<^verbatim>\<open>run_process\<close> of \<^verbatim>\<open>crates/ssh-io/src/system.rs\<close>). Three
  pumps carry bytes between the channel and the child: they are tasks of their own, so the run is a sequence of
  steps, each of one task, in any order the runtime chooses. What the operating system and the channel answer is
  part of the step: what a read returned, whether a write was taken, how the child ended. A step that the
  code cannot take in that state is \<open>None\<close>.
\<close>

section \<open>State\<close>

datatype stream = OutStream | ErrStream

text \<open>A pump is waiting for its read, has bytes to pass on, or has ended.\<close>

datatype pump = Reading | Passing bytes | Ended

text \<open>The handler itself waits in \<^verbatim>\<open>select!\<close>, unwinds the pumps of a killed child, waits for the child, or has
  returned.\<close>

datatype run_phase = Selecting | Unwinding | Reaping | Returned u32

record process =
  pr_mode :: process_mode
  pr_stdin :: pump
  pr_stdout :: pump
  pr_stderr :: pump
  pr_phase :: run_phase
  pr_killed :: bool
  pr_aborted :: bool
  pr_child_in :: bytes
  pr_sent :: "outbound list"

definition process_new :: "process_mode \<Rightarrow> process" where
  "process_new mode =
     \<lparr>pr_mode = mode, pr_stdin = Reading, pr_stdout = Reading, pr_stderr = Reading, pr_phase = Selecting,
      pr_killed = False, pr_aborted = False, pr_child_in = [], pr_sent = []\<rparr>"

section \<open>Starting\<close>

text \<open>The start: the command line is turned down or the child cannot be started, which is told on the error stream
  and is status 127, or the pumps begin.\<close>

datatype start = Refused bytes u32 | Started process

definition run_process ::
    "bool \<Rightarrow> bytes option \<Rightarrow> (bytes \<times> bytes list \<Rightarrow> bytes option) \<Rightarrow> bytes \<Rightarrow> start" where
  "run_process windows sh spawn_error command =
     (let mode = process_mode_of command in
      case build_command windows sh (if command = [] then None else Some command) of
        Inl e \<Rightarrow> Refused (str e @ [10]) 127
      | Inr cmd \<Rightarrow>
          case spawn_error cmd of
            Some e \<Rightarrow> Refused (str ''failed to start process: '' @ e @ [10]) 127
          | None \<Rightarrow> Started (process_new mode))"

section \<open>Steps\<close>

definition BUF :: nat where "BUF = 8192"

datatype process_event =
    StdinRead "bytes option"
  | StdinWrote bool
  | StdinAborts
  | ChildRead stream "bytes option"
  | ChannelWrote stream "(acquire \<times> bool) list"
  | ChannelGone
  | PumpsDone
  | ChildEnds "u32 option option"

definition stdin_data :: "process_mode \<Rightarrow> bytes \<Rightarrow> bytes" where
  "stdin_data mode data = (if mode = Shell then cr_to_lf data else data)"

text \<open>The pump of the channel's input.\<close>

definition stdin_read :: "bytes option \<Rightarrow> process \<Rightarrow> process" where
  "stdin_read read p =
     (case read of
        Some data \<Rightarrow> p\<lparr>pr_stdin := if data = [] then Ended else Passing (stdin_data (pr_mode p) data)\<rparr>
      | None \<Rightarrow> p\<lparr>pr_stdin := Ended\<rparr>)"

definition stdin_wrote :: "bytes \<Rightarrow> bool \<Rightarrow> process \<Rightarrow> process" where
  "stdin_wrote data taken_all p =
     (if taken_all then p\<lparr>pr_child_in := pr_child_in p @ data, pr_stdin := Reading\<rparr> else p\<lparr>pr_stdin := Ended\<rparr>)"

text \<open>The pumps of the child's outputs.\<close>

definition pump_of :: "stream \<Rightarrow> process \<Rightarrow> pump" where
  "pump_of s p = (case s of OutStream \<Rightarrow> pr_stdout p | ErrStream \<Rightarrow> pr_stderr p)"

definition set_pump :: "stream \<Rightarrow> pump \<Rightarrow> process \<Rightarrow> process" where
  "set_pump s u p = (case s of OutStream \<Rightarrow> p\<lparr>pr_stdout := u\<rparr> | ErrStream \<Rightarrow> p\<lparr>pr_stderr := u\<rparr>)"

definition pump_read :: "stream \<Rightarrow> bytes option \<Rightarrow> process \<Rightarrow> process" where
  "pump_read s read p =
     (case read of
        Some data \<Rightarrow> set_pump s (if data = [] then Ended else Passing data) p
      | None \<Rightarrow> set_pump s Ended p)"

definition pump_write :: "stream \<Rightarrow> bytes \<Rightarrow> (acquire \<times> bool) list \<Rightarrow> process \<Rightarrow> process option" where
  "pump_write s data answers p =
     (case (if s = OutStream then write_stdout data answers else write_stderr data answers) of
        (None, _) \<Rightarrow> None
      | (Some done, acts) \<Rightarrow>
          Some (set_pump s (if done then Reading else Ended) (p\<lparr>pr_sent := pr_sent p @ items acts\<rparr>)))"

definition read_fits :: "bytes option \<Rightarrow> bool" where
  "read_fits read = (case read of Some data \<Rightarrow> length data \<le> BUF | None \<Rightarrow> True)"

text \<open>The status of the child as an exit status: its code, or 0 where it has none or cannot be waited for.\<close>

definition exit_status :: "u32 option option \<Rightarrow> u32" where
  "exit_status waited = (case waited of Some (Some code) \<Rightarrow> code | _ \<Rightarrow> 0)"

fun process_step :: "process_event \<Rightarrow> process \<Rightarrow> process option" where
  "process_step (StdinRead read) p =
     (if pr_stdin p = Reading \<and> read_fits read then Some (stdin_read read p) else None)"
| "process_step (StdinWrote taken_all) p =
     (case pr_stdin p of Passing data \<Rightarrow> Some (stdin_wrote data taken_all p) | _ \<Rightarrow> None)"
| "process_step StdinAborts p = (if pr_aborted p then Some (p\<lparr>pr_stdin := Ended\<rparr>) else None)"
| "process_step (ChildRead s read) p =
     (if pump_of s p = Reading \<and> read_fits read then Some (pump_read s read p) else None)"
| "process_step (ChannelWrote s answers) p =
     (case pump_of s p of Passing data \<Rightarrow> pump_write s data answers p | _ \<Rightarrow> None)"
| "process_step ChannelGone p =
     (if pr_phase p = Selecting then Some (p\<lparr>pr_phase := Unwinding, pr_killed := True\<rparr>) else None)"
| "process_step PumpsDone p =
     (if (pr_phase p = Selecting \<or> pr_phase p = Unwinding) \<and> pr_stdout p = Ended \<and> pr_stderr p = Ended
      then Some (p\<lparr>pr_phase := Reaping, pr_aborted := True\<rparr>) else None)"
| "process_step (ChildEnds waited) p =
     (if pr_phase p = Reaping then Some (p\<lparr>pr_phase := Returned (exit_status waited)\<rparr>) else None)"

fun process_run :: "process_event list \<Rightarrow> process \<Rightarrow> process option" where
  "process_run [] p = Some p"
| "process_run (e # es) p = (case process_step e p of Some p \<Rightarrow> process_run es p | None \<Rightarrow> None)"

section \<open>What a run was given\<close>

text \<open>What the child wrote to a stream, whether the stream came to an end, and what the client sent.\<close>

fun child_wrote :: "stream \<Rightarrow> process_event list \<Rightarrow> bytes" where
  "child_wrote s [] = []"
| "child_wrote s (ChildRead s' (Some data) # es) = (if s' = s then data else []) @ child_wrote s es"
| "child_wrote s (_ # es) = child_wrote s es"

definition child_ended :: "stream \<Rightarrow> process_event list \<Rightarrow> bool" where
  "child_ended s es \<longleftrightarrow> ChildRead s (Some []) \<in> set es \<or> ChildRead s None \<in> set es"

fun client_sent :: "process_mode \<Rightarrow> process_event list \<Rightarrow> bytes" where
  "client_sent mode [] = []"
| "client_sent mode (StdinRead (Some data) # es) = stdin_data mode data @ client_sent mode es"
| "client_sent mode (_ # es) = client_sent mode es"

text \<open>Whether the channel turned a write down.\<close>

fun turned_down :: "(acquire \<times> bool) list \<Rightarrow> bool" where
  "turned_down ((Granted, open) # _) = (\<not> open)"
| "turned_down ((Closed, _) # _) = True"
| "turned_down _ = False"

definition refused :: "stream \<Rightarrow> process_event list \<Rightarrow> bool" where
  "refused s es \<longleftrightarrow> (\<exists>answers. ChannelWrote s answers \<in> set es \<and> turned_down answers)"

text \<open>The bytes of one stream among the items of the channel.\<close>

fun stream_bytes :: "stream \<Rightarrow> outbound list \<Rightarrow> bytes" where
  "stream_bytes s [] = []"
| "stream_bytes OutStream (Stdout data # is) = data @ stream_bytes OutStream is"
| "stream_bytes ErrStream (Stderr data # is) = data @ stream_bytes ErrStream is"
| "stream_bytes s (_ # is) = stream_bytes s is"

section \<open>Invariants\<close>

lemma child_wrote_append [simp]: "child_wrote s (es @ fs) = child_wrote s es @ child_wrote s fs"
  by (induction s es rule: child_wrote.induct) simp_all

lemma client_sent_append [simp]: "client_sent m (es @ fs) = client_sent m es @ client_sent m fs"
  by (induction m es rule: client_sent.induct) simp_all

lemma stream_bytes_append [simp]: "stream_bytes s (is @ js) = stream_bytes s is @ stream_bytes s js"
  by (induction s "is" rule: stream_bytes.induct) simp_all

lemma process_run_snoc:
  "process_run (es @ [e]) p = (case process_run es p of Some p \<Rightarrow> process_step e p | None \<Rightarrow> None)"
  by (induction es arbitrary: p) (simp_all split: option.split)

text \<open>A pump holds what it has read and not passed on.\<close>

fun holds_bytes :: "pump \<Rightarrow> bytes" where
  "holds_bytes (Passing data) = data"
| "holds_bytes _ = []"

definition pump_ok :: "stream \<Rightarrow> process_event list \<Rightarrow> process \<Rightarrow> bool" where
  "pump_ok s es p \<longleftrightarrow>
     (\<forall>data. pump_of s p = Passing data \<longrightarrow> data \<noteq> [] \<and> length data \<le> BUF) \<and>
     (if refused s es then pump_of s p = Ended \<and> prefix (stream_bytes s (pr_sent p)) (child_wrote s es)
      else child_wrote s es = stream_bytes s (pr_sent p) @ holds_bytes (pump_of s p) \<and>
        (pump_of s p = Ended \<longleftrightarrow> child_ended s es))"

definition input_ok :: "process_event list \<Rightarrow> process \<Rightarrow> bool" where
  "input_ok es p \<longleftrightarrow> prefix (pr_child_in p @ holds_bytes (pr_stdin p)) (client_sent (pr_mode p) es) \<and>
     (pr_stdin p \<noteq> Ended \<longrightarrow> client_sent (pr_mode p) es = pr_child_in p @ holds_bytes (pr_stdin p))"

fun phase_ok :: "run_phase \<Rightarrow> process_event list \<Rightarrow> process \<Rightarrow> bool" where
  "phase_ok Selecting es p \<longleftrightarrow> \<not> pr_killed p \<and> \<not> pr_aborted p"
| "phase_ok Unwinding es p \<longleftrightarrow> pr_killed p \<and> \<not> pr_aborted p"
| "phase_ok Reaping es p \<longleftrightarrow> pr_stdout p = Ended \<and> pr_stderr p = Ended"
| "phase_ok (Returned status) es p \<longleftrightarrow> pr_stdout p = Ended \<and> pr_stderr p = Ended \<and>
     (\<exists>waited. ChildEnds waited \<in> set es \<and> status = exit_status waited)"

definition process_ok :: "process_event list \<Rightarrow> process \<Rightarrow> bool" where
  "process_ok es p \<longleftrightarrow> (\<forall>s. pump_ok s es p) \<and> input_ok es p \<and> phase_ok (pr_phase p) es p \<and>
     (pr_killed p \<longleftrightarrow> ChannelGone \<in> set es)"

lemma pump_of_simps [simp]:
  "pump_of OutStream p = pr_stdout p" "pump_of ErrStream p = pr_stderr p"
  "pump_of s (p\<lparr>pr_stdin := u\<rparr>) = pump_of s p" "pump_of s (p\<lparr>pr_child_in := b\<rparr>) = pump_of s p"
  "pump_of s (p\<lparr>pr_phase := f\<rparr>) = pump_of s p" "pump_of s (p\<lparr>pr_sent := i\<rparr>) = pump_of s p"
  "pump_of s (p\<lparr>pr_killed := c\<rparr>) = pump_of s p" "pump_of s (p\<lparr>pr_aborted := c\<rparr>) = pump_of s p"
  by (simp_all add: pump_of_def split: stream.split)

lemma set_pump_simps [simp]:
  "pump_of s (set_pump s' u p) = (if s = s' then u else pump_of s p)"
  "pr_sent (set_pump s u p) = pr_sent p" "pr_phase (set_pump s u p) = pr_phase p"
  "pr_stdin (set_pump s u p) = pr_stdin p" "pr_child_in (set_pump s u p) = pr_child_in p"
  "pr_killed (set_pump s u p) = pr_killed p" "pr_aborted (set_pump s u p) = pr_aborted p"
  "pr_mode (set_pump s u p) = pr_mode p"
  by (cases s; cases s'; simp add: set_pump_def pump_of_def)+

lemma pr_pumps_set [simp]:
  "pr_stdout (set_pump s u p) = (if s = OutStream then u else pr_stdout p)"
  "pr_stderr (set_pump s u p) = (if s = ErrStream then u else pr_stderr p)"
  by (cases s; simp add: set_pump_def)+

lemma trace_snoc [simp]:
  "child_ended s (es @ [e]) \<longleftrightarrow> child_ended s es \<or> e = ChildRead s (Some []) \<or> e = ChildRead s None"
  "refused s (es @ [e]) \<longleftrightarrow> refused s es \<or> (\<exists>answers. e = ChannelWrote s answers \<and> turned_down answers)"
  by (auto simp: child_ended_def refused_def)

lemma pump_write_items:
  assumes "pump_write s data answers p = Some p'" and "data \<noteq> []" and "length data \<le> BUF"
  shows "p' = set_pump s (if turned_down answers then Ended else Reading)
    (p\<lparr>pr_sent := pr_sent p @ (if turned_down answers then [] else [if s = OutStream then Stdout data else Stderr data])\<rparr>)"
proof -
  have "length data \<le> MAX_RESERVE" using assms(3) by (simp add: BUF_def MAX_RESERVE_def)
  then have one: "reserve_and_send data ext as = send_chunks ext as [data]" for ext as
    using assms(2) by (simp add: reserve_and_send_def chunks_one)
  show ?thesis using assms(1)
    by (cases answers rule: turned_down.cases; cases s) 
      (auto simp: pump_write_def write_stdout_def write_stderr_def one split: acquire.splits if_splits)
qed

lemma pump_ok_write:
  assumes "pump_write s' data answers p = Some p'" and "pump_of s' p = Passing data" and "pump_ok s' es p" and "pump_ok s es p"
  shows "pump_ok s (es @ [ChannelWrote s' answers]) p'"
proof -
  have "data \<noteq> []" "length data \<le> BUF" using assms(2,3) by (auto simp: pump_ok_def)
  note p' = pump_write_items [OF assms(1) this]
  have "\<not> refused s' es" using assms(2,3) by (auto simp: pump_ok_def)
  with assms(2-4) show ?thesis unfolding p'
    by (cases s; cases s') (auto simp: pump_ok_def)
qed

lemma pump_ok_step:
  assumes "process_step e p = Some p'" and "\<And>s. pump_ok s es p"
  shows "pump_ok s (es @ [e]) p'"
proof (cases e)
  case (ChildRead s' read)
  with assms(1) have f: "pump_of s' p = Reading" "read_fits read" and p': "p' = pump_read s' read p"
    by (simp_all split: if_splits)
  from assms(2) [of s'] f(1) have "\<not> refused s' es" "\<not> child_ended s' es"
    by (auto simp: pump_ok_def split: if_splits)
  with assms(2) [of s] f ChildRead show ?thesis unfolding p'
    by (cases read) (auto simp: pump_ok_def pump_read_def read_fits_def)
next
  case (ChannelWrote s' answers)
  with assms(1) obtain data where "pump_of s' p = Passing data" "pump_write s' data answers p = Some p'"
    by (auto split: pump.splits)
  with assms(2) ChannelWrote show ?thesis by (auto intro: pump_ok_write)
qed (use assms(1) assms(2) [of s] in \<open>auto simp: pump_ok_def stdin_read_def stdin_wrote_def split: if_splits pump.splits option.splits\<close>)

lemma prefix_append_drop: "prefix (xs @ ys) zs \<Longrightarrow> prefix xs (zs @ ws)"
  by (auto simp: prefix_def)

lemma input_ok_step:
  assumes "process_step e p = Some p'" and "input_ok es p"
  shows "input_ok (es @ [e]) p'"
  using assms
  by (cases e) (auto simp: input_ok_def stdin_read_def stdin_wrote_def pump_read_def pump_write_def prefix_append_drop
    split: if_splits pump.splits option.splits prod.splits)

lemma phase_ok_step:
  assumes "process_step e p = Some p'" and "phase_ok (pr_phase p) es p"
  shows "phase_ok (pr_phase p') (es @ [e]) p'"
  using assms
  by (cases e; cases "pr_phase p")
    (auto simp: stdin_read_def stdin_wrote_def pump_read_def pump_write_def pump_of_def
      split: if_splits pump.splits option.splits prod.splits stream.splits)

lemma process_ok_step:
  assumes "process_step e p = Some p'" and "process_ok es p"
  shows "process_ok (es @ [e]) p'"
proof -
  have "pr_killed p' \<longleftrightarrow> pr_killed p \<or> e = ChannelGone"
    using assms(1)
    by (cases e) (auto simp: stdin_read_def stdin_wrote_def pump_read_def pump_write_def
      split: if_splits pump.splits option.splits prod.splits)
  then show ?thesis using assms pump_ok_step [OF assms(1)] input_ok_step [OF assms(1)] phase_ok_step [OF assms(1)]
    by (auto simp: process_ok_def)
qed

lemma process_ok_run: "process_run es (process_new mode) = Some p \<Longrightarrow> process_ok es p \<and> pr_mode p = mode"
proof (induction es arbitrary: p rule: rev_induct)
  case Nil
  then show ?case
    by (auto simp: process_ok_def pump_ok_def input_ok_def process_new_def refused_def child_ended_def pump_of_def
      split: stream.splits)
next
  case (snoc e es)
  then obtain p1 where "process_run es (process_new mode) = Some p1" "process_step e p1 = Some p"
    by (auto simp: process_run_snoc split: option.splits)
  moreover from this(2) have "pr_mode p = pr_mode p1"
    by (cases e) (auto simp: stdin_read_def stdin_wrote_def pump_read_def pump_write_def
      split: if_splits pump.splits option.splits prod.splits)
  ultimately show ?case using snoc.IH process_ok_step by auto
qed

text \<open>When the channel is gone: the pump of a stream ends at once, whatever it was doing.\<close>

definition unwind :: "stream \<Rightarrow> process \<Rightarrow> process_event list" where
  "unwind s p =
     (case pump_of s p of
        Reading \<Rightarrow> [ChildRead s (Some [])]
      | Passing _ \<Rightarrow> [ChannelWrote s [(Closed, False)]]
      | Ended \<Rightarrow> [])"

lemma unwind_ends:
  assumes "pump_ok s es p"
  shows "process_run (unwind s p) p = Some (set_pump s Ended p)"
proof (cases "pump_of s p")
  case (Passing data)
  then have "data \<noteq> []" "length data \<le> MAX_RESERVE" using assms by (auto simp: pump_ok_def BUF_def MAX_RESERVE_def)
  then show ?thesis using Passing
    by (cases s) (simp_all add: unwind_def pump_write_def write_stdout_def write_stderr_def reserve_and_send_def chunks_one)
next
  case Ended
  then show ?thesis by (cases s) (simp_all add: unwind_def set_pump_def)
qed (simp_all add: unwind_def pump_read_def read_fits_def BUF_def)

lemma process_run_append:
  "process_run (es @ fs) p = (case process_run es p of Some p \<Rightarrow> process_run fs p | None \<Rightarrow> None)"
  by (induction es arbitrary: p) (simp_all split: option.split)

lemma pump_ok_other: "pump_ok s es p \<Longrightarrow> s \<noteq> s' \<Longrightarrow> pump_ok s es (set_pump s' u p)"
  by (simp add: pump_ok_def)

section \<open>Properties\<close>

text \<open>C24: Everything the child wrote is delivered before its exit status. When the handler of a started command returns,
  each of the two output streams was read to its end and all of it sent to the channel, in order, unless the
  channel itself turned a write down, in which case what was sent is the beginning; the child was given the client's input in order, line ends
  translated for a shell, up to where its pump stopped; it was killed only when the channel had gone; and the
  status is the child's own.\<close>

theorem process_output_delivered:
  assumes "run_process windows sh spawn_error command = Started p0"
    and "process_run es p0 = Some p" and "pr_phase p = Returned status"
  shows "(\<forall>s. if refused s es then prefix (stream_bytes s (pr_sent p)) (child_wrote s es)
       else stream_bytes s (pr_sent p) = child_wrote s es \<and> child_ended s es) \<and>
    prefix (pr_child_in p) (client_sent (process_mode_of command) es) \<and>
    (pr_killed p \<longleftrightarrow> ChannelGone \<in> set es) \<and> (\<exists>waited. ChildEnds waited \<in> set es \<and> status = exit_status waited)"
proof -
  have "p0 = process_new (process_mode_of command)"
    using assms(1) by (auto simp: run_process_def Let_def split: sum.splits option.splits)
  with assms(2) have ok: "process_ok es p" "pr_mode p = process_mode_of command" using process_ok_run by auto
  then have ends: "pump_of s p = Ended" for s
    using assms(3) by (cases s) (auto simp: process_ok_def)
  have "if refused s es then prefix (stream_bytes s (pr_sent p)) (child_wrote s es)
       else stream_bytes s (pr_sent p) = child_wrote s es \<and> child_ended s es" for s
  proof -
    have "pump_ok s es p" using ok(1) by (simp add: process_ok_def)
    then show ?thesis using ends [of s] by (auto simp: pump_ok_def split: if_splits)
  qed
  moreover have "prefix (pr_child_in p) (client_sent (process_mode_of command) es)"
    using ok prefix_append_drop [of "pr_child_in p" "holds_bytes (pr_stdin p)" _ "[]"] by (auto simp: process_ok_def input_ok_def)
  ultimately show ?thesis using ok(1) assms(3) by (simp add: process_ok_def)
qed

theorem process_output_delivered_witness:
  "\<exists>p. process_run [StdinRead (Some [97, 13]), ChildRead OutStream (Some [104, 105]), StdinWrote True,
       ChannelWrote OutStream [(Granted, True)], ChildRead ErrStream (Some []), ChildRead OutStream (Some []), PumpsDone,
       ChildEnds (Some (Some 3))] (process_new Shell) = Some p \<and>
     pr_phase p = Returned 3 \<and> stream_bytes OutStream (pr_sent p) = [104, 105] \<and> prefix (pr_child_in p) [97, 10]"
proof -
  let ?es = "[StdinRead (Some [97, 13]), ChildRead OutStream (Some [104, 105]), StdinWrote True,
       ChannelWrote OutStream [(Granted, True)], ChildRead ErrStream (Some []), ChildRead OutStream (Some []), PumpsDone,
       ChildEnds (Some (Some 3))]"
  have st: "run_process False None (\<lambda>_. None) [] = Started (process_new Shell)"
    by (simp add: run_process_def build_command_def process_mode_of_def)
  obtain p where p: "process_run ?es (process_new Shell) = Some p" "pr_phase p = Returned 3"
    by (simp add: process_new_def read_fits_def BUF_def stdin_read_def stdin_wrote_def pump_read_def pump_write_def
      write_stdout_def reserve_and_send_def chunks_one MAX_RESERVE_def set_pump_def exit_status_def)
  have no: "\<not> refused OutStream ?es" by (simp add: refused_def)
  have "stream_bytes OutStream (pr_sent p) = child_wrote OutStream ?es"
    using process_output_delivered [OF st p] no by metis
  moreover have "prefix (pr_child_in p) (client_sent (process_mode_of []) ?es)"
    using process_output_delivered [OF st p] by blast
  ultimately show ?thesis using p by (simp add: stdin_data_def process_mode_of_def)
qed



text \<open>A command line without a word, or one whose program cannot be started, is answered with status 127 and a line on
  the error stream; no pump runs.\<close>

lemma run_process_refused:
  "run_process windows sh spawn_error [32] = Refused (str ''empty command'' @ [10]) 127"
  "build_command windows sh (Some command) = Inr cmd \<Longrightarrow> command \<noteq> [] \<Longrightarrow> spawn_error cmd = Some e \<Longrightarrow>
    run_process windows sh spawn_error command = Refused (str ''failed to start process: '' @ e @ [10]) 127"
  by (simp_all add: run_process_def build_command_def Let_def split_whitespace_def split_ws.simps ws_char_def emit_def str_def)

end
