(* ===== verification/Tui_Input.thy ===== *)
theory Tui_Input
  imports Ssh_Prelude
begin

text \<open>
  The key decoder of the terminal handlers (\<^verbatim>\<open>crates/ssh-tui/src/input.rs\<close>): bytes of a channel to key events, with
  incomplete sequences kept for the next read. A character is its code point. Slices and indices that would be out
  of range are panics.
\<close>

section \<open>Keys\<close>

datatype key_code =
    KChar nat
  | KEnter | KTab | KBackTab | KBackspace | KEsc
  | KUp | KDown | KLeft | KRight | KHome | KEnd | KPageUp | KPageDown | KInsert | KDelete
  | KF byte

record key_event =
  ke_code :: key_code
  ke_modifiers :: byte

definition MOD_NONE :: byte where "MOD_NONE = 0"
definition MOD_SHIFT :: byte where "MOD_SHIFT = 1"
definition MOD_ALT :: byte where "MOD_ALT = 2"
definition MOD_CTRL :: byte where "MOD_CTRL = 4"

unbundle bit_operations_syntax

definition mod_contains :: "byte \<Rightarrow> byte \<Rightarrow> bool" where
  "mod_contains m other = (m AND other = other)"

definition mod_is_empty :: "byte \<Rightarrow> bool" where
  "mod_is_empty m = (m = 0)"

definition mod_bitor :: "byte \<Rightarrow> byte \<Rightarrow> byte" where
  "mod_bitor m rhs = m OR rhs"

definition from_csi_param :: "u16 \<Rightarrow> byte" where
  "from_csi_param param = ucast ((if param = 0 then 0 else param - 1) AND 7)"

definition key_plain :: "key_code \<Rightarrow> key_event" where
  "key_plain c = \<lparr>ke_code = c, ke_modifiers = MOD_NONE\<rparr>"

definition is_interrupt :: "key_event \<Rightarrow> bool" where
  "is_interrupt e = (ke_code e = KChar 99 \<and> mod_contains (ke_modifiers e) MOD_CTRL)"

section \<open>One key at the front of the buffer\<close>

datatype step = Key nat key_event | Skip nat | Incomplete

definition control :: "byte \<Rightarrow> key_event option" where
  "control b =
     (let ctrl = (\<lambda>c. Some \<lparr>ke_code = KChar c, ke_modifiers = MOD_CTRL\<rparr>) in
      if b = 0x0d \<or> b = 0x0a then Some (key_plain KEnter)
      else if b = 0x09 then Some (key_plain KTab)
      else if b = 0x08 \<or> b = 0x7f then Some (key_plain KBackspace)
      else if b = 0x00 then ctrl 32
      else if 0x01 \<le> b \<and> b \<le> 0x1a then ctrl (unat (97 + b - 1))
      else if b = 0x1c then ctrl 92
      else if b = 0x1d then ctrl 93
      else if b = 0x1e then ctrl 94
      else if b = 0x1f then ctrl 95
      else None)"

text \<open>\<^verbatim>\<open>str::parse::<u16>\<close>: an optional plus sign and at least one decimal digit, without overflow. A parameter that
  is not UTF-8 has a byte that is no digit.\<close>

definition is_digit :: "byte \<Rightarrow> bool" where
  "is_digit b = (48 \<le> b \<and> b \<le> 57)"

fun digits_val :: "nat \<Rightarrow> bytes \<Rightarrow> nat" where
  "digits_val acc [] = acc"
| "digits_val acc (b # bs) = digits_val (acc * 10 + (unat b - 48)) bs"

definition parse_u16 :: "bytes \<Rightarrow> u16 option" where
  "parse_u16 p =
     (let ds = (case p of b # bs \<Rightarrow> if b = 43 then bs else p | [] \<Rightarrow> []) in
      if ds \<noteq> [] \<and> list_all is_digit ds \<and> digits_val 0 ds < 2 ^ 16 then Some (of_nat (digits_val 0 ds)) else None)"

definition csi_param :: "nat \<Rightarrow> bytes \<Rightarrow> u16 option" where
  "csi_param i params_raw =
     (let params = split_on 59 params_raw in
      if i < length params \<and> utf8_ok (params ! i) then parse_u16 (params ! i) else None)"

definition tilde_code :: "u16 option \<Rightarrow> key_code option" where
  "tilde_code first =
     (case first of
        None \<Rightarrow> None
      | Some n \<Rightarrow>
          if n = 1 \<or> n = 7 then Some KHome
          else if n = 2 then Some KInsert
          else if n = 3 then Some KDelete
          else if n = 4 \<or> n = 8 then Some KEnd
          else if n = 5 then Some KPageUp
          else if n = 6 then Some KPageDown
          else if 11 \<le> n \<and> n \<le> 15 then Some (KF (ucast (n - 10)))
          else if 17 \<le> n \<and> n \<le> 21 then Some (KF (ucast (n - 11)))
          else if 23 \<le> n \<and> n \<le> 24 then Some (KF (ucast (n - 12)))
          else None)"

text \<open>The key of a final byte: the \<^verbatim>\<open>match\<close> of \<^verbatim>\<open>csi\<close>, and that of \<^verbatim>\<open>ss3\<close>; \<^verbatim>\<open>None\<close> where the code skips.\<close>

definition csi_key :: "byte \<Rightarrow> u16 option \<Rightarrow> byte \<Rightarrow> key_event option" where
  "csi_key final_byte first modifiers =
     (let key = (\<lambda>c. Some \<lparr>ke_code = c, ke_modifiers = modifiers\<rparr>) in
      if final_byte = 65 then key KUp
      else if final_byte = 66 then key KDown
      else if final_byte = 67 then key KRight
      else if final_byte = 68 then key KLeft
      else if final_byte = 72 then key KHome
      else if final_byte = 70 then key KEnd
      else if final_byte = 90 then Some \<lparr>ke_code = KBackTab, ke_modifiers = MOD_SHIFT\<rparr>
      else if final_byte = 126 then
        (case tilde_code first of Some c \<Rightarrow> key c | None \<Rightarrow> None)
      else None)"

definition csi :: "bytes \<Rightarrow> step result" where
  "csi buf =
     (if length buf < 2 then Crash ''range start index out of range''
      else
        case position (\<lambda>b. 0x40 \<le> b \<and> b \<le> 0x7e) (drop 2 buf) of
          None \<Rightarrow> Ok Incomplete
        | Some e \<Rightarrow>
            let params_raw = take e (drop 2 buf);
                final_byte = buf ! (2 + e);
                len = e + 3;
                first = csi_param 0 params_raw;
                modifiers = (case csi_param 1 params_raw of Some p \<Rightarrow> from_csi_param p | None \<Rightarrow> MOD_NONE)
            in (case csi_key final_byte first modifiers of
                  Some k \<Rightarrow> Ok (Key len k)
                | None \<Rightarrow> Ok (Skip len)))"

definition ss3_code :: "byte \<Rightarrow> key_code option" where
  "ss3_code final_byte =
     (if final_byte = 65 then Some KUp
      else if final_byte = 66 then Some KDown
      else if final_byte = 67 then Some KRight
      else if final_byte = 68 then Some KLeft
      else if final_byte = 72 then Some KHome
      else if final_byte = 70 then Some KEnd
      else if final_byte = 80 then Some (KF 1)
      else if final_byte = 81 then Some (KF 2)
      else if final_byte = 82 then Some (KF 3)
      else if final_byte = 83 then Some (KF 4)
      else None)"

definition ss3 :: "bytes \<Rightarrow> step" where
  "ss3 buf =
     (if length buf \<le> 2 then Incomplete
      else (case ss3_code (buf ! 2) of Some c \<Rightarrow> Key 3 (key_plain c) | None \<Rightarrow> Skip 3))"

text \<open>\<^verbatim>\<open>s.chars().next()\<close> on well-formed UTF-8: the code point of the first character.\<close>

definition first_char :: "bytes \<Rightarrow> nat option" where
  "first_char s =
     (case s of
        [] \<Rightarrow> None
      | a # bs \<Rightarrow>
          if a < 0x80 then Some (unat a)
          else if a < 0xE0 then Some (unat a mod 32 * 64 + unat (bs ! 0) mod 64)
          else if a < 0xF0 then Some ((unat a mod 16 * 64 + unat (bs ! 0) mod 64) * 64 + unat (bs ! 1) mod 64)
          else Some (((unat a mod 8 * 64 + unat (bs ! 0) mod 64) * 64 + unat (bs ! 1) mod 64) * 64 + unat (bs ! 2) mod 64))"

definition utf8_want :: "byte \<Rightarrow> nat option" where
  "utf8_want a =
     (if a \<le> 0x7f then Some 1
      else if 0xc2 \<le> a \<and> a \<le> 0xdf then Some 2
      else if 0xe0 \<le> a \<and> a \<le> 0xef then Some 3
      else if 0xf0 \<le> a \<and> a \<le> 0xf4 then Some 4
      else None)"

definition utf8_key :: "bytes \<Rightarrow> step result" where
  "utf8_key buf =
     (case buf of
        [] \<Rightarrow> Crash ''index out of bounds''
      | a # _ \<Rightarrow>
          (case utf8_want a of
             None \<Rightarrow> Ok (Skip 1)
           | Some want \<Rightarrow>
               if length buf < want then Ok Incomplete
               else if utf8_ok (take want buf) then
                 (case first_char (take want buf) of
                    Some c \<Rightarrow> Ok (Key want (key_plain (KChar c)))
                  | None \<Rightarrow> Ok (Skip want))
               else Ok (Skip 1)))"

definition with_alt :: "step \<Rightarrow> step" where
  "with_alt s =
     (case s of
        Key n e \<Rightarrow> Key (n + 1) (e\<lparr>ke_modifiers := mod_bitor (ke_modifiers e) MOD_ALT\<rparr>)
      | Skip n \<Rightarrow> Skip (n + 1)
      | Incomplete \<Rightarrow> Incomplete)"

fun key_step :: "bytes \<Rightarrow> step result" and esc :: "bytes \<Rightarrow> step result" where
  "key_step [] = Crash ''index out of bounds''"
| "key_step (b # bs) =
     (if b = 0x1b then esc (b # bs)
      else
        (case control b of
           Some e \<Rightarrow> Ok (Key 1 e)
         | None \<Rightarrow> utf8_key (b # bs)))"
| "esc [] = Ok (Key 1 (key_plain KEsc))"
| "esc [_] = Ok (Key 1 (key_plain KEsc))"
| "esc (a # b # bs) =
     (if b = 91 then csi (a # b # bs)
      else if b = 79 then Ok (ss3 (a # b # bs))
      else if b = 0x1b then Ok (Key 1 (key_plain KEsc))
      else rbind (key_step (b # bs)) (\<lambda>s. Ok (with_alt s)))"

section \<open>The decoder\<close>

text \<open>A decoded key uses at least one byte and never more than there are.\<close>

fun step_fits :: "nat \<Rightarrow> step \<Rightarrow> bool" where
  "step_fits n (Key k _) \<longleftrightarrow> 0 < k \<and> k \<le> n"
| "step_fits n (Skip k) \<longleftrightarrow> 0 < k \<and> k \<le> n"
| "step_fits n Incomplete \<longleftrightarrow> True"

lemma csi_fits: "2 \<le> length buf \<Longrightarrow> \<exists>s. csi buf = Ok s \<and> step_fits (length buf) s"
  by (auto simp: csi_def Let_def position_Some split: option.splits)

lemma ss3_fits: "step_fits (length buf) (ss3 buf)"
  by (auto simp: ss3_def split: option.split)

lemma utf8_key_hd:
  "buf \<noteq> [] \<Longrightarrow> utf8_key buf = (case utf8_want (hd buf) of
     None \<Rightarrow> Ok (Skip 1)
   | Some want \<Rightarrow>
       if length buf < want then Ok Incomplete
       else if utf8_ok (take want buf) then
         (case first_char (take want buf) of
            Some c \<Rightarrow> Ok (Key want (key_plain (KChar c)))
          | None \<Rightarrow> Ok (Skip want))
       else Ok (Skip 1))"
  unfolding utf8_key_def list.case_eq_if by (simp only: if_False)

lemma utf8_key_fits: "buf \<noteq> [] \<Longrightarrow> \<exists>s. utf8_key buf = Ok s \<and> step_fits (length buf) s"
proof -
  assume ne: "buf \<noteq> []"
  have w: "0 < w" if "utf8_want (hd buf) = Some w" for w using that by (auto simp: utf8_want_def split: if_splits)
  show ?thesis
  proof (cases "utf8_want (hd buf)")
    case None
    then show ?thesis using ne by (simp add: utf8_key_hd Suc_le_eq)
  next
    case (Some w)
    then show ?thesis using ne w [OF Some]
      by (cases "first_char (take w buf)") (simp_all add: utf8_key_hd Suc_le_eq)
  qed
qed

lemma with_alt_fits: "step_fits n s \<Longrightarrow> step_fits (Suc n) (with_alt s)"
  by (cases s) (auto simp: with_alt_def)

lemma key_step_fits: "buf \<noteq> [] \<Longrightarrow> \<exists>s. key_step buf = Ok s \<and> step_fits (length buf) s"
  and esc_fits: "buf \<noteq> [] \<Longrightarrow> \<exists>s. esc buf = Ok s \<and> step_fits (length buf) s"
proof (induction buf and buf rule: key_step_esc.induct)
  case (2 b bs)
  then show ?case using utf8_key_fits [of "b # bs"] by (auto split: option.split)
next
  case (5 a b bs)
  then show ?case
    using csi_fits [of "a # b # bs"] ss3_fits [of "a # b # bs"] with_alt_fits [of "Suc (length bs)"] by auto
qed auto

text \<open>The loop of \<^verbatim>\<open>feed\<close> on what is left of the buffer: the events, and the bytes that stay. Draining more than the
  buffer holds is a panic.\<close>

definition take_key :: "bytes \<Rightarrow> nat \<Rightarrow> (bytes \<Rightarrow> 'a result) \<Rightarrow> 'a result" where
  "take_key buf n k = (if n > length buf then Crash ''range end index out of range'' else k (drop n buf))"

lemma take_key_cong [fundef_cong]:
  "buf = buf' \<Longrightarrow> n = n' \<Longrightarrow> (n' \<le> length buf' \<Longrightarrow> k (drop n' buf') = k' (drop n' buf')) \<Longrightarrow>
    take_key buf n k = take_key buf' n' k'"
  by (simp add: take_key_def)

function feed_loop :: "bytes \<Rightarrow> (key_event list \<times> bytes) result" where
  "feed_loop buf =
     (if buf = [] then Ok ([], [])
      else
        case key_step buf of
          Ok (Key n e) \<Rightarrow> take_key buf n (\<lambda>rest. rbind (feed_loop rest) (\<lambda>(es, p). Ok (e # es, p)))
        | Ok (Skip n) \<Rightarrow> take_key buf n feed_loop
        | Ok Incomplete \<Rightarrow> Ok ([], buf)
        | Err e \<Rightarrow> Err e
        | Crash m \<Rightarrow> Crash m)"
  by pat_completeness auto
termination
  by (relation "measure length") (use key_step_fits in fastforce)+

declare feed_loop.simps [simp del]

record input_parser =
  ip_pending :: bytes

definition input_parser_new :: input_parser where
  "input_parser_new = \<lparr>ip_pending = []\<rparr>"

definition feed :: "bytes \<Rightarrow> input_parser \<Rightarrow> (input_parser, key_event list) outcome" where
  "feed bytes p =
     (case feed_loop (ip_pending p @ bytes) of
        Ok (es, rest) \<Rightarrow> (Ok es, p\<lparr>ip_pending := rest\<rparr>)
      | Err e \<Rightarrow> (Err e, p)
      | Crash m \<Rightarrow> (Crash m, p))"

section \<open>More input does not change a decoded key\<close>

lemma position_more: "position p xs = Some i \<Longrightarrow> position p (xs @ ys) = Some i"
  by (auto simp: position_Some nth_append)

lemma csi_stable: "csi buf = Ok s \<Longrightarrow> s \<noteq> Incomplete \<Longrightarrow> csi (buf @ zs) = Ok s"
proof -
  assume c: "csi buf = Ok s" "s \<noteq> Incomplete"
  then have l: "2 \<le> length buf" by (auto simp: csi_def split: if_splits)
  then obtain e where e: "position (\<lambda>b. 0x40 \<le> b \<and> b \<le> 0x7e) (drop 2 buf) = Some e"
    using c by (auto simp: csi_def split: option.splits)
  then have le: "2 + e < length buf" using l by (auto simp: position_Some)
  then have "take e (drop 2 (buf @ zs)) = take e (drop 2 buf)" "(buf @ zs) ! (2 + e) = buf ! (2 + e)"
    using l by (simp_all add: nth_append)
  moreover have "position (\<lambda>b. 0x40 \<le> b \<and> b \<le> 0x7e) (drop 2 (buf @ zs)) = Some e"
    using position_more [OF e, of zs] l by simp
  ultimately show ?thesis using c(1) l e le by (simp add: csi_def Let_def)
qed

lemma ss3_stable: "ss3 buf \<noteq> Incomplete \<Longrightarrow> ss3 (buf @ zs) = ss3 buf"
  by (auto simp: ss3_def nth_append split: if_splits)

lemma utf8_key_stable: "utf8_key buf = Ok s \<Longrightarrow> s \<noteq> Incomplete \<Longrightarrow> utf8_key (buf @ zs) = Ok s"
proof -
  assume u: "utf8_key buf = Ok s" "s \<noteq> Incomplete"
  then have ne: "buf \<noteq> []" by (auto simp: utf8_key_def)
  show ?thesis
  proof (cases "utf8_want (hd buf)")
    case None
    then show ?thesis using u ne utf8_key_hd [of buf] utf8_key_hd [of "buf @ zs"] by simp
  next
    case (Some w)
    then have "\<not> length buf < w" using u ne utf8_key_hd [of buf] by auto
    then have "take w (buf @ zs) = take w buf" "\<not> length (buf @ zs) < w" by simp_all
    with \<open>\<not> length buf < w\<close> have "utf8_key (buf @ zs) = utf8_key buf"
      unfolding utf8_key_hd [OF ne] using utf8_key_hd [of "buf @ zs"] ne Some by simp
    with u show ?thesis by simp
  qed
qed

lemma with_alt_Incomplete [simp]: "with_alt s = Incomplete \<longleftrightarrow> s = Incomplete"
  by (cases s) (auto simp: with_alt_def)

text \<open>The one exception is an escape byte with nothing behind it.\<close>

lemma key_step_stable:
  "key_step buf = Ok s \<Longrightarrow> s \<noteq> Incomplete \<Longrightarrow> buf \<noteq> [0x1b] \<Longrightarrow> key_step (buf @ zs) = Ok s"
  and esc_stable: "esc buf = Ok s \<Longrightarrow> s \<noteq> Incomplete \<Longrightarrow> 2 \<le> length buf \<Longrightarrow> esc (buf @ zs) = Ok s"
proof (induction buf and buf arbitrary: s and s rule: key_step_esc.induct)
  case (2 b bs)
  show ?case
  proof (cases "b = 0x1b")
    case True
    then have "2 \<le> length (b # bs)" using "2.prems"(3) by (cases bs) auto
    with True "2.IH" "2.prems" show ?thesis by simp
  next
    case False
    then show ?thesis using "2.prems" utf8_key_stable [of "b # bs" s zs] by (auto split: option.splits)
  qed
next
  case (5 a b bs)
  then show ?case
    using csi_stable [of "a # b # bs" s zs] ss3_stable [of "a # b # bs" zs]
    by (auto simp: rbind_Ok_iff split: if_splits)
qed auto

lemma feed_loop_step:
  assumes "buf \<noteq> []" and "key_step buf = Ok s"
  shows "feed_loop buf = (case s of
      Key n e \<Rightarrow> rbind (feed_loop (drop n buf)) (\<lambda>(es, p). Ok (e # es, p))
    | Skip n \<Rightarrow> feed_loop (drop n buf)
    | Incomplete \<Rightarrow> Ok ([], buf))"
  using assms key_step_fits [OF assms(1)]
  by (subst feed_loop.simps) (auto simp: take_key_def split: step.split)

lemma feed_loop_total: "\<exists>es p. feed_loop buf = Ok (es, p)"
proof (induction "length buf" arbitrary: buf rule: less_induct)
  case less
  show ?case
  proof (cases "buf = []")
    case True
    then show ?thesis by (subst feed_loop.simps) simp
  next
    case False
    obtain s where s: "key_step buf = Ok s" "step_fits (length buf) s" using key_step_fits [OF False] by blast
    have rest: "\<exists>es p. feed_loop (drop n buf) = Ok (es, p)" if "0 < n" for n using less [of "drop n buf"] False that by simp
    have "\<exists>es p. rbind (feed_loop (drop n buf)) (\<lambda>(es, p). Ok (e # es, p)) = Ok (es, p)" if "0 < n" for n e
      using rest [OF that] by auto
    with rest s show ?thesis by (cases s) (simp_all add: feed_loop_step [OF False s(1)])
  qed
qed

lemma feed_loop_chunked:
  "feed_loop a = Ok (es, p) \<Longrightarrow> a = [] \<or> last a \<noteq> 0x1b \<Longrightarrow>
     feed_loop (a @ b) = rbind (feed_loop (p @ b)) (\<lambda>(es', p'). Ok (es @ es', p'))"
proof (induction "length a" arbitrary: a es rule: less_induct)
  case less
  have id: "rbind r Ok = r" for r :: "(key_event list \<times> bytes) result" by (cases r) auto
  show ?case
  proof (cases "a = []")
    case True
    then show ?thesis using less.prems by (subst (asm) feed_loop.simps) (simp add: id)
  next
    case False
    obtain s where s: "key_step a = Ok s" "step_fits (length a) s" using key_step_fits [OF False] by blast
    have tail: "drop n a = [] \<or> last (drop n a) \<noteq> 0x1b" for n using less.prems(2) False by (cases "n < length a") auto
    have lone: "a \<noteq> [0x1b]" using less.prems(2) by auto
    have grown: "key_step (a @ b) = Ok s" if "s \<noteq> Incomplete" by (rule key_step_stable [OF s(1) that lone])
    show ?thesis
    proof (cases s)
      case (Key n e)
      then have n: "0 < n" "n \<le> length a" using s(2) by auto
      obtain es1 where es1: "feed_loop (drop n a) = Ok (es1, p)" "es = e # es1"
        using less.prems(1) feed_loop_step [OF False s(1)] Key by (auto simp: rbind_Ok_iff)
      have "feed_loop (drop n a @ b) = rbind (feed_loop (p @ b)) (\<lambda>(es', p'). Ok (es1 @ es', p'))"
        using less.hyps [OF _ es1(1) tail] n False by simp
      then show ?thesis using feed_loop_step [of "a @ b" s] grown Key n False es1(2)
        by (cases "feed_loop (p @ b)") (auto simp: split_def)
    next
      case (Skip n)
      then have n: "0 < n" "n \<le> length a" using s(2) by auto
      have "feed_loop (drop n a) = Ok (es, p)" using less.prems(1) feed_loop_step [OF False s(1)] Skip by simp
      from less.hyps [OF _ this tail] n False feed_loop_step [of "a @ b" s] grown Skip show ?thesis by simp
    next
      case Incomplete
      then show ?thesis using less.prems(1) feed_loop_step [OF False s(1)] by (simp add: id)
    qed
  qed
qed

section \<open>What a terminal sends\<close>

text \<open>The xterm encoding of a key, as the comments of the decoder describe it: cursor keys by a final byte,
  editing and function keys by a number, both with a modifier parameter; control keys and ASCII characters by one byte.\<close>

definition xterm_final :: "key_code \<Rightarrow> byte option" where
  "xterm_final c = (case c of KUp \<Rightarrow> Some 65 | KDown \<Rightarrow> Some 66 | KRight \<Rightarrow> Some 67 | KLeft \<Rightarrow> Some 68
     | KHome \<Rightarrow> Some 72 | KEnd \<Rightarrow> Some 70 | _ \<Rightarrow> None)"

definition xterm_number :: "key_code \<Rightarrow> bytes option" where
  "xterm_number c = (case c of KInsert \<Rightarrow> Some [50] | KDelete \<Rightarrow> Some [51] | KPageUp \<Rightarrow> Some [53] | KPageDown \<Rightarrow> Some [54]
     | KF n \<Rightarrow> map_of [(5, [49, 53]), (6, [49, 55]), (7, [49, 56]), (8, [49, 57]), (9, [50, 48]), (10, [50, 49]),
                (11, [50, 51]), (12, [50, 52])] n
     | _ \<Rightarrow> None)"

definition xterm_modifier :: "byte \<Rightarrow> bytes" where
  "xterm_modifier m = (if m = 0 then [] else [59, 49 + m])"

definition xterm_bytes :: "key_event \<Rightarrow> bytes" where
  "xterm_bytes e =
     (let m = ke_modifiers e; c = ke_code e in
      case (xterm_final c, xterm_number c) of
        (Some f, _) \<Rightarrow> [0x1b, 91] @ (if m = 0 then [] else 49 # xterm_modifier m) @ [f]
      | (None, Some ds) \<Rightarrow> [0x1b, 91] @ (ds @ xterm_modifier m) @ [126]
      | (None, None) \<Rightarrow>
          (case c of
             KChar n \<Rightarrow> if m = 0 then [of_nat n] else [of_nat n - 96]
           | KEnter \<Rightarrow> [13] | KTab \<Rightarrow> [9] | KBackspace \<Rightarrow> [127]
           | KBackTab \<Rightarrow> [0x1b, 91, 90]
           | KF n \<Rightarrow> [0x1b, 79, 79 + n]
           | _ \<Rightarrow> []))"

definition xterm_key :: "key_event \<Rightarrow> bool" where
  "xterm_key e =
     (let m = ke_modifiers e; c = ke_code e in
      if xterm_final c \<noteq> None \<or> xterm_number c \<noteq> None then m < 8
      else
        (case c of
           KChar n \<Rightarrow> m = 0 \<and> 32 \<le> n \<and> n < 127 \<or> m = MOD_CTRL \<and> 97 \<le> n \<and> n \<le> 122 \<and> n \<notin> {104, 105, 106, 109}
         | KEnter \<Rightarrow> m = 0 | KTab \<Rightarrow> m = 0 | KBackspace \<Rightarrow> m = 0
         | KBackTab \<Rightarrow> m = MOD_SHIFT
         | KF n \<Rightarrow> m = 0 \<and> n \<in> {1, 2, 3, 4}
         | _ \<Rightarrow> False))"

lemma csi_parameters:
  assumes "\<forall>b\<in>set ps. \<not> (0x40 \<le> b \<and> b \<le> 0x7e)" and "0x40 \<le> f" "f \<le> 0x7e"
  shows "csi (0x1b # 91 # ps @ f # rest) =
    (case csi_key f (csi_param 0 ps) (case csi_param 1 ps of Some p \<Rightarrow> from_csi_param p | None \<Rightarrow> MOD_NONE) of
       Some k \<Rightarrow> Ok (Key (length ps + 3) k)
     | None \<Rightarrow> Ok (Skip (length ps + 3)))"
  using position_append_hit [of ps "\<lambda>b. 0x40 \<le> b \<and> b \<le> 0x7e" f rest] assms
  by (simp add: csi_def Let_def nth_append)

lemma byte_below_8: "(m :: byte) < 8 \<Longrightarrow> m \<in> {0, 1, 2, 3, 4, 5, 6, 7}"
proof -
  assume "m < 8"
  then have "unat m \<in> set [0..<8]" by (simp add: word_less_nat_alt)
  then have "of_nat (unat m) \<in> (of_nat ` set [0..<8] :: byte set)" by (rule imageI)
  also have "[0..<8] = [0, 1, 2, 3, 4, 5, 6, 7]" by (simp add: upt_rec)
  finally show ?thesis by simp
qed

lemma split_on_single: "c \<notin> set xs \<Longrightarrow> split_on c xs = [xs]"
  by (induction xs) auto

lemma split_on_two: "c \<notin> set xs \<Longrightarrow> c \<notin> set ys \<Longrightarrow> split_on c (xs @ c # ys) = [xs, ys]"
  by (induction xs) (auto simp: split_on_single)

lemma modifier_digit:
  assumes "m < 8" and "m \<noteq> 0"
  shows "parse_u16 [49 + m] = Some (1 + ucast m)" "utf8_ok [49 + m]" "from_csi_param (1 + ucast m) = m" "49 + m \<noteq> 59"
    "\<not> (0x40 \<le> 49 + m \<and> 49 + m \<le> 0x7e)"
  using byte_below_8 [OF assms(1)] assms(2)
  by (auto simp: parse_u16_def is_digit_def from_csi_param_def)

text \<open>The parameters of a key with a number and perhaps a modifier.\<close>

lemma csi_params_modifier:
  assumes "m < 8" and "59 \<notin> set ds" and "\<forall>b\<in>set ds. \<not> (0x40 \<le> b \<and> b \<le> 0x7e)"
  shows "csi_param 0 (ds @ xterm_modifier m) = csi_param 0 ds"
    and "(case csi_param 1 (ds @ xterm_modifier m) of Some p \<Rightarrow> from_csi_param p | None \<Rightarrow> MOD_NONE) = m"
    and "\<forall>b\<in>set (ds @ xterm_modifier m). \<not> (0x40 \<le> b \<and> b \<le> 0x7e)"
  using modifier_digit [OF assms(1)] assms(2,3)
  by (cases "m = 0"; simp add: xterm_modifier_def csi_param_def split_on_single split_on_two MOD_NONE_def)+

lemma csi_step:
  assumes "\<forall>b\<in>set ps. \<not> (0x40 \<le> b \<and> b \<le> 0x7e)" and "0x40 \<le> f" "f \<le> 0x7e"
    and "csi_key f (csi_param 0 ps) (case csi_param 1 ps of Some p \<Rightarrow> from_csi_param p | None \<Rightarrow> MOD_NONE) = Some k"
  shows "key_step (([0x1b, 91] @ ps @ [f]) @ rest) = Ok (Key (length ([0x1b, 91] @ ps @ [f])) k)"
  using csi_parameters [OF assms(1-3), of rest] assms(4) by simp

lemma xterm_final_step:
  assumes "xterm_final c = Some f" and "m < 8"
  shows "key_step (xterm_bytes \<lparr>ke_code = c, ke_modifiers = m\<rparr> @ rest) =
    Ok (Key (length (xterm_bytes \<lparr>ke_code = c, ke_modifiers = m\<rparr>)) \<lparr>ke_code = c, ke_modifiers = m\<rparr>)"
proof -
  let ?ps = "if m = 0 then [] else 49 # xterm_modifier m"
  have f: "0x40 \<le> f" "f \<le> 0x7e" "csi_key f p m = Some \<lparr>ke_code = c, ke_modifiers = m\<rparr>" for p
    using assms(1) by (cases c; simp add: xterm_final_def csi_key_def; fail)+
  have "(case csi_param 1 ?ps of Some p \<Rightarrow> from_csi_param p | None \<Rightarrow> MOD_NONE) = m" "\<forall>b\<in>set ?ps. \<not> (0x40 \<le> b \<and> b \<le> 0x7e)"
    using csi_params_modifier(2,3) [OF assms(2), of "[49]"] by (auto simp: csi_param_def MOD_NONE_def)
  with csi_step [of ?ps f _ rest] f show ?thesis
    using assms(1) by (simp add: xterm_bytes_def Let_def)
qed

lemma xterm_number_step:
  assumes "xterm_number c = Some ds" and "m < 8"
  shows "key_step (xterm_bytes \<lparr>ke_code = c, ke_modifiers = m\<rparr> @ rest) =
    Ok (Key (length (xterm_bytes \<lparr>ke_code = c, ke_modifiers = m\<rparr>)) \<lparr>ke_code = c, ke_modifiers = m\<rparr>)"
proof -
  have "c \<in> {KInsert, KDelete, KPageUp, KPageDown, KF 5, KF 6, KF 7, KF 8, KF 9, KF 10, KF 11, KF 12}"
    using assms(1) by (auto simp: xterm_number_def split: key_code.splits if_splits)
  then have ds: "59 \<notin> set ds" "\<forall>b\<in>set ds. \<not> (0x40 \<le> b \<and> b \<le> 0x7e)" "tilde_code (csi_param 0 ds) = Some c" "xterm_final c = None"
    using assms(1) by (auto simp: xterm_number_def csi_param_def parse_u16_def is_digit_def tilde_code_def xterm_final_def)
  note ps = csi_params_modifier [OF assms(2) ds(1,2)]
  have "key_step (([0x1b, 91] @ (ds @ xterm_modifier m) @ [126]) @ rest) =
      Ok (Key (length ([0x1b, 91] @ (ds @ xterm_modifier m) @ [126])) \<lparr>ke_code = c, ke_modifiers = m\<rparr>)"
    by (rule csi_step [OF ps(3)], simp, simp, simp only: ps(1,2), simp add: csi_key_def ds(3))
  then show ?thesis using assms(1) ds(4) by (simp add: xterm_bytes_def Let_def)
qed

lemma char_step:
  assumes "32 \<le> n" and "n < 127"
  shows "key_step (of_nat n # rest) = Ok (Key 1 (key_plain (KChar n)))"
proof -
  let ?b = "of_nat n :: byte"
  have n: "unat ?b = n" using assms by (simp add: unat_of_nat)
  have b: "32 \<le> ?b" "?b < 127" using n assms by (simp_all add: word_le_nat_alt word_less_nat_alt)
  have ne: "?b \<noteq> k" if "k < 32 \<or> 127 \<le> k" for k using b that by auto
  have "\<not> ?b \<le> 26" using n assms by (simp add: word_le_nat_alt)
  then have "control ?b = None" using b ne by (simp add: control_def Let_def) 
  moreover have "?b \<le> 0x7f" "?b < 0x80" using n assms by (simp_all add: word_le_nat_alt word_less_nat_alt)
  moreover from this(1) have "utf8_want ?b = Some 1" by (simp add: utf8_want_def)
  ultimately show ?thesis
    using b ne n by (simp add: utf8_key_def first_char_def)
qed

lemma ctrl_step:
  assumes "97 \<le> n" and "n \<le> 122" and "n \<notin> {104, 105, 106, 109}"
  shows "key_step ((of_nat n - 96) # rest) = Ok (Key 1 \<lparr>ke_code = KChar n, ke_modifiers = MOD_CTRL\<rparr>)"
proof -
  have "n = 97 \<or> n = 98 \<or> n = 99 \<or> n = 100 \<or> n = 101 \<or> n = 102 \<or> n = 103 \<or> n = 107 \<or> n = 108 \<or> n = 110 \<or> n = 111 \<or>
      n = 112 \<or> n = 113 \<or> n = 114 \<or> n = 115 \<or> n = 116 \<or> n = 117 \<or> n = 118 \<or> n = 119 \<or> n = 120 \<or> n = 121 \<or> n = 122"
    using assms by simp presburger
  then show ?thesis by (elim disjE) (simp_all add: control_def)
qed

lemma xterm_step:
  assumes "xterm_key e"
  shows "key_step (xterm_bytes e @ rest) = Ok (Key (length (xterm_bytes e)) e)"
proof -
  obtain c m where e: "e = \<lparr>ke_code = c, ke_modifiers = m\<rparr>" by (cases e) auto
  show ?thesis
  proof (cases "xterm_final c = None \<and> xterm_number c = None")
    case False
    then have "m < 8" using assms by (auto simp: xterm_key_def e Let_def)
    then show ?thesis using False xterm_final_step [of c _ m rest] xterm_number_step [of c _ m rest] unfolding e by auto
  next
    case True
    then have k: "case c of
           KChar n \<Rightarrow> m = 0 \<and> 32 \<le> n \<and> n < 127 \<or> m = MOD_CTRL \<and> 97 \<le> n \<and> n \<le> 122 \<and> n \<notin> {104, 105, 106, 109}
         | KEnter \<Rightarrow> m = 0 | KTab \<Rightarrow> m = 0 | KBackspace \<Rightarrow> m = 0
         | KBackTab \<Rightarrow> m = MOD_SHIFT
         | KF n \<Rightarrow> m = 0 \<and> n \<in> {1, 2, 3, 4}
         | _ \<Rightarrow> False"
      using assms by (simp add: xterm_key_def e Let_def)
    show ?thesis
    proof (cases c)
      case (KChar n)
      then show ?thesis using k True char_step [of n rest] ctrl_step [of n rest]
        by (auto simp: e xterm_bytes_def key_plain_def MOD_NONE_def MOD_CTRL_def)
    next
      case KBackTab
      then show ?thesis using k True csi_parameters [of "[]" 90 rest]
        by (simp add: e xterm_bytes_def csi_key_def)
    next
      case (KF n)
      then show ?thesis using k True
        by (auto simp: e xterm_bytes_def ss3_def ss3_code_def key_plain_def MOD_NONE_def)
    qed (use k True in \<open>auto simp: e xterm_bytes_def control_def key_plain_def MOD_NONE_def xterm_final_def xterm_number_def\<close>)
  qed
qed

lemma feed_loop_keys: "list_all xterm_key ks \<Longrightarrow> feed_loop (concat (map xterm_bytes ks)) = Ok (ks, [])"
proof (induction ks)
  case Nil
  then show ?case by (subst feed_loop.simps) simp
next
  case (Cons k ks)
  let ?buf = "xterm_bytes k @ concat (map xterm_bytes ks)"
  have s: "key_step ?buf = Ok (Key (length (xterm_bytes k)) k)" using Cons.prems xterm_step by simp
  have "?buf \<noteq> []"
  proof
    assume "?buf = []"
    with s have "key_step [] = Ok (Key (length (xterm_bytes k)) k)" by (simp only:)
    then show False by simp
  qed
  from feed_loop_step [OF this s] Cons show ?case by simp
qed

section \<open>Properties\<close>

text \<open>The decoder is total and does not depend on how the bytes were cut. Feeding two chunks one after the other gives
  the events of feeding them at once, in order, and leaves the same bytes pending, wherever the cut is,
  except directly behind an escape byte (which alone is the Esc key).\<close>

theorem feed_chunked:
  assumes "ip_pending p @ a = [] \<or> last (ip_pending p @ a) \<noteq> 0x1b"
  shows "\<exists>es es' p1 p2. feed a p = (Ok es, p1) \<and> feed b p1 = (Ok es', p2) \<and> feed (a @ b) p = (Ok (es @ es'), p2)"
proof -
  obtain es q where a: "feed_loop (ip_pending p @ a) = Ok (es, q)" using feed_loop_total by blast
  obtain es' q' where b: "feed_loop (q @ b) = Ok (es', q')" using feed_loop_total by blast
  from feed_loop_chunked [OF a assms, of b] a b show ?thesis by (simp add: feed_def)
qed

theorem feed_chunked_witness:
  "\<exists>es es' p1 p2. feed [0x1b, 91] input_parser_new = (Ok es, p1) \<and> feed [65] p1 = (Ok es', p2) \<and>
     feed [0x1b, 91, 65] input_parser_new = (Ok (es @ es'), p2)"
  using feed_chunked [of input_parser_new "[0x1b, 91]" "[65]"] by (simp add: input_parser_new_def)



text \<open>An escape sequence that never ends stays pending whole, however long it is.\<close>

lemma unterminated_sequence_pends:
  "feed (0x1b # 91 # replicate n 48) input_parser_new = (Ok [], \<lparr>ip_pending = 0x1b # 91 # replicate n 48\<rparr>)"
proof -
  have "position (\<lambda>b :: byte. 0x40 \<le> b \<and> b \<le> 0x7e) (replicate n 48) = None" by (simp add: position_None)
  then have "key_step (0x1b # 91 # replicate n 48) = Ok Incomplete" by (simp add: csi_def)
  from feed_loop_step [OF _ this] show ?thesis by (simp add: feed_def input_parser_new_def)
qed

end
