(* ===== verification/Tui_Backend.thy ===== *)
theory Tui_Backend
  imports Tui_Input
begin

text \<open>
  The terminal backend of the handlers (\<^verbatim>\<open>crates/ssh-tui/src/backend.rs\<close>, the constants of \<^verbatim>\<open>terminal.rs\<close>): cells
  to escape sequences, with the peer's cursor and style tracked so that redundant sequences are left out. The
  second half is an abstract terminal that interprets the bytes, and shows that leaving them out is harmless:
  the screen is that of painting every cell. A set of \<^verbatim>\<open>ratatui\<close> modifiers is a set of flags.
\<close>

section \<open>Cells\<close>

record screen_pos =
  pos_x :: u16
  pos_y :: u16

record screen_size =
  sz_width :: u16
  sz_height :: u16

datatype color =
    CReset | CBlack | CRed | CGreen | CYellow | CBlue | CMagenta | CCyan | CGray
  | CDarkGray | CLightRed | CLightGreen | CLightYellow | CLightBlue | CLightMagenta | CLightCyan | CWhite
  | CRgb byte byte byte
  | CIndexed byte

datatype flag = Bold | Dim | Italic | Underlined | SlowBlink | RapidBlink | Reversed | Hidden | CrossedOut

type_synonym style = "color \<times> color \<times> flag set"

abbreviation reset_style :: style where "reset_style \<equiv> (CReset, CReset, {})"

record cell =
  cell_symbol :: bytes
  cell_fg :: color
  cell_bg :: color
  cell_modifier :: "flag set"

text \<open>A number in decimal, as \<^verbatim>\<open>format!\<close> prints it.\<close>

fun dec :: "nat \<Rightarrow> bytes" where
  "dec n = (if n < 10 then [of_nat (48 + n)] else dec (n div 10) @ [of_nat (48 + n mod 10)])"

declare dec.simps [simp del]

section \<open>Colours and modifiers\<close>

text \<open>The table of \<^verbatim>\<open>sgr_num\<close> has these numbers, each with its decimal text; anything else is \<^verbatim>\<open>unreachable!\<close>.\<close>

definition sgr_num :: "byte \<Rightarrow> bytes result" where
  "sgr_num n =
     (if n \<in> set [30, 31, 32, 33, 34, 35, 36, 37, 39, 40, 41, 42, 43, 44, 45, 46, 47, 49,
                  90, 91, 92, 93, 94, 95, 96, 97, 100, 101, 102, 103, 104, 105, 106, 107]
      then Ok (dec (unat n))
      else Crash ''ansi_color only produces basic SGR color numbers'')"

definition ansi_color :: "color \<Rightarrow> byte \<Rightarrow> bytes \<Rightarrow> bytes result" where
  "ansi_color c base extended =
     (let simple = (\<lambda>offset. sgr_num (base + offset));
          bright = (\<lambda>offset. sgr_num (base + 60 + offset))
      in case c of
           CReset \<Rightarrow> sgr_num (base + 9)
         | CBlack \<Rightarrow> simple 0
         | CRed \<Rightarrow> simple 1
         | CGreen \<Rightarrow> simple 2
         | CYellow \<Rightarrow> simple 3
         | CBlue \<Rightarrow> simple 4
         | CMagenta \<Rightarrow> simple 5
         | CCyan \<Rightarrow> simple 6
         | CGray \<Rightarrow> simple 7
         | CDarkGray \<Rightarrow> bright 0
         | CLightRed \<Rightarrow> bright 1
         | CLightGreen \<Rightarrow> bright 2
         | CLightYellow \<Rightarrow> bright 3
         | CLightBlue \<Rightarrow> bright 4
         | CLightMagenta \<Rightarrow> bright 5
         | CLightCyan \<Rightarrow> bright 6
         | CWhite \<Rightarrow> bright 7
         | CRgb r g b \<Rightarrow>
             Ok (extended @ str '';2;'' @ dec (unat r) @ str '';'' @ dec (unat g) @ str '';'' @ dec (unat b))
         | CIndexed i \<Rightarrow> Ok (extended @ str '';5;'' @ dec (unat i)))"

definition fg_code :: "color \<Rightarrow> bytes result" where
  "fg_code c = ansi_color c 30 (str ''38'')"

definition bg_code :: "color \<Rightarrow> bytes result" where
  "bg_code c = ansi_color c 40 (str ''48'')"

definition modifier_table :: "(flag \<times> bytes) list" where
  "modifier_table =
     [(Bold, str ''1''), (Dim, str ''2''), (Italic, str ''3''), (Underlined, str ''4''), (SlowBlink, str ''5''),
      (RapidBlink, str ''6''), (Reversed, str ''7''), (Hidden, str ''8''), (CrossedOut, str ''9'')]"

definition modifier_codes :: "flag set \<Rightarrow> bytes list" where
  "modifier_codes m = map snd (filter (\<lambda>(flag, _). flag \<in> m) modifier_table)"

section \<open>The backend\<close>

record ssh_backend =
  sb_buf :: bytes
  sb_size :: screen_size
  sb_cursor :: "screen_pos option"
  sb_style :: style

definition backend_new :: "u16 \<Rightarrow> u16 \<Rightarrow> ssh_backend" where
  "backend_new cols rows =
     \<lparr>sb_buf = [], sb_size = \<lparr>sz_width = cols, sz_height = rows\<rparr>, sb_cursor = None, sb_style = reset_style\<rparr>"

definition set_size :: "u16 \<Rightarrow> u16 \<Rightarrow> ssh_backend \<Rightarrow> ssh_backend" where
  "set_size cols rows b = b\<lparr>sb_size := \<lparr>sz_width = cols, sz_height = rows\<rparr>\<rparr>"

definition take_frame :: "ssh_backend \<Rightarrow> bytes \<times> ssh_backend" where
  "take_frame b = (sb_buf b, b\<lparr>sb_buf := []\<rparr>)"

text \<open>\<^verbatim>\<open>self.buf.extend_from_slice\<close>.\<close>

definition buf_extend :: "bytes \<Rightarrow> ssh_backend \<Rightarrow> ssh_backend" where
  "buf_extend bs b = b\<lparr>sb_buf := sb_buf b @ bs\<rparr>"

definition move_to :: "screen_pos \<Rightarrow> ssh_backend \<Rightarrow> ssh_backend" where
  "move_to pos b =
     (buf_extend ([27, 91] @ dec (unat (pos_y pos + 1)) @ str '';'' @ dec (unat (pos_x pos + 1)) @ str ''H'') b)
       \<lparr>sb_cursor := Some pos\<rparr>"

definition sgr :: "bytes \<Rightarrow> ssh_backend \<Rightarrow> ssh_backend" where
  "sgr code b = buf_extend [109] (buf_extend code (buf_extend [27, 91] b))"

definition set_style ::
    "color \<Rightarrow> color \<Rightarrow> flag set \<Rightarrow> ssh_backend \<Rightarrow> (ssh_backend, unit) outcome" where
  "set_style fg bg modifier b =
     (let (cur_fg, cur_bg, cur_mod) = sb_style b in
      andThen
        (if modifier \<noteq> cur_mod then
           let b = buf_extend [27, 91, 48, 109] b;
               b = fold sgr (modifier_codes modifier) b
           in
           andThen (if fg \<noteq> CReset then onOk (fg_code fg) b (\<lambda>c. (Ok (), sgr c b)) else (Ok (), b)) (\<lambda>_ b.
           if bg \<noteq> CReset then onOk (bg_code bg) b (\<lambda>c. (Ok (), sgr c b)) else (Ok (), b))
         else
           andThen (if fg \<noteq> cur_fg then onOk (fg_code fg) b (\<lambda>c. (Ok (), sgr c b)) else (Ok (), b)) (\<lambda>_ b.
           if bg \<noteq> cur_bg then onOk (bg_code bg) b (\<lambda>c. (Ok (), sgr c b)) else (Ok (), b)))
        (\<lambda>_ b. (Ok (), b\<lparr>sb_style := (fg, bg, modifier)\<rparr>)))"

section \<open>The methods of the backend trait\<close>

definition cursor_after :: "u16 \<Rightarrow> u16 \<Rightarrow> bytes \<Rightarrow> screen_pos option" where
  "cursor_after x y symbol =
     (case symbol of
        [b] \<Rightarrow> if 0x20 \<le> b \<and> b < 0x7f then Some \<lparr>pos_x = x + 1, pos_y = y\<rparr> else None
      | _ \<Rightarrow> None)"

definition draw_cell :: "u16 \<times> u16 \<times> cell \<Rightarrow> ssh_backend \<Rightarrow> (ssh_backend, unit) outcome" where
  "draw_cell item b =
     (let (x, y, cell) = item;
          pos = \<lparr>pos_x = x, pos_y = y\<rparr>;
          b = (if sb_cursor b \<noteq> Some pos then move_to pos b else b)
      in
      andThen (set_style (cell_fg cell) (cell_bg cell) (cell_modifier cell) b) (\<lambda>_ b.
        (Ok (), (buf_extend (cell_symbol cell) b)\<lparr>sb_cursor := cursor_after x y (cell_symbol cell)\<rparr>)))"

fun draw_cells :: "(u16 \<times> u16 \<times> cell) list \<Rightarrow> ssh_backend \<Rightarrow> (ssh_backend, unit) outcome" where
  "draw_cells [] b = (Ok (), b)"
| "draw_cells (c # cs) b = andThen (draw_cell c b) (\<lambda>_ b. draw_cells cs b)"

definition draw :: "(u16 \<times> u16 \<times> cell) list \<Rightarrow> ssh_backend \<Rightarrow> (ssh_backend, unit) outcome" where
  "draw content b =
     andThen (draw_cells content b) (\<lambda>_ b.
       if sb_style b \<noteq> reset_style then (Ok (), (buf_extend [27, 91, 48, 109] b)\<lparr>sb_style := reset_style\<rparr>)
       else (Ok (), b))"

definition append_lines :: "u16 \<Rightarrow> ssh_backend \<Rightarrow> ssh_backend" where
  "append_lines n b =
     (let b = buf_extend (replicate (unat n) 10) b in
      case sb_cursor b of
        Some pos \<Rightarrow>
          let last = (if sz_height (sb_size b) = 0 then 0 else sz_height (sb_size b) - 1)
          in b\<lparr>sb_cursor := Some \<lparr>pos_x = 0, pos_y = min (pos_y pos + n) last\<rparr>\<rparr>
      | None \<Rightarrow> b)"

definition hide_cursor :: "ssh_backend \<Rightarrow> ssh_backend" where
  "hide_cursor b = buf_extend ([27, 91] @ str ''?25l'') b"

definition show_cursor :: "ssh_backend \<Rightarrow> ssh_backend" where
  "show_cursor b = buf_extend ([27, 91] @ str ''?25h'') b"

definition get_cursor_position :: "ssh_backend \<Rightarrow> screen_pos" where
  "get_cursor_position b = (case sb_cursor b of Some p \<Rightarrow> p | None \<Rightarrow> \<lparr>pos_x = 0, pos_y = 0\<rparr>)"

definition set_cursor_position :: "screen_pos \<Rightarrow> ssh_backend \<Rightarrow> ssh_backend" where
  "set_cursor_position p b = move_to p b"

definition clear :: "ssh_backend \<Rightarrow> ssh_backend" where
  "clear b = buf_extend ([27, 91] @ str ''2J'') b"

datatype clear_type = ClearAll | AfterCursor | BeforeCursor | CurrentLine | UntilNewLine

fun clear_code :: "clear_type \<Rightarrow> bytes" where
  "clear_code ClearAll = str ''2J''"
| "clear_code AfterCursor = str ''0J''"
| "clear_code BeforeCursor = str ''1J''"
| "clear_code CurrentLine = str ''2K''"
| "clear_code UntilNewLine = str ''0K''"

definition clear_region :: "clear_type \<Rightarrow> ssh_backend \<Rightarrow> ssh_backend" where
  "clear_region ct b = buf_extend ([27, 91] @ clear_code ct) b"

definition window_size :: "ssh_backend \<Rightarrow> screen_size \<times> screen_size" where
  "window_size b = (sb_size b, \<lparr>sz_width = 0, sz_height = 0\<rparr>)"

definition ENTER :: bytes where
  "ENTER = [27, 91] @ str ''?1049h'' @ [27, 91] @ str ''2J'' @ [27, 91] @ str ''H''"

definition LEAVE :: bytes where
  "LEAVE = [27, 91] @ str ''0m'' @ [27, 91] @ str ''?1049l'' @ [27, 91] @ str ''?25h''"

section \<open>An abstract terminal\<close>

text \<open>The terminal at the other end: its size, cursor, current style and screen. A column equal to the width is the
  state behind the last column, where the next character would wrap. \<open>w\<close> is the terminal's own notion of how
  many columns a character beyond ASCII takes.\<close>

record terminal =
  tm_cols :: nat
  tm_rows :: nat
  tm_x :: nat
  tm_y :: nat
  tm_style :: style
  tm_visible :: bool
  tm_screen :: "nat \<times> nat \<Rightarrow> (bytes \<times> style) option"

definition paint :: "nat \<Rightarrow> nat \<times> nat \<Rightarrow> bytes \<times> style \<Rightarrow> (nat \<times> nat \<Rightarrow> (bytes \<times> style) option) \<Rightarrow>
    nat \<times> nat \<Rightarrow> (bytes \<times> style) option" where
  "paint n at what scr =
     (\<lambda>p. if p = at then Some what else if snd p = snd at \<and> fst at < fst p \<and> fst p < fst at + n then None else scr p)"

definition line_down :: "terminal \<Rightarrow> terminal" where
  "line_down t = t\<lparr>tm_y := min (tm_y t + 1) (tm_rows t - 1)\<rparr>"

definition tm_put :: "nat \<Rightarrow> bytes \<Rightarrow> terminal \<Rightarrow> terminal" where
  "tm_put n symbol t =
     (let t = (if tm_x t < tm_cols t then t else line_down (t\<lparr>tm_x := 0\<rparr>)) in
      t\<lparr>tm_screen := paint n (tm_x t, tm_y t) (symbol, tm_style t) (tm_screen t), tm_x := min (tm_x t + n) (tm_cols t)\<rparr>)"

definition tm_control :: "byte \<Rightarrow> terminal \<Rightarrow> terminal" where
  "tm_control b t = (if b = 10 then line_down t else if b = 13 then t\<lparr>tm_x := 0\<rparr> else t)"

definition basic_colors :: "color list" where
  "basic_colors = [CBlack, CRed, CGreen, CYellow, CBlue, CMagenta, CCyan, CGray]"

definition bright_colors :: "color list" where
  "bright_colors = [CDarkGray, CLightRed, CLightGreen, CLightYellow, CLightBlue, CLightMagenta, CLightCyan, CWhite]"

definition flags :: "flag list" where
  "flags = [Bold, Dim, Italic, Underlined, SlowBlink, RapidBlink, Reversed, Hidden, CrossedOut]"

definition with_fg :: "color \<Rightarrow> style \<Rightarrow> style" where
  "with_fg c s = (c, snd s)"

definition with_bg :: "color \<Rightarrow> style \<Rightarrow> style" where
  "with_bg c s = (fst s, c, snd (snd s))"

definition with_flag :: "flag \<Rightarrow> style \<Rightarrow> style" where
  "with_flag f s = (fst s, fst (snd s), insert f (snd (snd s)))"

text \<open>The sequence Select Graphic Rendition.\<close>

fun sgr_apply :: "nat list \<Rightarrow> style \<Rightarrow> style" where
  "sgr_apply [] s = s"
| "sgr_apply (p # ps) s =
     (if p = 0 then sgr_apply ps reset_style
      else if p \<le> 9 then sgr_apply ps (with_flag (flags ! (p - 1)) s)
      else if 30 \<le> p \<and> p \<le> 37 then sgr_apply ps (with_fg (basic_colors ! (p - 30)) s)
      else if 40 \<le> p \<and> p \<le> 47 then sgr_apply ps (with_bg (basic_colors ! (p - 40)) s)
      else if 90 \<le> p \<and> p \<le> 97 then sgr_apply ps (with_fg (bright_colors ! (p - 90)) s)
      else if 100 \<le> p \<and> p \<le> 107 then sgr_apply ps (with_bg (bright_colors ! (p - 100)) s)
      else if p = 39 then sgr_apply ps (with_fg CReset s)
      else if p = 49 then sgr_apply ps (with_bg CReset s)
      else if p = 38 \<or> p = 48 then
        (let paint_with = (if p = 38 then with_fg else with_bg) in
         case ps of
           k # i # qs \<Rightarrow>
             if k = 5 then sgr_apply qs (paint_with (CIndexed (of_nat i)) s)
             else if k = 2 then
               (case qs of
                  g # b # rs \<Rightarrow> sgr_apply rs (paint_with (CRgb (of_nat i) (of_nat g) (of_nat b)) s)
                | _ \<Rightarrow> s)
             else s
         | _ \<Rightarrow> s)
      else sgr_apply ps s)"

text \<open>The numbers of a sequence; a number that is left out counts as 0.\<close>

definition csi_nums :: "bytes \<Rightarrow> nat list" where
  "csi_nums raw = map (digits_val 0) (split_on 59 raw)"

definition erase :: "(nat \<times> nat \<Rightarrow> bool) \<Rightarrow> terminal \<Rightarrow> terminal" where
  "erase here t = t\<lparr>tm_screen := (\<lambda>p. if here p then None else tm_screen t p)\<rparr>"

text \<open>A number from 1, as a coordinate from 0 inside the screen.\<close>

definition coord :: "nat \<Rightarrow> nat list \<Rightarrow> nat \<Rightarrow> nat" where
  "coord i ns bound = min ((if i < length ns then ns ! i else 0) - 1) (bound - 1)"

definition tm_csi :: "bytes \<Rightarrow> byte \<Rightarrow> terminal \<Rightarrow> terminal" where
  "tm_csi raw f t =
     (let ns = csi_nums raw; x = tm_x t; y = tm_y t in
      if f = 109 then t\<lparr>tm_style := sgr_apply ns (tm_style t)\<rparr>
      else if f = 72 then t\<lparr>tm_y := coord 0 ns (tm_rows t), tm_x := coord 1 ns (tm_cols t)\<rparr>
      else if f = 74 \<and> ns = [2] then erase (\<lambda>_. True) t
      else if f = 74 \<and> ns = [0] then erase (\<lambda>p. snd p > y \<or> snd p = y \<and> fst p \<ge> x) t
      else if f = 74 \<and> ns = [1] then erase (\<lambda>p. snd p < y \<or> snd p = y \<and> fst p \<le> x) t
      else if f = 75 \<and> ns = [2] then erase (\<lambda>p. snd p = y) t
      else if f = 75 \<and> ns = [0] then erase (\<lambda>p. snd p = y \<and> fst p \<ge> x) t
      else if f = 104 \<and> raw = str ''?25'' then t\<lparr>tm_visible := True\<rparr>
      else if f = 108 \<and> raw = str ''?25'' then t\<lparr>tm_visible := False\<rparr>
      else t)"

definition is_final :: "byte \<Rightarrow> bool" where
  "is_final b = (0x40 \<le> b \<and> b \<le> 0x7e)"

text \<open>Interpreting a stream of bytes: control sequences, control bytes, printable ASCII, and runs of bytes beyond
  ASCII, which are one character.\<close>

function term_run :: "(bytes \<Rightarrow> nat) \<Rightarrow> bytes \<Rightarrow> terminal \<Rightarrow> terminal" where
  "term_run w [] t = t"
| "term_run w (b # bs) t =
     (if b = 27 then
        (case bs of
           [] \<Rightarrow> t
         | c # rest \<Rightarrow>
             if c = 91 then
               (case position is_final rest of
                  None \<Rightarrow> t
                | Some e \<Rightarrow> term_run w (drop (Suc e) rest) (tm_csi (take e rest) (rest ! e) t))
             else term_run w rest t)
      else if b < 32 \<or> b = 127 then term_run w bs (tm_control b t)
      else if b < 127 then term_run w bs (tm_put 1 [b] t)
      else
        (let symbol = b # takeWhile (\<lambda>c. 0x80 \<le> c) bs
         in term_run w (dropWhile (\<lambda>c. 0x80 \<le> c) bs) (tm_put (w symbol) symbol t)))"
  by pat_completeness auto
termination
  by (relation "measure (\<lambda>(w, bs, t). length bs)") (auto simp: le_imp_less_Suc length_dropWhile_le)

declare term_run.simps [simp del]
declare term_run.simps(1) [simp]

section \<open>Numbers and control sequences\<close>

lemma digit_of_nat: "n < 10 \<Longrightarrow> unat (of_nat (48 + n) :: byte) = 48 + n"
  by (rule unat_of_nat_u8) simp

lemma dec_digits: "\<forall>b\<in>set (dec n). is_digit b"
proof (induction n rule: dec.induct)
  case (1 n)
  have "is_digit (of_nat (48 + k))" if "k < 10" for k
    using digit_of_nat [OF that] that by (simp add: is_digit_def word_le_nat_alt)
  then show ?case using 1 by (simp add: dec.simps [of n])
qed

lemma digits_val_snoc: "digits_val acc (bs @ [b]) = digits_val acc bs * 10 + (unat b - 48)"
  by (induction acc bs rule: digits_val.induct) simp_all

lemma digits_val_dec [simp]: "digits_val 0 (dec n) = n"
proof (induction n rule: dec.induct)
  case (1 n)
  show ?case
  proof (cases "n < 10")
    case True
    then show ?thesis using digit_of_nat [of n] by (simp add: dec.simps [of n])
  next
    case False
    then show ?thesis using 1 digit_of_nat [of "n mod 10"] by (simp add: dec.simps [of n] digits_val_snoc del: of_nat_add)
  qed
qed

definition params_ok :: "bytes \<Rightarrow> bool" where
  "params_ok raw \<longleftrightarrow> (\<forall>b\<in>set raw. is_digit b \<or> b = 59 \<or> b = 63)"

lemma params_ok_simps [simp]:
  "params_ok []" "params_ok (b # bs) \<longleftrightarrow> (is_digit b \<or> b = 59 \<or> b = 63) \<and> params_ok bs"
  "params_ok (xs @ ys) \<longleftrightarrow> params_ok xs \<and> params_ok ys" "params_ok (dec n)"
  using dec_digits by (auto simp: params_ok_def)

lemma csi_nums_dec [simp]: "csi_nums (dec n) = [n]"
proof -
  have "59 \<notin> set (dec n)" using dec_digits [of n] by (auto simp: is_digit_def)
  then show ?thesis by (simp add: csi_nums_def split_on_clean)
qed

lemma csi_nums_append: "59 \<notin> set xs \<Longrightarrow> csi_nums (xs @ 59 # ys) = digits_val 0 xs # csi_nums ys"
  by (simp add: csi_nums_def split_on_append)

lemma csi_nums_dec_append [simp]: "csi_nums (dec n @ 59 # ys) = n # csi_nums ys"
proof -
  have "59 \<notin> set (dec n)" using dec_digits [of n] by (auto simp: is_digit_def)
  then show ?thesis by (simp add: csi_nums_append)
qed

lemma position_append_skip: "\<forall>x\<in>set xs. \<not> p x \<Longrightarrow> p y \<Longrightarrow> position p (xs @ y # ys) = Some (length xs)"
  by (induction xs) simp_all

lemma term_run_csi:
  assumes "params_ok raw" and "is_final f"
  shows "term_run w (27 # 91 # raw @ f # rest) t = term_run w rest (tm_csi raw f t)"
proof -
  have "\<forall>b\<in>set raw. \<not> is_final b"
    using assms(1) by (auto simp: params_ok_def is_digit_def is_final_def word_le_nat_alt)
  then show ?thesis using position_append_skip [of raw is_final f rest] assms(2)
    by (simp add: term_run.simps(2))
qed

section \<open>What a piece of output does\<close>

definition clean :: "bytes \<Rightarrow> bool" where
  "clean rest \<longleftrightarrow> rest = [] \<or> hd rest < 0x80"

text \<open>The bytes written between two states of the backend take the terminal from one state to another. Where the
  backend has lost track of the cursor a character beyond ASCII may be pending; what follows it starts with
  an escape.\<close>

definition emits :: "(bytes \<Rightarrow> nat) \<Rightarrow> ssh_backend \<Rightarrow> ssh_backend \<Rightarrow> terminal \<Rightarrow> terminal \<Rightarrow> bool" where
  "emits w b b' t t' \<longleftrightarrow> (\<exists>out. sb_buf b' = sb_buf b @ out \<and>
     (sb_cursor b = None \<longrightarrow> out = [] \<and> sb_cursor b' = None \<or> (\<exists>out'. out = 27 # out')) \<and>
     (\<forall>rest. (sb_cursor b' = None \<longrightarrow> clean rest) \<longrightarrow> term_run w (out @ rest) t = term_run w rest t'))"

definition matches :: "ssh_backend \<Rightarrow> terminal \<Rightarrow> bool" where
  "matches b t \<longleftrightarrow> tm_style t = sb_style b \<and>
     (\<forall>p. sb_cursor b = Some p \<longrightarrow> tm_x t = unat (pos_x p) \<and> tm_y t = unat (pos_y p))"

lemma emits_refl: "emits w b b t t"
  by (simp add: emits_def)

lemma emits_same: "sb_buf b' = sb_buf b \<Longrightarrow> sb_cursor b' = sb_cursor b \<Longrightarrow> emits w b b' t t"
  by (simp add: emits_def)

lemma emits_trans: "emits w b b1 t t1 \<Longrightarrow> emits w b1 b2 t1 t2 \<Longrightarrow> emits w b b2 t t2"
proof -
  assume "emits w b b1 t t1" and "emits w b1 b2 t1 t2"
  then obtain o1 o2 where o1: "sb_buf b1 = sb_buf b @ o1" "sb_cursor b = None \<longrightarrow> o1 = [] \<and> sb_cursor b1 = None \<or> (\<exists>out'. o1 = 27 # out')"
      "\<And>rest. (sb_cursor b1 = None \<longrightarrow> clean rest) \<Longrightarrow> term_run w (o1 @ rest) t = term_run w rest t1"
    and o2: "sb_buf b2 = sb_buf b1 @ o2" "sb_cursor b1 = None \<longrightarrow> o2 = [] \<and> sb_cursor b2 = None \<or> (\<exists>out'. o2 = 27 # out')"
      "\<And>rest. (sb_cursor b2 = None \<longrightarrow> clean rest) \<Longrightarrow> term_run w (o2 @ rest) t1 = term_run w rest t2"
    unfolding emits_def by metis
  have "term_run w ((o1 @ o2) @ rest) t = term_run w rest t2" if r: "sb_cursor b2 = None \<longrightarrow> clean rest" for rest
  proof -
    have "sb_cursor b1 = None \<longrightarrow> clean (o2 @ rest)" using o2(2) r by (auto simp: clean_def)
    then show ?thesis using o1(3) [of "o2 @ rest"] o2(3) [OF r] by simp
  qed
  then show ?thesis unfolding emits_def using o1(1,2) o2(1,2)
    by (intro exI [of _ "o1 @ o2"]) auto
qed

lemma emits_run: "emits w b b' t t' \<Longrightarrow> sb_buf b = [] \<Longrightarrow> term_run w (sb_buf b') t = t'"
proof -
  assume "emits w b b' t t'" and "sb_buf b = []"
  then obtain out where "sb_buf b' = out" "\<And>rest. clean rest \<Longrightarrow> term_run w (out @ rest) t = term_run w rest t'"
    unfolding emits_def by auto
  from this(1) this(2) [of "[]"] show ?thesis by (simp add: clean_def)
qed

lemma emits_csi:
  assumes "sb_buf b' = sb_buf b @ 27 # 91 # raw @ [f]" and "params_ok raw" and "is_final f" and "t' = tm_csi raw f t"
  shows "emits w b b' t t'"
  unfolding emits_def using assms term_run_csi [OF assms(2,3)] by (intro exI [of _ "27 # 91 # raw @ [f]"]) simp

section \<open>Styles\<close>

lemma buf_extend_simps [simp]:
  "sb_buf (buf_extend bs b) = sb_buf b @ bs" "sb_cursor (buf_extend bs b) = sb_cursor b" "sb_style (buf_extend bs b) = sb_style b"
  "sb_size (buf_extend bs b) = sb_size b"
  by (simp_all add: buf_extend_def)

lemma sgr_simps [simp]:
  "sb_buf (sgr c b) = sb_buf b @ 27 # 91 # c @ [109]" "sb_cursor (sgr c b) = sb_cursor b" "sb_style (sgr c b) = sb_style b"
  "sb_size (sgr c b) = sb_size b"
  by (simp_all add: sgr_def)

lemma emits_sgr:
  assumes "params_ok c" and "t' = t\<lparr>tm_style := sgr_apply (csi_nums c) (tm_style t)\<rparr>"
  shows "emits w b (sgr c b) t t'"
  by (rule emits_csi [of _ _ c 109]) (simp_all add: assms is_final_def tm_csi_def)

lemma csi_nums_lit:
  "csi_nums (51 # 56 # 59 # ys) = 38 # csi_nums ys" "csi_nums (52 # 56 # 59 # ys) = 48 # csi_nums ys"
  "csi_nums (50 # 59 # ys) = 2 # csi_nums ys" "csi_nums (53 # 59 # ys) = 5 # csi_nums ys"
  using csi_nums_append [of "[51, 56]" ys] csi_nums_append [of "[52, 56]" ys] csi_nums_append [of "[50]" ys]
    csi_nums_append [of "[53]" ys] by simp_all

lemmas color_defs = ansi_color_def sgr_num_def Let_def str_def csi_nums_lit is_digit_def basic_colors_def bright_colors_def
  with_fg_def with_bg_def

lemma fg_code_correct:
  "\<exists>code. fg_code c = Ok code \<and> params_ok code \<and> (\<forall>s. sgr_apply (csi_nums code) s = with_fg c s)"
  by (cases c) (simp_all add: fg_code_def color_defs)

lemma bg_code_correct:
  "\<exists>code. bg_code c = Ok code \<and> params_ok code \<and> (\<forall>s. sgr_apply (csi_nums code) s = with_bg c s)"
  by (cases c) (simp_all add: bg_code_def color_defs)

lemma modifier_entry:
  "(f, code) \<in> set modifier_table \<Longrightarrow> params_ok code \<and> sgr_apply (csi_nums code) s = with_flag f s"
  by (auto simp: modifier_table_def str_def is_digit_def csi_nums_def flags_def)

lemma emits_modifiers:
  "set L \<subseteq> set modifier_table \<Longrightarrow>
   emits w b (fold sgr (map snd L) b) t (t\<lparr>tm_style := fold (\<lambda>e. with_flag (fst e)) L (tm_style t)\<rparr>)"
proof (induction L arbitrary: b t)
  case (Cons e L)
  let ?t = "t\<lparr>tm_style := with_flag (fst e) (tm_style t)\<rparr>"
  have "emits w b (sgr (snd e) b) t ?t"
    using modifier_entry [of "fst e" "snd e" "tm_style t"] Cons.prems by (intro emits_sgr) simp_all
  from emits_trans [OF this] Cons.IH [of "sgr (snd e) b" ?t] Cons.prems show ?case by simp
qed (simp add: emits_refl)

lemma fold_sgr_simps [simp]:
  "sb_cursor (fold sgr cs b) = sb_cursor b" "sb_style (fold sgr cs b) = sb_style b" "sb_size (fold sgr cs b) = sb_size b"
  by (induction cs arbitrary: b) simp_all

lemma fold_flags: "fold (\<lambda>e. with_flag (fst e)) L (fg, bg, m) = (fg, bg, m \<union> fst ` set L)"
  by (induction L arbitrary: m) (auto simp: with_flag_def)

lemma modifier_flags: "fst ` set (filter (\<lambda>(flag, _). flag \<in> m) modifier_table) = m"
proof -
  have "f \<in> fst ` set modifier_table" for f by (cases f) (simp_all add: modifier_table_def)
  then show ?thesis by force
qed

text \<open>Colours: one is set unless it is already what the terminal has.\<close>

lemma emits_fg:
  "\<exists>b'. (if fg \<noteq> fst (tm_style t) then onOk (fg_code fg) b (\<lambda>c. (Ok (), sgr c b)) else (Ok (), b)) = (Ok (), b') \<and>
     sb_cursor b' = sb_cursor b \<and> sb_style b' = sb_style b \<and> sb_size b' = sb_size b \<and>
     emits w b b' t (t\<lparr>tm_style := with_fg fg (tm_style t)\<rparr>)"
proof -
  obtain code where c: "fg_code fg = Ok code" "params_ok code" "\<And>s. sgr_apply (csi_nums code) s = with_fg fg s"
    using fg_code_correct by blast
  show ?thesis
  proof (cases "fg = fst (tm_style t)")
    case True
    then have "with_fg fg (tm_style t) = tm_style t" by (simp add: with_fg_def)
    then show ?thesis using True by (simp add: emits_refl)
  next
    case False
    have "emits w b (sgr code b) t (t\<lparr>tm_style := with_fg fg (tm_style t)\<rparr>)" by (rule emits_sgr) (simp_all add: c)
    then show ?thesis using False c(1) by simp
  qed
qed

lemma emits_bg:
  "\<exists>b'. (if bg \<noteq> fst (snd (tm_style t)) then onOk (bg_code bg) b (\<lambda>c. (Ok (), sgr c b)) else (Ok (), b)) = (Ok (), b') \<and>
     sb_cursor b' = sb_cursor b \<and> sb_style b' = sb_style b \<and> sb_size b' = sb_size b \<and>
     emits w b b' t (t\<lparr>tm_style := with_bg bg (tm_style t)\<rparr>)"
proof -
  obtain code where c: "bg_code bg = Ok code" "params_ok code" "\<And>s. sgr_apply (csi_nums code) s = with_bg bg s"
    using bg_code_correct by blast
  show ?thesis
  proof (cases "bg = fst (snd (tm_style t))")
    case True
    then have "with_bg bg (tm_style t) = tm_style t" by (simp add: with_bg_def)
    then show ?thesis using True by (simp add: emits_refl)
  next
    case False
    have "emits w b (sgr code b) t (t\<lparr>tm_style := with_bg bg (tm_style t)\<rparr>)" by (rule emits_sgr) (simp_all add: c)
    then show ?thesis using False c(1) by simp
  qed
qed

lemma emits_colors:
  "\<exists>b'. andThen (if fg \<noteq> fst (tm_style t) then onOk (fg_code fg) b (\<lambda>c. (Ok (), sgr c b)) else (Ok (), b)) (\<lambda>_ b.
          if bg \<noteq> fst (snd (tm_style t)) then onOk (bg_code bg) b (\<lambda>c. (Ok (), sgr c b)) else (Ok (), b)) = (Ok (), b') \<and>
     sb_cursor b' = sb_cursor b \<and> sb_style b' = sb_style b \<and> sb_size b' = sb_size b \<and>
     emits w b b' t (t\<lparr>tm_style := (fg, bg, snd (snd (tm_style t)))\<rparr>)"
proof -
  let ?t = "t\<lparr>tm_style := with_fg fg (tm_style t)\<rparr>"
  obtain b1 where b1: "(if fg \<noteq> fst (tm_style t) then onOk (fg_code fg) b (\<lambda>c. (Ok (), sgr c b)) else (Ok (), b)) = (Ok (), b1)"
      "sb_cursor b1 = sb_cursor b" "sb_style b1 = sb_style b" "sb_size b1 = sb_size b" "emits w b b1 t ?t"
    using emits_fg by blast
  obtain b2 where b2: "(if bg \<noteq> fst (snd (tm_style ?t)) then onOk (bg_code bg) b1 (\<lambda>c. (Ok (), sgr c b1)) else (Ok (), b1)) = (Ok (), b2)"
      "sb_cursor b2 = sb_cursor b1" "sb_style b2 = sb_style b1" "sb_size b2 = sb_size b1"
      "emits w b1 b2 ?t (?t\<lparr>tm_style := with_bg bg (tm_style ?t)\<rparr>)"
    using emits_bg by blast
  have "fst (snd (tm_style ?t)) = fst (snd (tm_style t))" by (simp add: with_fg_def)
  then show ?thesis using b1 b2 emits_trans [OF b1(5) b2(5)] by (simp add: with_fg_def with_bg_def)
qed

lemma set_style_emits:
  assumes "tm_style t = sb_style b"
  shows "\<exists>b'. set_style fg bg m b = (Ok (), b') \<and> sb_cursor b' = sb_cursor b \<and> sb_style b' = (fg, bg, m) \<and>
    emits w b b' t (t\<lparr>tm_style := (fg, bg, m)\<rparr>)"
proof -
  obtain cf cb cm where st: "sb_style b = (cf, cb, cm)" by (cases "sb_style b") auto
  have same: "emits w b1 (b1\<lparr>sb_style := z\<rparr>) t1 t1" for b1 z t1 by (rule emits_same) simp_all
  show ?thesis
  proof (cases "m = cm")
    case True
    obtain b' where b': "andThen (if fg \<noteq> fst (tm_style t) then onOk (fg_code fg) b (\<lambda>c. (Ok (), sgr c b)) else (Ok (), b)) (\<lambda>_ b.
          if bg \<noteq> fst (snd (tm_style t)) then onOk (bg_code bg) b (\<lambda>c. (Ok (), sgr c b)) else (Ok (), b)) = (Ok (), b')"
        "sb_cursor b' = sb_cursor b" "emits w b b' t (t\<lparr>tm_style := (fg, bg, snd (snd (tm_style t)))\<rparr>)"
      using emits_colors [of fg t b bg w] by blast
    have "set_style fg bg m b = (Ok (), b'\<lparr>sb_style := (fg, bg, m)\<rparr>)"
      using b'(1) True st assms by (simp add: set_style_def)
    then show ?thesis using b' emits_trans [OF b'(3) same] True st assms by simp
  next
    case False
    let ?L = "filter (\<lambda>(flag, _). flag \<in> m) modifier_table"
    let ?b0 = "buf_extend [27, 91, 48, 109] b"
    let ?b1 = "fold sgr (modifier_codes m) ?b0"
    let ?t1 = "t\<lparr>tm_style := (CReset, CReset, m)\<rparr>"
    have e0: "emits w b ?b0 t (t\<lparr>tm_style := reset_style\<rparr>)"
      by (rule emits_csi [of _ _ "[48]" 109]) (simp_all add: is_digit_def is_final_def tm_csi_def csi_nums_def)
    have e1: "emits w ?b0 ?b1 (t\<lparr>tm_style := reset_style\<rparr>) ?t1"
      using emits_modifiers [of ?L w ?b0 "t\<lparr>tm_style := reset_style\<rparr>"] filter_is_subset [of "\<lambda>(flag, _). flag \<in> m" modifier_table]
      by (simp add: modifier_codes_def fold_flags modifier_flags del: set_filter)
    obtain b' where b': "andThen (if fg \<noteq> fst (tm_style ?t1) then onOk (fg_code fg) ?b1 (\<lambda>c. (Ok (), sgr c ?b1)) else (Ok (), ?b1)) (\<lambda>_ b.
          if bg \<noteq> fst (snd (tm_style ?t1)) then onOk (bg_code bg) b (\<lambda>c. (Ok (), sgr c b)) else (Ok (), b)) = (Ok (), b')"
        "sb_cursor b' = sb_cursor ?b1" "emits w ?b1 b' ?t1 (?t1\<lparr>tm_style := (fg, bg, snd (snd (tm_style ?t1)))\<rparr>)"
      using emits_colors [of fg ?t1 ?b1 bg w] by blast
    have s: "set_style fg bg m b = (Ok (), b'\<lparr>sb_style := (fg, bg, m)\<rparr>)"
      using b'(1) False st by (simp add: set_style_def Let_def)
    have "emits w b (b'\<lparr>sb_style := (fg, bg, m)\<rparr>) t (t\<lparr>tm_style := (fg, bg, m)\<rparr>)"
      using emits_trans [OF emits_trans [OF emits_trans [OF e0 e1] b'(3)] same] by simp
    then show ?thesis using s b'(2) by simp
  qed
qed

section \<open>Cells and frames\<close>

definition glyph_width :: "(bytes \<Rightarrow> nat) \<Rightarrow> bytes \<Rightarrow> nat" where
  "glyph_width w symbol = (if cursor_after 0 0 symbol \<noteq> None then 1 else w symbol)"

definition style_of :: "cell \<Rightarrow> style" where
  "style_of c = (cell_fg c, cell_bg c, cell_modifier c)"

text \<open>What drawing means: the cell's symbol, in the cell's style, at the cell's place.\<close>

definition tm_cell :: "(bytes \<Rightarrow> nat) \<Rightarrow> u16 \<times> u16 \<times> cell \<Rightarrow> terminal \<Rightarrow> terminal" where
  "tm_cell w item t =
     (let (x, y, c) = item
      in tm_put (glyph_width w (cell_symbol c)) (cell_symbol c)
           (t\<lparr>tm_y := unat y, tm_x := unat x, tm_style := style_of c\<rparr>))"

text \<open>Symbols a terminal shows as one character: printable ASCII, or a run of bytes beyond ASCII. Places lie on
  the screen, whose sides fit 16 bits.\<close>

definition symbol_ok :: "bytes \<Rightarrow> bool" where
  "symbol_ok symbol \<longleftrightarrow> (\<exists>b. symbol = [b] \<and> 0x20 \<le> b \<and> b < 0x7f) \<or> symbol \<noteq> [] \<and> (\<forall>b\<in>set symbol. 0x80 \<le> b)"

definition on_screen :: "terminal \<Rightarrow> u16 \<Rightarrow> u16 \<Rightarrow> bool" where
  "on_screen t x y \<longleftrightarrow> unat x < tm_cols t \<and> unat y < tm_rows t \<and> tm_cols t < 2 ^ 16 \<and> tm_rows t < 2 ^ 16"

definition cell_ok :: "terminal \<Rightarrow> u16 \<times> u16 \<times> cell \<Rightarrow> bool" where
  "cell_ok t item \<longleftrightarrow> on_screen t (fst item) (fst (snd item)) \<and> symbol_ok (cell_symbol (snd (snd item)))"

lemma tm_cell_size [simp]: "tm_cols (tm_cell w c t) = tm_cols t" "tm_rows (tm_cell w c t) = tm_rows t"
  by (simp_all add: tm_cell_def tm_put_def line_down_def Let_def split: prod.split)

lemma succ_u16: "unat (x :: u16) < n \<Longrightarrow> n < 2 ^ 16 \<Longrightarrow> unat (x + 1) = unat x + 1"
  by (simp add: unat_word_ariths)

lemma move_to_simps [simp]:
  "sb_cursor (move_to p b) = Some p" "sb_style (move_to p b) = sb_style b"
  by (simp_all add: move_to_def)

lemma move_to_emits:
  assumes "on_screen t (pos_x p) (pos_y p)"
  shows "emits w b (move_to p b) t (t\<lparr>tm_y := unat (pos_y p), tm_x := unat (pos_x p)\<rparr>)"
proof (rule emits_csi [of _ _ "dec (unat (pos_y p + 1)) @ 59 # dec (unat (pos_x p + 1))" 72])
  show "t\<lparr>tm_y := unat (pos_y p), tm_x := unat (pos_x p)\<rparr> =
      tm_csi (dec (unat (pos_y p + 1)) @ 59 # dec (unat (pos_x p + 1))) 72 t"
    using assms succ_u16 [of "pos_x p" "tm_cols t"] succ_u16 [of "pos_y p" "tm_rows t"]
      min_absorb1 [of "unat (pos_y p)" "tm_rows t - 1"] min_absorb1 [of "unat (pos_x p)" "tm_cols t - 1"]
    by (auto simp: tm_csi_def coord_def on_screen_def)
qed (simp_all add: move_to_def is_final_def str_def)

lemma cursor_after_ascii: "cursor_after x y symbol = Some p \<longleftrightarrow>
    (\<exists>b. symbol = [b] \<and> 0x20 \<le> b \<and> b < 0x7f) \<and> p = \<lparr>pos_x = x + 1, pos_y = y\<rparr>"
  by (auto simp: cursor_after_def split: list.splits if_splits)

lemma glyph_width_ascii: "0x20 \<le> b \<Longrightarrow> b < 0x7f \<Longrightarrow> glyph_width w [b] = 1"
  by (simp add: glyph_width_def cursor_after_def)

lemma takeWhile_clean: "clean rest \<Longrightarrow> \<forall>b\<in>set s. 0x80 \<le> b \<Longrightarrow>
    takeWhile (\<lambda>c :: byte. 0x80 \<le> c) (s @ rest) = s \<and> dropWhile (\<lambda>c. 0x80 \<le> c) (s @ rest) = rest"
  by (cases rest) (auto simp: clean_def takeWhile_append dropWhile_append)

lemma symbol_emits:
  assumes "symbol_ok symbol" and "sb_cursor b \<noteq> None"
    and "sb_buf b' = sb_buf b @ symbol" and "sb_cursor b' = cursor_after x y symbol"
  shows "emits w b b' t (tm_put (glyph_width w symbol) symbol t)"
proof -
  have "term_run w (symbol @ rest) t = term_run w rest (tm_put (glyph_width w symbol) symbol t)"
    if r: "sb_cursor b' = None \<longrightarrow> clean rest" for rest
  proof (cases "\<exists>b. symbol = [b] \<and> 0x20 \<le> b \<and> b < 0x7f")
    case True
    then obtain a where a: "symbol = [a]" "0x20 \<le> a" "a < 0x7f" by blast
    then have "a \<noteq> 27" "\<not> a < 32" "a \<noteq> 127" by auto
    then show ?thesis using a by (simp add: term_run.simps(2) glyph_width_def cursor_after_def)
  next
    case False
    then have n: "cursor_after i j symbol = None" for i j using cursor_after_ascii by (metis not_None_eq)
    obtain a s where s: "symbol = a # s" "0x80 \<le> a" "\<forall>b\<in>set s. 0x80 \<le> b"
      using assms(1) False by (cases symbol) (auto simp: symbol_ok_def)
    then have "a \<noteq> 27" "\<not> a < 32" "a \<noteq> 127" "\<not> a < 127" by (auto simp: word_less_nat_alt word_le_nat_alt)
    then show ?thesis using s takeWhile_clean [of rest s] r assms(4) n by (simp add: term_run.simps(2) glyph_width_def Let_def)
  qed
  then show ?thesis unfolding emits_def using assms(2,3) by (intro exI [of _ symbol]) auto
qed

lemma draw_cell_emits:
  assumes "matches b t" and "cell_ok t item"
  shows "\<exists>b'. draw_cell item b = (Ok (), b') \<and> emits w b b' t (tm_cell w item t) \<and> matches b' (tm_cell w item t)"
proof -
  obtain x y c where i: "item = (x, y, c)" by (cases item) auto
  let ?p = "\<lparr>pos_x = x, pos_y = y\<rparr>" and ?t1 = "t\<lparr>tm_y := unat y, tm_x := unat x\<rparr>"
  let ?b1 = "if sb_cursor b \<noteq> Some ?p then move_to ?p b else b"
  have at: "on_screen t x y" and sy: "symbol_ok (cell_symbol c)" using assms(2) i by (simp_all add: cell_ok_def)
  have "?t1 = t" if "sb_cursor b = Some ?p" using assms(1) that by (cases t) (simp add: matches_def)
  then have e1: "emits w b ?b1 t ?t1"
    using move_to_emits [of t ?p w b] at emits_refl [of w b t] by auto
  have st: "tm_style ?t1 = sb_style ?b1" and cur: "sb_cursor ?b1 = Some ?p" using assms(1) by (simp_all add: matches_def)
  obtain b2 where b2: "set_style (cell_fg c) (cell_bg c) (cell_modifier c) ?b1 = (Ok (), b2)" "sb_cursor b2 = Some ?p"
      "sb_style b2 = style_of c" "emits w ?b1 b2 ?t1 (?t1\<lparr>tm_style := style_of c\<rparr>)"
    using set_style_emits [OF st, of "cell_fg c" "cell_bg c" "cell_modifier c" w] cur by (auto simp: style_of_def)
  let ?b3 = "(buf_extend (cell_symbol c) b2)\<lparr>sb_cursor := cursor_after x y (cell_symbol c)\<rparr>"
  have "emits w b2 ?b3 (?t1\<lparr>tm_style := style_of c\<rparr>) (tm_cell w item t)"
    unfolding tm_cell_def i Let_def prod.case using symbol_emits [OF sy, of b2 ?b3 x y w] b2(2) by simp
  then have "emits w b ?b3 t (tm_cell w item t)" using emits_trans [OF emits_trans [OF e1 b2(4)]] by blast
  moreover have "matches ?b3 (tm_cell w item t)"
    using at succ_u16 [of x "tm_cols t"] b2(3)
    by (auto simp: matches_def tm_cell_def i tm_put_def on_screen_def cursor_after_ascii glyph_width_ascii)
  moreover have "draw_cell item b = (Ok (), ?b3)" using b2(1) by (simp add: draw_cell_def i Let_def)
  ultimately show ?thesis by blast
qed

lemma draw_cells_emits:
  "matches b t \<Longrightarrow> \<forall>c\<in>set cs. cell_ok t c \<Longrightarrow>
   \<exists>b'. draw_cells cs b = (Ok (), b') \<and> emits w b b' t (fold (tm_cell w) cs t) \<and> matches b' (fold (tm_cell w) cs t)"
proof (induction cs arbitrary: b t)
  case Nil
  then show ?case by (simp add: emits_refl)
next
  case (Cons c cs)
  obtain b1 where b1: "draw_cell c b = (Ok (), b1)" "emits w b b1 t (tm_cell w c t)" "matches b1 (tm_cell w c t)"
    using draw_cell_emits [of b t c w] Cons.prems by auto
  have "\<forall>c'\<in>set cs. cell_ok (tm_cell w c t) c'" using Cons.prems(2) by (simp add: cell_ok_def on_screen_def)
  from Cons.IH [OF b1(3) this] b1 show ?case by (auto intro: emits_trans)
qed

text \<open>The calls of a frame, and what each is to do to the terminal.\<close>

datatype backend_call =
    Draw "(u16 \<times> u16 \<times> cell) list"
  | SetCursor screen_pos
  | HideCursor
  | ShowCursor
  | ClearScreen
  | ClearRegion clear_type

fun backend_apply :: "backend_call \<Rightarrow> ssh_backend \<Rightarrow> (ssh_backend, unit) outcome" where
  "backend_apply (Draw cs) b = draw cs b"
| "backend_apply (SetCursor p) b = (Ok (), set_cursor_position p b)"
| "backend_apply HideCursor b = (Ok (), hide_cursor b)"
| "backend_apply ShowCursor b = (Ok (), show_cursor b)"
| "backend_apply ClearScreen b = (Ok (), clear b)"
| "backend_apply (ClearRegion ct) b = (Ok (), clear_region ct b)"

fun backend_calls :: "backend_call list \<Rightarrow> ssh_backend \<Rightarrow> (ssh_backend, unit) outcome" where
  "backend_calls [] b = (Ok (), b)"
| "backend_calls (c # cs) b = andThen (backend_apply c b) (\<lambda>_ b. backend_calls cs b)"

fun cleared :: "clear_type \<Rightarrow> nat \<Rightarrow> nat \<Rightarrow> nat \<times> nat \<Rightarrow> bool" where
  "cleared ClearAll x y p = True"
| "cleared AfterCursor x y p = (snd p > y \<or> snd p = y \<and> fst p \<ge> x)"
| "cleared BeforeCursor x y p = (snd p < y \<or> snd p = y \<and> fst p \<le> x)"
| "cleared CurrentLine x y p = (snd p = y)"
| "cleared UntilNewLine x y p = (snd p = y \<and> fst p \<ge> x)"

fun tm_expect :: "(bytes \<Rightarrow> nat) \<Rightarrow> backend_call \<Rightarrow> terminal \<Rightarrow> terminal" where
  "tm_expect w (Draw cs) t = (fold (tm_cell w) cs t)\<lparr>tm_style := reset_style\<rparr>"
| "tm_expect w (SetCursor p) t = t\<lparr>tm_y := unat (pos_y p), tm_x := unat (pos_x p)\<rparr>"
| "tm_expect w HideCursor t = t\<lparr>tm_visible := False\<rparr>"
| "tm_expect w ShowCursor t = t\<lparr>tm_visible := True\<rparr>"
| "tm_expect w ClearScreen t = erase (\<lambda>_. True) t"
| "tm_expect w (ClearRegion ct) t = erase (cleared ct (tm_x t) (tm_y t)) t"

fun call_ok :: "terminal \<Rightarrow> backend_call \<Rightarrow> bool" where
  "call_ok t (Draw cs) \<longleftrightarrow> (\<forall>c\<in>set cs. cell_ok t c)"
| "call_ok t (SetCursor p) \<longleftrightarrow> on_screen t (pos_x p) (pos_y p)"
| "call_ok t _ \<longleftrightarrow> True"

lemma fold_tm_cell_size [simp]:
  "tm_cols (fold (tm_cell w) cs t) = tm_cols t" "tm_rows (fold (tm_cell w) cs t) = tm_rows t"
  by (induction cs arbitrary: t) simp_all

lemma tm_expect_size [simp]: "tm_cols (tm_expect w c t) = tm_cols t" "tm_rows (tm_expect w c t) = tm_rows t"
  by (cases c; simp add: erase_def)+

lemma call_ok_expect [simp]: "call_ok (tm_expect w c t) d = call_ok t d"
  by (cases d) (simp_all add: cell_ok_def on_screen_def)

lemma draw_emits:
  assumes "matches b t" and "\<forall>c\<in>set cs. cell_ok t c"
  shows "\<exists>b'. draw cs b = (Ok (), b') \<and> emits w b b' t (tm_expect w (Draw cs) t) \<and> matches b' (tm_expect w (Draw cs) t)"
proof -
  let ?t = "fold (tm_cell w) cs t"
  obtain b1 where b1: "draw_cells cs b = (Ok (), b1)" "emits w b b1 t ?t" "matches b1 ?t"
    using draw_cells_emits [OF assms, of w] by blast
  show ?thesis
  proof (cases "sb_style b1 = reset_style")
    case True
    then have "?t\<lparr>tm_style := reset_style\<rparr> = ?t" using b1(3) by (cases ?t) (simp add: matches_def)
    then show ?thesis using b1 True by (simp add: draw_def)
  next
    case False
    let ?b2 = "(buf_extend [27, 91, 48, 109] b1)\<lparr>sb_style := reset_style\<rparr>"
    have "emits w b1 ?b2 ?t (?t\<lparr>tm_style := reset_style\<rparr>)"
      by (rule emits_csi [of _ _ "[48]" 109]) (simp_all add: is_digit_def is_final_def tm_csi_def csi_nums_def)
    then have "emits w b ?b2 t (?t\<lparr>tm_style := reset_style\<rparr>)" by (rule emits_trans [OF b1(2)])
    then show ?thesis using b1 False by (simp add: draw_def matches_def)
  qed
qed

text \<open>The fixed sequences.\<close>

lemma csi_nums_fixed [simp]: "csi_nums [48] = [0]" "csi_nums [49] = [1]" "csi_nums [50] = [2]"
  by (simp_all add: csi_nums_def)

lemma tm_csi_clear:
  "tm_csi [50] 74 t = erase (cleared ClearAll (tm_x t) (tm_y t)) t"
  "tm_csi [48] 74 t = erase (cleared AfterCursor (tm_x t) (tm_y t)) t"
  "tm_csi [49] 74 t = erase (cleared BeforeCursor (tm_x t) (tm_y t)) t"
  "tm_csi [50] 75 t = erase (cleared CurrentLine (tm_x t) (tm_y t)) t"
  "tm_csi [48] 75 t = erase (cleared UntilNewLine (tm_x t) (tm_y t)) t"
  by (simp_all add: tm_csi_def Let_def erase_def)

lemma tm_csi_visible:
  "tm_csi (str ''?25'') 104 t = t\<lparr>tm_visible := True\<rparr>" "tm_csi (str ''?25'') 108 t = t\<lparr>tm_visible := False\<rparr>"
  by (simp_all add: tm_csi_def Let_def)

lemma clear_code_emits:
  "emits w b (buf_extend ([27, 91] @ clear_code ct) b) t (erase (cleared ct (tm_x t) (tm_y t)) t)"
proof -
  have "\<exists>raw f. clear_code ct = raw @ [f] \<and> params_ok raw \<and> is_final f \<and> tm_csi raw f t = erase (cleared ct (tm_x t) (tm_y t)) t"
  proof (cases ct)
    case ClearAll
    then show ?thesis by (intro exI [of _ "[50]"] exI [of _ 74]) (simp add: tm_csi_clear str_def is_digit_def is_final_def)
  next
    case AfterCursor
    then show ?thesis by (intro exI [of _ "[48]"] exI [of _ 74]) (simp add: tm_csi_clear str_def is_digit_def is_final_def)
  next
    case BeforeCursor
    then show ?thesis by (intro exI [of _ "[49]"] exI [of _ 74]) (simp add: tm_csi_clear str_def is_digit_def is_final_def)
  next
    case CurrentLine
    then show ?thesis by (intro exI [of _ "[50]"] exI [of _ 75]) (simp add: tm_csi_clear str_def is_digit_def is_final_def)
  next
    case UntilNewLine
    then show ?thesis by (intro exI [of _ "[48]"] exI [of _ 75]) (simp add: tm_csi_clear str_def is_digit_def is_final_def)
  qed
  then obtain raw f where "clear_code ct = raw @ [f]" "params_ok raw" "is_final f"
    "tm_csi raw f t = erase (cleared ct (tm_x t) (tm_y t)) t" by blast
  then show ?thesis by (intro emits_csi [of _ _ raw f]) simp_all
qed

lemma visible_emits:
  "emits w b (hide_cursor b) t (t\<lparr>tm_visible := False\<rparr>)" "emits w b (show_cursor b) t (t\<lparr>tm_visible := True\<rparr>)"
proof -
  have p: "params_ok (str ''?25'')" by (simp add: str_def is_digit_def)
  have q: "str ''?25l'' = str ''?25'' @ [108]" "str ''?25h'' = str ''?25'' @ [104]" by (simp_all add: str_def)
  show "emits w b (hide_cursor b) t (t\<lparr>tm_visible := False\<rparr>)"
    by (rule emits_csi [OF _ p, of _ _ 108]) (simp_all add: hide_cursor_def q is_final_def tm_csi_visible)
  show "emits w b (show_cursor b) t (t\<lparr>tm_visible := True\<rparr>)"
    by (rule emits_csi [OF _ p, of _ _ 104]) (simp_all add: show_cursor_def q is_final_def tm_csi_visible)
qed

lemma call_emits:
  assumes "matches b t" and "call_ok t c"
  shows "\<exists>b'. backend_apply c b = (Ok (), b') \<and> emits w b b' t (tm_expect w c t) \<and> matches b' (tm_expect w c t)"
proof (cases c)
  case (Draw cs)
  then show ?thesis using draw_emits [of b t cs w] assms by simp
next
  case (SetCursor p)
  then show ?thesis using move_to_emits [of t p w b] assms by (simp add: set_cursor_position_def matches_def)
next
  case HideCursor
  then show ?thesis using visible_emits(1) assms(1) by (simp add: matches_def hide_cursor_def)
next
  case ShowCursor
  then show ?thesis using visible_emits(2) assms(1) by (simp add: matches_def show_cursor_def)
next
  case ClearScreen
  have "(\<lambda>_. True) = cleared ClearAll (tm_x t) (tm_y t)" by (simp add: fun_eq_iff)
  then show ?thesis using ClearScreen clear_code_emits [of w b ClearAll t] assms(1)
    by (simp add: matches_def clear_def erase_def)
next
  case (ClearRegion ct)
  then show ?thesis using clear_code_emits [of w b ct t] assms(1) by (simp add: matches_def clear_region_def erase_def)
qed

lemma calls_emit:
  "matches b t \<Longrightarrow> \<forall>c\<in>set cs. call_ok t c \<Longrightarrow>
   \<exists>b'. backend_calls cs b = (Ok (), b') \<and> emits w b b' t (fold (tm_expect w) cs t) \<and> matches b' (fold (tm_expect w) cs t)"
proof (induction cs arbitrary: b t)
  case Nil
  then show ?case by (simp add: emits_refl)
next
  case (Cons c cs)
  obtain b1 where b1: "backend_apply c b = (Ok (), b1)" "emits w b b1 t (tm_expect w c t)" "matches b1 (tm_expect w c t)"
    using call_emits [of b t c w] Cons.prems by auto
  have "\<forall>d\<in>set cs. call_ok (tm_expect w c t) d" using Cons.prems(2) by simp
  from Cons.IH [OF b1(3) this] b1 show ?case by (auto intro: emits_trans)
qed

section \<open>Properties\<close>

text \<open>The bytes of a frame put the cells on the screen. Whatever calls make up the frame (cells drawn in any order and
  style, cursor moves, clearing), a terminal in the state the backend assumes that interprets the bytes
  ends as if every cell had been painted in its own style at its own place and every other call carried
  out; the backend never panics, and its idea of the peer's cursor and style is right again for the next
  frame.\<close>

theorem frame_renders:
  assumes "matches b t" and "sb_buf b = []" and "\<forall>c\<in>set cs. call_ok t c"
  shows "\<exists>frame b'. backend_calls cs b = (Ok (), b') \<and> take_frame b' = (frame, b'\<lparr>sb_buf := []\<rparr>) \<and>
    term_run w frame t = fold (tm_expect w) cs t \<and> matches (b'\<lparr>sb_buf := []\<rparr>) (fold (tm_expect w) cs t)"
proof -
  obtain b' where b': "backend_calls cs b = (Ok (), b')" "emits w b b' t (fold (tm_expect w) cs t)"
      "matches b' (fold (tm_expect w) cs t)"
    using calls_emit [OF assms(1,3)] by blast
  then have "term_run w (sb_buf b') t = fold (tm_expect w) cs t" by (intro emits_run [OF b'(2) assms(2)])
  then show ?thesis using b'(1,3) by (simp add: take_frame_def matches_def)
qed

definition sample_terminal :: terminal where
  "sample_terminal = \<lparr>tm_cols = 80, tm_rows = 24, tm_x = 0, tm_y = 0, tm_style = reset_style, tm_visible = True,
     tm_screen = (\<lambda>_. None)\<rparr>"

definition sample_cell :: cell where
  "sample_cell = \<lparr>cell_symbol = str ''r'', cell_fg = CRed, cell_bg = CReset, cell_modifier = {}\<rparr>"

theorem frame_renders_witness:
  "\<exists>frame b'. backend_calls [ClearScreen, Draw [(3, 1, sample_cell)]] (backend_new 80 24) = (Ok (), b') \<and>
     take_frame b' = (frame, b'\<lparr>sb_buf := []\<rparr>) \<and>
     tm_screen (term_run (\<lambda>_. 2) frame sample_terminal) (3, 1) = Some (str ''r'', CRed, CReset, {})"
proof -
  have "matches (backend_new 80 24) sample_terminal" "sb_buf (backend_new 80 24) = []"
    by (simp_all add: matches_def backend_new_def sample_terminal_def)
  moreover have "\<forall>c\<in>set [ClearScreen, Draw [(3, 1, sample_cell)]]. call_ok sample_terminal c"
    by (simp add: cell_ok_def on_screen_def sample_terminal_def sample_cell_def symbol_ok_def str_def)
  ultimately obtain frame b' where f: "backend_calls [ClearScreen, Draw [(3, 1, sample_cell)]] (backend_new 80 24) = (Ok (), b')"
      "take_frame b' = (frame, b'\<lparr>sb_buf := []\<rparr>)"
      "term_run (\<lambda>_. 2) frame sample_terminal =
         fold (tm_expect (\<lambda>_. 2)) [ClearScreen, Draw [(3, 1, sample_cell)]] sample_terminal"
    using frame_renders [of "backend_new 80 24" sample_terminal "[ClearScreen, Draw [(3, 1, sample_cell)]]" "\<lambda>_. 2"] by blast
  have "tm_screen (fold (tm_expect (\<lambda>_. 2)) [ClearScreen, Draw [(3, 1, sample_cell)]] sample_terminal) (3, 1) =
      Some (str ''r'', CRed, CReset, {})"
    by (simp add: tm_cell_def tm_put_def paint_def sample_terminal_def sample_cell_def erase_def style_of_def Let_def)
  then show ?thesis using f by metis
qed

text \<open>Line feeds are the exception: they keep the column of a terminal in raw mode, while the backend goes on from
  column 0.\<close>

lemma append_lines_column:
  "tm_x (term_run w (fst (take_frame (append_lines 1 (b\<lparr>sb_buf := []\<rparr>)))) t) = tm_x t"
  by (simp add: take_frame_def append_lines_def Let_def term_run.simps(2) tm_control_def line_down_def split: option.split)

end
