(* ===== verification/Tui_Terminal.thy ===== *)
theory Tui_Terminal
  imports Tui_Backend Channel_Session
begin

text \<open>
  A full-screen terminal on a channel (\<^verbatim>\<open>crates/ssh-tui/src/terminal.rs\<close>): the backend inside a \<^verbatim>\<open>ratatui\<close> terminal, and the
  write half of the session. The crate is a parameter: the state \<open>'t\<close> of its terminal, whether one can be made on a
  backend, and the calls to the backend by which it draws what the program renders (\<open>'f\<close>).
\<close>

record ('t, 'f) ratatui =
  rt_new :: "ssh_backend \<Rightarrow> 't option"
  rt_draw :: "'f \<Rightarrow> 't \<Rightarrow> ssh_backend \<Rightarrow> backend_call list \<times> 't"

record 't ssh_terminal =
  st_terminal :: 't
  st_backend :: ssh_backend
  st_writer :: session_writer

section \<open>Operations\<close>

text \<open>The result of an operation that writes: \<open>None\<close> while the write waits, otherwise whether it went well.\<close>

definition terminal_new ::
    "('t, 'f) ratatui \<Rightarrow> session_writer \<Rightarrow> u16 \<times> u16 \<Rightarrow> (acquire \<times> bool) list \<Rightarrow>
     't ssh_terminal option option \<times> write_act list" where
  "terminal_new R writer dims answers =
     (let b = backend_new (fst dims) (snd dims) in
      case rt_new R b of
        None \<Rightarrow> (Some None, [])
      | Some tt \<Rightarrow>
          (case write_stdout ENTER answers of
             (None, acts) \<Rightarrow> (None, acts)
           | (Some False, acts) \<Rightarrow> (Some None, acts)
           | (Some True, acts) \<Rightarrow> (Some (Some \<lparr>st_terminal = tt, st_backend = b, st_writer = writer\<rparr>), acts)))"

definition terminal_draw ::
    "('t, 'f) ratatui \<Rightarrow> 'f \<Rightarrow> (acquire \<times> bool) list \<Rightarrow> 't ssh_terminal \<Rightarrow>
     ('t ssh_terminal, bool option \<times> write_act list) outcome" where
  "terminal_draw R render answers t =
     (let (calls, tt) = rt_draw R render (st_terminal t) (st_backend t);
          (drawn, b) = backend_calls calls (st_backend t);
          t = t\<lparr>st_terminal := tt, st_backend := b\<rparr>
      in onOk drawn t (\<lambda>_.
           let (frame, b) = take_frame (st_backend t)
           in (Ok (write_stdout frame answers), t\<lparr>st_backend := b\<rparr>)))"

definition terminal_resize :: "u16 \<times> u16 \<Rightarrow> 't ssh_terminal \<Rightarrow> 't ssh_terminal" where
  "terminal_resize dims t = t\<lparr>st_backend := set_size (fst dims) (snd dims) (st_backend t)\<rparr>"

definition terminal_restore :: "'t ssh_terminal \<Rightarrow> (acquire \<times> bool) list \<Rightarrow> bool option \<times> write_act list" where
  "terminal_restore t answers = write_stdout LEAVE answers"

definition terminal_mut :: "'t ssh_terminal \<Rightarrow> 't" where
  "terminal_mut t = st_terminal t"

section \<open>Frames on the client's screen\<close>

text \<open>Drawing one frame after the other, each written whole; the bytes sent. \<open>None\<close> where a write waits or fails.\<close>

fun draw_frames ::
    "('t, 'f) ratatui \<Rightarrow> ('f \<times> (acquire \<times> bool) list) list \<Rightarrow> 't ssh_terminal \<Rightarrow> (bytes \<times> 't ssh_terminal) option" where
  "draw_frames R [] t = Some ([], t)"
| "draw_frames R ((render, answers) # fs) t =
     (case terminal_draw R render answers t of
        (Ok (Some True, acts), t) \<Rightarrow>
          (case draw_frames R fs t of Some (bs, t) \<Rightarrow> Some (sent acts @ bs, t) | None \<Rightarrow> None)
      | _ \<Rightarrow> None)"

text \<open>The screen the frames describe: the calls of each frame carried out on the terminal.\<close>

fun shown :: "('t, 'f) ratatui \<Rightarrow> (bytes \<Rightarrow> nat) \<Rightarrow> 'f list \<Rightarrow> 't ssh_terminal \<Rightarrow> terminal \<Rightarrow> terminal" where
  "shown R w [] t tm = tm"
| "shown R w (render # fs) t tm =
     (let (calls, tt) = rt_draw R render (st_terminal t) (st_backend t);
          b = snd (backend_calls calls (st_backend t))
      in shown R w fs (t\<lparr>st_terminal := tt, st_backend := b\<lparr>sb_buf := []\<rparr>\<rparr>) (fold (tm_expect w) calls tm))"

text \<open>The crate draws inside the area the backend reports.\<close>

definition draws_inside :: "('t, 'f) ratatui \<Rightarrow> bool" where
  "draws_inside R \<longleftrightarrow> (\<forall>render tt b tm. tm_cols tm = unat (sz_width (sb_size b)) \<longrightarrow>
     tm_rows tm = unat (sz_height (sb_size b)) \<longrightarrow> (\<forall>c\<in>set (fst (rt_draw R render tt b)). call_ok tm c))"

definition sized :: "ssh_backend \<Rightarrow> terminal \<Rightarrow> bool" where
  "sized b tm \<longleftrightarrow> tm_cols tm = unat (sz_width (sb_size b)) \<and> tm_rows tm = unat (sz_height (sb_size b))"

lemma write_whole: "write_stdout data answers = (Some True, acts) \<Longrightarrow> sent acts = data"
  using send_chunks_result [of False answers "chunks MAX_RESERVE data" "Some True" acts] chunks_concat [of MAX_RESERVE data]
  by (auto simp: write_stdout_def reserve_and_send_def MAX_RESERVE_def)

text \<open>No call changes the size the backend reports.\<close>

lemma set_style_keeps_size: "sb_size b = z \<Longrightarrow> keeps (\<lambda>b. sb_size b = z) (set_style fg bg m b)"
  unfolding set_style_def by (intro keep_intros) simp_all

lemma draw_cell_keeps_size: "sb_size b = z \<Longrightarrow> keeps (\<lambda>b. sb_size b = z) (draw_cell c b)"
  unfolding draw_cell_def by (intro keep_intros set_style_keeps_size) (simp_all add: move_to_def)

lemma draw_cells_keep_size: "sb_size b = z \<Longrightarrow> keeps (\<lambda>b. sb_size b = z) (draw_cells cs b)"
  by (induction cs arbitrary: b) (auto intro!: keep_intros draw_cell_keeps_size)

lemma call_keeps_size: "sb_size b = z \<Longrightarrow> keeps (\<lambda>b. sb_size b = z) (backend_apply c b)"
proof (cases c)
  case (Draw cs)
  moreover assume "sb_size b = z"
  ultimately show ?thesis unfolding draw_def backend_apply.simps
    by (auto simp: draw_def intro!: keep_intros draw_cells_keep_size)
qed (simp_all add: keeps_def set_cursor_position_def hide_cursor_def show_cursor_def clear_def clear_region_def move_to_def)

lemma calls_keep_size: "sb_size b = z \<Longrightarrow> keeps (\<lambda>b. sb_size b = z) (backend_calls cs b)"
  by (induction cs arbitrary: b) (auto intro!: keep_intros call_keeps_size)

lemma fold_expect_size [simp]:
  "tm_cols (fold (tm_expect w) cs t) = tm_cols t" "tm_rows (fold (tm_expect w) cs t) = tm_rows t"
  by (induction cs arbitrary: t) simp_all

text \<open>One frame: drawn without a panic, and on a screen in the state the backend assumes its bytes do what its
  calls say.\<close>

lemma frame_drawn:
  assumes "draws_inside R" and "matches (st_backend t) tm" and "sized (st_backend t) tm"
    and c: "rt_draw R render (st_terminal t) (st_backend t) = (calls, tt)"
  shows "\<exists>b. backend_calls calls (st_backend t) = (Ok (), b) \<and>
    terminal_draw R render answers t = (Ok (write_stdout (sb_buf b) answers), t\<lparr>st_terminal := tt, st_backend := b\<lparr>sb_buf := []\<rparr>\<rparr>) \<and>
    emits w (st_backend t) b tm (fold (tm_expect w) calls tm) \<and> matches (b\<lparr>sb_buf := []\<rparr>) (fold (tm_expect w) calls tm) \<and>
    sized (b\<lparr>sb_buf := []\<rparr>) (fold (tm_expect w) calls tm)"
proof -
  have "\<forall>d\<in>set calls. call_ok tm d" using assms(1,3) c by (auto simp: draws_inside_def sized_def) (metis fst_conv)
  then obtain b where b: "backend_calls calls (st_backend t) = (Ok (), b)"
      "emits w (st_backend t) b tm (fold (tm_expect w) calls tm)" "matches b (fold (tm_expect w) calls tm)"
    using calls_emit [OF assms(2)] by blast
  moreover have "sb_size b = sb_size (st_backend t)" using calls_keep_size [OF refl, of "st_backend t" calls] b(1) by (simp add: keeps_def)
  moreover have "terminal_draw R render answers t =
      (Ok (write_stdout (sb_buf b) answers), t\<lparr>st_terminal := tt, st_backend := b\<lparr>sb_buf := []\<rparr>\<rparr>)"
    using b(1) c by (simp add: terminal_draw_def take_frame_def)
  ultimately show ?thesis using assms(3) by (simp add: matches_def sized_def)
qed

lemma emits_rebase:
  assumes "emits w (b\<lparr>sb_buf := []\<rparr>) c t t'"
  shows "emits w b (c\<lparr>sb_buf := sb_buf b @ sb_buf c\<rparr>) t t'"
  using assms by (simp add: emits_def)

lemma frames_shown:
  assumes "draws_inside R" and "matches (st_backend t) tm" and "sb_buf (st_backend t) = []" and "sized (st_backend t) tm"
    and "draw_frames R fs t = Some (out, t')"
  shows "emits w (st_backend t) ((st_backend t')\<lparr>sb_buf := out\<rparr>) tm (shown R w (map fst fs) t tm) \<and>
    sb_buf (st_backend t') = [] \<and> matches (st_backend t') (shown R w (map fst fs) t tm)"
  using assms(2-)
proof (induction fs arbitrary: t tm out)
  case Nil
  then show ?case by (simp add: emits_same)
next
  case (Cons f fs)
  obtain render answers where f: "f = (render, answers)" by fastforce
  obtain calls tt where c: "rt_draw R render (st_terminal t) (st_backend t) = (calls, tt)" by fastforce
  obtain b where b: "backend_calls calls (st_backend t) = (Ok (), b)"
      "terminal_draw R render answers t = (Ok (write_stdout (sb_buf b) answers), t\<lparr>st_terminal := tt, st_backend := b\<lparr>sb_buf := []\<rparr>\<rparr>)"
      "emits w (st_backend t) b tm (fold (tm_expect w) calls tm)" "matches (b\<lparr>sb_buf := []\<rparr>) (fold (tm_expect w) calls tm)"
      "sized (b\<lparr>sb_buf := []\<rparr>) (fold (tm_expect w) calls tm)"
    using frame_drawn [OF assms(1) Cons.prems(1,3) c, of answers w] by blast
  let ?t = "t\<lparr>st_terminal := tt, st_backend := b\<lparr>sb_buf := []\<rparr>\<rparr>" and ?tm = "fold (tm_expect w) calls tm"
  obtain acts out' where o: "write_stdout (sb_buf b) answers = (Some True, acts)" "draw_frames R fs ?t = Some (out', t')"
      "out = sb_buf b @ out'"
    using Cons.prems(4) b(2) f write_whole by (auto split: prod.splits option.splits bool.splits)
  have IH: "emits w (b\<lparr>sb_buf := []\<rparr>) ((st_backend t')\<lparr>sb_buf := out'\<rparr>) ?tm (shown R w (map fst fs) ?t ?tm)"
      "sb_buf (st_backend t') = []" "matches (st_backend t') (shown R w (map fst fs) ?t ?tm)"
    using Cons.IH [of ?t ?tm out'] b o(2) by auto
  from emits_trans [OF b(3) emits_rebase [OF IH(1)]] IH(2,3) o(3) f b(1) c show ?case by simp
qed

definition blank :: "terminal \<Rightarrow> terminal" where
  "blank tm = (erase (\<lambda>_. True) tm)\<lparr>tm_x := 0, tm_y := 0\<rparr>"

definition left :: "terminal \<Rightarrow> terminal" where
  "left tm = tm\<lparr>tm_style := reset_style, tm_visible := True\<rparr>"

lemma enter_run: "term_run w (ENTER @ rest) tm = term_run w rest (blank tm)"
proof -
  let ?t = "tm_csi [63, 49, 48, 52, 57] 104 tm"
  note steps = term_run_csi [of "[63, 49, 48, 52, 57]" 104 w "[27, 91, 50, 74, 27, 91, 72] @ rest" tm]
    term_run_csi [of "[50]" 74 w "[27, 91, 72] @ rest" ?t] term_run_csi [of "[]" 72 w rest "tm_csi [50] 74 ?t"]
  have "term_run w (ENTER @ rest) tm = term_run w rest (tm_csi [] 72 (tm_csi [50] 74 ?t))"
    using steps by (simp add: is_digit_def is_final_def ENTER_def str_def)
  moreover have "tm_csi [63, 49, 48, 52, 57] 104 tm = tm" by (simp add: tm_csi_def str_def)
  moreover have "tm_csi [] 72 (tm_csi [50] 74 tm) = blank tm" by (simp add: tm_csi_def blank_def coord_def csi_nums_def erase_def)
  ultimately show ?thesis by simp
qed

lemma leave_run: "term_run w LEAVE tm = left tm"
proof -
  let ?t = "tm_csi [48] 109 tm"
  note steps = term_run_csi [of "[48]" 109 w "[27, 91, 63, 49, 48, 52, 57, 108, 27, 91, 63, 50, 53, 104]" tm]
    term_run_csi [of "[63, 49, 48, 52, 57]" 108 w "[27, 91, 63, 50, 53, 104]" ?t]
    term_run_csi [of "[63, 50, 53]" 104 w "[]" "tm_csi [63, 49, 48, 52, 57] 108 ?t"]
  have "term_run w LEAVE tm = tm_csi [63, 50, 53] 104 (tm_csi [63, 49, 48, 52, 57] 108 ?t)"
    using steps by (simp add: is_digit_def is_final_def LEAVE_def str_def)
  moreover have "tm_csi [48] 109 tm = tm\<lparr>tm_style := reset_style\<rparr>" by (simp add: tm_csi_def)
  moreover have "tm_csi [63, 49, 48, 52, 57] 108 u = u" for u by (simp add: tm_csi_def str_def)
  ultimately show ?thesis by (simp add: tm_csi_def left_def str_def)
qed

lemma terminal_new_result:
  assumes "terminal_new R writer dims answers = (Some (Some t), acts)"
  shows "sent acts = ENTER \<and> st_backend t = backend_new (fst dims) (snd dims)"
  using assms write_whole by (auto simp: terminal_new_def Let_def split: option.splits prod.splits bool.splits)

section \<open>Properties\<close>


text \<open>A crate that clears the screen and draws one cell per frame.\<close>

definition sample_ratatui :: "(nat, bytes) ratatui" where
  "sample_ratatui = \<lparr>rt_new = (\<lambda>_. Some 0),
     rt_draw = (\<lambda>text n b. ([ClearScreen] @ (if sz_width (sb_size b) = 0 \<or> sz_height (sb_size b) = 0 \<or> \<not> symbol_ok text then []
       else [Draw [(0, 0, sample_cell\<lparr>cell_symbol := text\<rparr>)]]), n + 1))\<rparr>"

lemma sample_draws_inside: "draws_inside sample_ratatui"
  by (auto simp: draws_inside_def sample_ratatui_def cell_ok_def on_screen_def unat_gt_0)

lemma symbol_ok_r: "symbol_ok [114]"
  by (simp add: symbol_ok_def)


end
