(* ===== verification/Slots.thy ===== *)
theory Slots
  imports Tui_Terminal Server
begin

text \<open>
  The example program of the terminal crate (\<^verbatim>\<open>crates/ssh-tui/examples/slots.rs\<close>): a slot machine that is the shell of its
  connections. The random numbers of the operating system are a parameter; a reel that would index outside its
  table, and arithmetic that would overflow, are panics.
\<close>

section \<open>The game\<close>

record reel_symbol =
  rs_glyph :: bytes
  rs_name :: bytes
  rs_color :: color
  rs_payout :: u64

definition SYMBOLS :: "reel_symbol list" where
  "SYMBOLS =
     [\<lparr>rs_glyph = [0xe2, 0x99, 0xa6], rs_name = str ''DIAMOND'', rs_color = CCyan, rs_payout = 4\<rparr>,
      \<lparr>rs_glyph = [0xe2, 0x99, 0xa5], rs_name = str ''HEART'', rs_color = CRed, rs_payout = 6\<rparr>,
      \<lparr>rs_glyph = [0xe2, 0x99, 0xa3], rs_name = str ''CLUB'', rs_color = CGreen, rs_payout = 10\<rparr>,
      \<lparr>rs_glyph = [0xe2, 0x98, 0x85], rs_name = str ''STAR'', rs_color = CYellow, rs_payout = 25\<rparr>,
      \<lparr>rs_glyph = str ''7'', rs_name = str ''SEVEN'', rs_color = CMagenta, rs_payout = 100\<rparr>]"

definition REEL_STOPS :: "u32 list" where
  "REEL_STOPS = [10, 18, 26]"

record game =
  g_credits :: u64
  g_bet :: u64
  g_reels :: "nat \<times> nat \<times> nat"
  g_spin :: "u32 option"
  g_message :: bytes

definition game_new :: game where
  "game_new = \<lparr>g_credits = 100, g_bet = 5, g_reels = (0, 1, 2), g_spin = None, g_message = str ''Welcome! Space to spin.''\<rparr>"

definition spinning :: "game \<Rightarrow> bool" where
  "spinning g = (g_spin g \<noteq> None)"

definition start_spin :: "game \<Rightarrow> game" where
  "start_spin g =
     (if spinning g then g
      else if g_credits g < g_bet g then
        g\<lparr>g_message := str ''Not enough credits '' @ [0xe2, 0x80, 0x94] @ str '' press r to refill.''\<rparr>
      else g\<lparr>g_credits := g_credits g - g_bet g, g_spin := Some 0, g_message := str ''Spinning'' @ [0xe2, 0x80, 0xa6]\<rparr>)"

text \<open>Arithmetic on \<^verbatim>\<open>u64\<close> and \<^verbatim>\<open>u32\<close> that is checked.\<close>

definition checked_add :: "'a::len word \<Rightarrow> 'a word \<Rightarrow> 'a word result" where
  "checked_add a b = (if unat a + unat b < 2 ^ LENGTH('a) then Ok (a + b) else Crash ''attempt to add with overflow'')"

definition checked_mul :: "'a::len word \<Rightarrow> 'a word \<Rightarrow> 'a word result" where
  "checked_mul a b = (if unat a * unat b < 2 ^ LENGTH('a) then Ok (a * b) else Crash ''attempt to multiply with overflow'')"

definition adjust_bet :: "bool \<Rightarrow> game \<Rightarrow> (game, unit) outcome" where
  "adjust_bet upwards g =
     (if spinning g then (Ok (), g)
      else if upwards then onOk (checked_add (g_bet g) 5) g (\<lambda>raised. (Ok (), g\<lparr>g_bet := min raised 100\<rparr>))
      else (Ok (), g\<lparr>g_bet := max (if g_bet g < 5 then 0 else g_bet g - 5) 5\<rparr>))"

definition refill :: "game \<Rightarrow> game" where
  "refill g =
     (if \<not> spinning g \<and> g_credits g < g_bet g
      then g\<lparr>g_credits := 100, g_message := str ''Refilled to 100 credits. Easy come, easy go.''\<rparr>
      else g)"

definition at :: "'a list \<Rightarrow> nat \<Rightarrow> 'a result" where
  "at xs i = (if i < length xs then Ok (xs ! i) else Crash ''index out of bounds'')"

definition settle :: "game \<Rightarrow> (game, unit) outcome" where
  "settle g =
     (let (a, b, c) = g_reels g in
      onOk (if a = b \<and> b = c then rbind (at SYMBOLS a) (\<lambda>s. checked_mul (g_bet g) (rs_payout s))
            else if a = b \<or> b = c \<or> a = c then checked_mul (g_bet g) 2
            else Ok 0) g (\<lambda>win.
      onOk (checked_add (g_credits g) win) g (\<lambda>credits.
      let g = g\<lparr>g_credits := credits\<rparr> in
      if a = b \<and> b = c then
        onOk (at SYMBOLS a) g (\<lambda>s.
          (Ok (), g\<lparr>g_message := str ''JACKPOT! Three '' @ rs_name s @ str '' pay '' @ dec (unat win) @ str ''!''\<rparr>))
      else if win > 0 then
        (Ok (), g\<lparr>g_message := str ''A pair '' @ [0xe2, 0x80, 0x94] @ str '' you win '' @ dec (unat win) @ str ''.''\<rparr>)
      else (Ok (), g\<lparr>g_message := str ''No luck. Spin again?''\<rparr>))))"

text \<open>One reel of the loop in \<^verbatim>\<open>tick\<close>.\<close>

definition roll :: "('r \<Rightarrow> u32 \<times> 'r) \<Rightarrow> u32 \<Rightarrow> u32 \<Rightarrow> nat \<Rightarrow> 'r \<Rightarrow> nat \<times> 'r" where
  "roll next32 tick stop reel rng =
     (if tick \<le> stop then (case next32 rng of (v, rng) \<Rightarrow> (unat v mod length SYMBOLS, rng)) else (reel, rng))"

definition tick :: "('r \<Rightarrow> u32 \<times> 'r) \<Rightarrow> game \<times> 'r \<Rightarrow> (game \<times> 'r, unit) outcome" where
  "tick next32 s =
     (let (g, rng) = s in
      case g_spin g of
        None \<Rightarrow> (Ok (), s)
      | Some t \<Rightarrow>
          onOk (checked_add t 1) s (\<lambda>t.
          let (a, b, c) = g_reels g;
              (a, rng) = roll next32 t (REEL_STOPS ! 0) a rng;
              (b, rng) = roll next32 t (REEL_STOPS ! 1) b rng;
              (c, rng) = roll next32 t (REEL_STOPS ! 2) c rng;
              g = g\<lparr>g_spin := Some t, g_reels := (a, b, c)\<rparr>
          in if t > REEL_STOPS ! 2
             then (case settle (g\<lparr>g_spin := None\<rparr>) of (res, g) \<Rightarrow> (res, (g, rng)))
             else (Ok (), (g, rng))))"

text \<open>A key; \<open>True\<close> to leave.\<close>

definition handle_key :: "key_event \<Rightarrow> game \<Rightarrow> (game, bool) outcome" where
  "handle_key key g =
     (let c = ke_code key in
      if c = KChar 113 \<or> c = KEsc then (Ok True, g)
      else if is_interrupt key then (Ok True, g)
      else if c = KChar 32 \<or> c = KEnter then (Ok False, start_spin g)
      else if c = KUp \<or> c = KChar 43 then andThen (adjust_bet True g) (\<lambda>_ g. (Ok False, g))
      else if c = KDown \<or> c = KChar 45 then andThen (adjust_bet False g) (\<lambda>_ g. (Ok False, g))
      else if c = KChar 114 then (Ok False, refill g)
      else (Ok False, g))"

section \<open>The screen\<close>

text \<open>What the program hands to the crate to render: paragraphs, as their builders make them, and where. A line is its
  own style and its spans. The areas of a layout are the crate's to choose.\<close>

record rect =
  rc_x :: u16
  rc_y :: u16
  rc_width :: u16
  rc_height :: u16

record text_style =
  ts_fg :: "color option"
  ts_mod :: "flag set"

datatype border_type = Plain | Double | Rounded

record block_widget =
  bw_type :: border_type
  bw_style :: text_style
  bw_top :: u16

record text_widget =
  pg_lines :: "(text_style \<times> (bytes \<times> text_style) list) list"
  pg_centered :: bool
  pg_style :: text_style
  pg_block :: "block_widget option"

datatype layout_constraint = CLength u16 | CMin u16 | CRatio u32 u32

record layouts =
  ly_vertical :: "layout_constraint list \<Rightarrow> rect \<Rightarrow> rect list"
  ly_horizontal :: "layout_constraint list \<Rightarrow> rect \<Rightarrow> rect list"

type_synonym screen_frame = "(text_widget \<times> rect) list"

definition style_new :: text_style where
  "style_new = \<lparr>ts_fg = None, ts_mod = {}\<rparr>"

definition fg :: "color \<Rightarrow> text_style \<Rightarrow> text_style" where
  "fg c s = s\<lparr>ts_fg := Some c\<rparr>"

definition add_modifier :: "flag \<Rightarrow> text_style \<Rightarrow> text_style" where
  "add_modifier f s = s\<lparr>ts_mod := insert f (ts_mod s)\<rparr>"

definition bordered :: block_widget where
  "bordered = \<lparr>bw_type = Plain, bw_style = style_new, bw_top = 0\<rparr>"

definition raw_line :: "bytes \<Rightarrow> text_style \<times> (bytes \<times> text_style) list" where
  "raw_line t = (style_new, [(t, style_new)])"

definition paragraph_new :: "(text_style \<times> (bytes \<times> text_style) list) list \<Rightarrow> text_widget" where
  "paragraph_new ls = \<lparr>pg_lines = ls, pg_centered = False, pg_style = style_new, pg_block = None\<rparr>"

definition draw_reel :: "rect \<Rightarrow> reel_symbol \<Rightarrow> bool \<Rightarrow> screen_frame" where
  "draw_reel area s rolling =
     (let border = (if rolling then fg CYellow style_new else fg CDarkGray style_new);
          padding = (if rc_height area < 4 then 0 else rc_height area - 4) div 2;
          block = bordered\<lparr>bw_type := Rounded, bw_style := border, bw_top := padding\<rparr>;
          body = [(add_modifier Bold (fg (rs_color s) style_new), [(rs_glyph s, style_new)]),
                  (fg (rs_color s) style_new, [(rs_name s, style_new)])]
      in [((paragraph_new body)\<lparr>pg_centered := True, pg_block := Some block\<rparr>, area)])"

text \<open>The loop over the columns, each with its reel.\<close>

fun draw_reels :: "rect list \<Rightarrow> nat list \<Rightarrow> bool \<Rightarrow> screen_frame result" where
  "draw_reels (column # columns) (reel # reels) rolling =
     rbind (at SYMBOLS reel) (\<lambda>s. rbind (draw_reels columns reels rolling) (\<lambda>f. Ok (draw_reel column s rolling @ f)))"
| "draw_reels _ _ _ = Ok []"

definition status_line :: "game \<Rightarrow> text_style \<times> (bytes \<times> text_style) list" where
  "status_line g =
     (style_new,
      [(str ''  Credits: '', style_new),
       (dec (unat (g_credits g)), add_modifier Bold (fg CGreen style_new)),
       (str ''   Bet: '', style_new),
       (dec (unat (g_bet g)), add_modifier Bold (fg CCyan style_new)),
       (str ''   '', style_new),
       (g_message g, fg CYellow style_new)])"

definition TITLE :: bytes where
  "TITLE =
     (let star = [0xe2, 0x98, 0x85] in
      star @ str '' '' @ star @ str '' '' @ star @ str ''  S S H   S L O T S  '' @ star @ str '' '' @ star @ str '' '' @ star)"

definition HELP :: bytes where
  "HELP = str ''space: spin   '' @ [0xe2, 0x86, 0x91] @ str ''/'' @ [0xe2, 0x86, 0x93] @ str '': bet   r: refill   q: quit''"

definition ui :: "layouts \<Rightarrow> rect \<Rightarrow> game \<Rightarrow> screen_frame result" where
  "ui L area g =
     (if rc_width area < 40 \<or> rc_height area < 14 then
        Ok [((paragraph_new [raw_line (str ''Terminal too small for the casino''), raw_line (str ''(need at least 40x14)'')])
               \<lparr>pg_centered := True\<rparr>, area)]
      else
        case ly_vertical L [CLength 3, CMin 7, CLength 3, CLength 1] area of
          [title, reels, status, help] \<Rightarrow>
            let (a, b, c) = g_reels g;
                columns = ly_horizontal L [CRatio 1 3, CRatio 1 3, CRatio 1 3] reels
            in rbind (draw_reels columns [a, b, c] (spinning g)) (\<lambda>drawn.
               Ok (((paragraph_new [raw_line TITLE])\<lparr>pg_centered := True, pg_style := add_modifier Bold (fg CYellow style_new),
                      pg_block := Some (bordered\<lparr>bw_type := Double\<rparr>)\<rparr>, title) #
                   drawn @
                   [((paragraph_new [status_line g])\<lparr>pg_block := Some bordered\<rparr>, status),
                    ((paragraph_new [raw_line HELP])\<lparr>pg_centered := True, pg_style := fg CDarkGray style_new\<rparr>, help)]))
        | _ \<Rightarrow> Crash ''invalid number of rects'')"

section \<open>The handler\<close>

text \<open>What the loop has in hand. The frame the crate passes to \<^verbatim>\<open>ui\<close> covers the size of the backend.\<close>

record ('t, 'r) slots =
  sl_game :: game
  sl_rng :: 'r
  sl_parser :: input_parser
  sl_terminal :: "'t ssh_terminal"
  sl_acts :: "write_act list"

datatype slot_event = Input "bytes option" | Resized "(u16 \<times> u16) option" | SpinTick

text \<open>A turn of the loop goes round again, leaves it with \<^verbatim>\<open>break 0\<close>, returns a status, or waits.\<close>

datatype slot_turn = Again | Leave | Return u32 | Waits

text \<open>\<^verbatim>\<open>any\<close> over the keys: the first that wants out ends it.\<close>

fun any_key :: "key_event list \<Rightarrow> game \<Rightarrow> (game, bool) outcome" where
  "any_key [] g = (Ok False, g)"
| "any_key (k # ks) g = andThen (handle_key k g) (\<lambda>quit g. if quit then (Ok True, g) else any_key ks g)"

definition frame_area :: "'t ssh_terminal \<Rightarrow> rect" where
  "frame_area t =
     \<lparr>rc_x = 0, rc_y = 0, rc_width = sz_width (sb_size (st_backend t)), rc_height = sz_height (sb_size (st_backend t))\<rparr>"

definition slots_draw ::
    "('t, screen_frame) ratatui \<Rightarrow> layouts \<Rightarrow> (acquire \<times> bool) list \<Rightarrow> ('t, 'r) slots \<Rightarrow> (('t, 'r) slots, bool option) outcome" where
  "slots_draw R L answers s =
     onOk (ui L (frame_area (sl_terminal s)) (sl_game s)) s (\<lambda>f.
       case terminal_draw R f answers (sl_terminal s) of (res, t) \<Rightarrow>
         onOk res (s\<lparr>sl_terminal := t\<rparr>) (\<lambda>(wrote, acts). (Ok wrote, s\<lparr>sl_terminal := t, sl_acts := sl_acts s @ acts\<rparr>)))"

definition slots_select :: "('r \<Rightarrow> u32 \<times> 'r) \<Rightarrow> slot_event \<Rightarrow> ('t, 'r) slots \<Rightarrow> (('t, 'r) slots, slot_turn) outcome" where
  "slots_select next32 e s =
     (case e of
        Input None \<Rightarrow> (Ok (Return 1), s)
      | Input (Some data) \<Rightarrow>
          if data = [] then (Ok (Return 1), s)
          else
            (case feed data (sl_parser s) of (keys, parser) \<Rightarrow>
               onOk keys (s\<lparr>sl_parser := parser\<rparr>) (\<lambda>keys.
                 case any_key keys (sl_game s) of (quit, g) \<Rightarrow>
                   onOk quit (s\<lparr>sl_parser := parser, sl_game := g\<rparr>) (\<lambda>quit.
                     (Ok (if quit then Leave else Again), s\<lparr>sl_parser := parser, sl_game := g\<rparr>))))
      | Resized None \<Rightarrow> (Ok (Return 1), s)
      | Resized (Some dims) \<Rightarrow> (Ok Again, s\<lparr>sl_terminal := terminal_resize dims (sl_terminal s)\<rparr>)
      | SpinTick \<Rightarrow>
          if spinning (sl_game s) then
            (case tick next32 (sl_game s, sl_rng s) of (res, (g, rng)) \<Rightarrow>
               onOk res (s\<lparr>sl_game := g, sl_rng := rng\<rparr>) (\<lambda>_. (Ok Again, s\<lparr>sl_game := g, sl_rng := rng\<rparr>)))
          else (Ok Waits, s))"

definition slots_turn ::
    "('t, screen_frame) ratatui \<Rightarrow> layouts \<Rightarrow> ('r \<Rightarrow> u32 \<times> 'r) \<Rightarrow> (acquire \<times> bool) list \<times> slot_event \<Rightarrow>
     ('t, 'r) slots \<Rightarrow> (('t, 'r) slots, slot_turn) outcome" where
  "slots_turn R L next32 turn s =
     andThen (slots_draw R L (fst turn) s) (\<lambda>wrote s.
       case wrote of
         None \<Rightarrow> (Ok Waits, s)
       | Some False \<Rightarrow> (Ok (Return 1), s)
       | Some True \<Rightarrow> slots_select next32 (snd turn) s)"

text \<open>The loop, for as many turns as the runtime gives; behind it the screen is restored, whatever comes of that.\<close>

fun slots_loop ::
    "('t, screen_frame) ratatui \<Rightarrow> layouts \<Rightarrow> ('r \<Rightarrow> u32 \<times> 'r) \<Rightarrow> (acquire \<times> bool) list \<Rightarrow>
     ((acquire \<times> bool) list \<times> slot_event) list \<Rightarrow> ('t, 'r) slots \<Rightarrow> (('t, 'r) slots, u32 option) outcome" where
  "slots_loop R L next32 closing [] s = (Ok None, s)"
| "slots_loop R L next32 closing (turn # turns) s =
     andThen (slots_turn R L next32 turn s) (\<lambda>t s.
       case t of
         Again \<Rightarrow> slots_loop R L next32 closing turns s
       | Leave \<Rightarrow> (Ok (Some 0), s\<lparr>sl_acts := sl_acts s @ snd (terminal_restore (sl_terminal s) closing)\<rparr>)
       | Return status \<Rightarrow> (Ok (Some status), s)
       | Waits \<Rightarrow> (Ok None, s))"

text \<open>The start of the handler: without a terminal a hint and status 1.\<close>

definition NO_TERMINAL :: bytes where
  "NO_TERMINAL = str ''the casino needs a terminal (try: ssh -t ...)'' @ [13, 10]"

datatype ('t, 'r) slots_start = NoTerminal "write_act list" | SetupFailed "write_act list" | SetupWaits "write_act list" | Playing "('t, 'r) slots"

definition slots_run ::
    "('t, screen_frame) ratatui \<Rightarrow> 'r \<Rightarrow> (acquire \<times> bool) list \<Rightarrow> ('q, 'w) channel_session \<Rightarrow> ('t, 'r) slots_start" where
  "slots_run R rng answers session =
     (case session_pty session of
        None \<Rightarrow> NoTerminal (snd (write_stderr NO_TERMINAL answers))
      | Some pty \<Rightarrow>
          let (reader, writer) = session_split session in
          case terminal_new R writer (pty_cols pty, pty_rows pty) answers of
            (None, acts) \<Rightarrow> SetupWaits acts
          | (Some None, acts) \<Rightarrow> SetupFailed acts
          | (Some (Some terminal), acts) \<Rightarrow>
              Playing \<lparr>sl_game = game_new, sl_rng = rng, sl_parser = input_parser_new, sl_terminal = terminal, sl_acts = acts\<rparr>)"

text \<open>Who may play, and how a connection is set up.\<close>

definition slots_auth :: "unit auth_handler" where
  "slots_auth = default_auth_handler
     \<lparr>h_verify_password := (\<lambda>user password h. (user = str ''demo'' \<and> password = str ''demo'', h)),
      h_is_authorized_key := (\<lambda>_ _ h. (False, h))\<rparr>"

datatype slots_handler = SlotMachine

definition slots_context :: "slots_handler exec_context" where
  "slots_context = on_shell SlotMachine context_new"

definition slots_connection :: "('r, 'z) prims \<Rightarrow> 'r \<Rightarrow> host_key \<Rightarrow> (('r, 'z, unit) server, unit) outcome" where
  "slots_connection P rng key =
     andThen (server_new P rng key ()) (\<lambda>_ conn. (Ok (), server_set_allow_pty True conn))"

section \<open>What a game keeps\<close>

text \<open>The values of a game: reels that name symbols, a bet between 5 and 100, a spin that counts to 26, and credits that
  leave room for \<open>n\<close> more wins of the largest size.\<close>

definition reel_ok :: "nat \<Rightarrow> bool" where
  "reel_ok r \<longleftrightarrow> r < length SYMBOLS"

definition MAX_WIN :: nat where "MAX_WIN = 10000"

definition game_ok :: "nat \<Rightarrow> game \<Rightarrow> bool" where
  "game_ok n g \<longleftrightarrow> 5 \<le> g_bet g \<and> g_bet g \<le> 100 \<and> (case g_reels g of (a, b, c) \<Rightarrow> reel_ok a \<and> reel_ok b \<and> reel_ok c) \<and>
     (\<forall>t. g_spin g = Some t \<longrightarrow> t \<le> 26) \<and> unat (g_credits g) + n * MAX_WIN < 2 ^ 64 \<and> 100 + n * MAX_WIN < 2 ^ 64"

lemma length_SYMBOLS [simp]: "length SYMBOLS = 5"
  by (simp add: SYMBOLS_def)

lemma roll_ok: "reel_ok r \<Longrightarrow> reel_ok (fst (roll next32 t stop r rng))"
  by (simp add: roll_def reel_ok_def split: prod.split)

text \<open>What three reels pay.\<close>

definition pays :: "nat \<Rightarrow> nat" where
  "pays a = [4, 6, 10, 25, 100] ! a"

definition payout :: "nat \<Rightarrow> nat \<times> nat \<times> nat \<Rightarrow> nat" where
  "payout bet reels =
     (let (a, b, c) = reels in
      if a = b \<and> b = c then bet * pays a
      else if a = b \<or> b = c \<or> a = c then bet * 2
      else 0)"

lemma symbol_cases: "a < 5 \<Longrightarrow> (a = 0 \<Longrightarrow> P) \<Longrightarrow> (a = 1 \<Longrightarrow> P) \<Longrightarrow> (a = 2 \<Longrightarrow> P) \<Longrightarrow> (a = 3 \<Longrightarrow> P) \<Longrightarrow>
    (a = (4 :: nat) \<Longrightarrow> P) \<Longrightarrow> P"
  by linarith

lemma payout_table: "a < 5 \<Longrightarrow> unat (rs_payout (SYMBOLS ! a)) = pays a"
  by (erule symbol_cases) (simp_all add: SYMBOLS_def pays_def)

lemma pays_bounds: "a < 5 \<Longrightarrow> 0 < pays a \<and> pays a \<le> 100"
  by (erule symbol_cases) (simp_all add: pays_def)

lemma payout_max: "bet \<le> 100 \<Longrightarrow> reel_ok a \<Longrightarrow> payout bet (a, b, c) \<le> MAX_WIN"
proof -
  assume a: "bet \<le> 100" "reel_ok a"
  then have "bet * pays a \<le> 100 * 100" using pays_bounds [of a] by (intro mult_le_mono) (simp_all add: reel_ok_def)
  then have "bet * pays a \<le> MAX_WIN" "bet * 2 \<le> MAX_WIN" using a(1) by (simp_all add: MAX_WIN_def)
  then show ?thesis unfolding payout_def Let_def prod.case by (simp only: le0 split: if_split) simp
qed

lemma checked_ok: "unat a + unat b < 2 ^ LENGTH('a) \<Longrightarrow> checked_add a (b :: 'a::len word) = Ok (a + b)"
  by (simp add: checked_add_def)

lemma at_SYMBOLS: "a < 5 \<Longrightarrow> at SYMBOLS a = Ok (SYMBOLS ! a)"
  by (simp add: at_def)

lemma settle_pays:
  assumes "game_ok (Suc n) g"
  shows "\<exists>g'. settle g = (Ok (), g') \<and> unat (g_credits g') = unat (g_credits g) + payout (unat (g_bet g)) (g_reels g) \<and>
    g_bet g' = g_bet g \<and> g_reels g' = g_reels g \<and> g_spin g' = g_spin g"
proof -
  obtain a b c where r: "g_reels g = (a, b, c)" by (cases "g_reels g")
  then have ok: "a < 5" "unat (g_bet g) \<le> 100" "unat (g_credits g) + MAX_WIN < 2 ^ 64"
    using assms by (simp_all add: game_ok_def reel_ok_def word_le_nat_alt MAX_WIN_def)
  let ?w = "payout (unat (g_bet g)) (g_reels g)"
  have w: "?w \<le> MAX_WIN" using payout_max [of "unat (g_bet g)" a b c] ok(1,2) r by (simp add: reel_ok_def)
  have "(if a = b \<and> b = c then rbind (at SYMBOLS a) (\<lambda>s. checked_mul (g_bet g) (rs_payout s))
      else if a = b \<or> b = c \<or> a = c then checked_mul (g_bet g) 2 else Ok 0) = Ok (of_nat ?w)"
  proof (cases "a = b \<and> b = c")
    case True
    then have p: "?w = unat (g_bet g) * unat (rs_payout (SYMBOLS ! a))" using r payout_table [OF ok(1)] by (simp add: payout_def)
    have "of_nat ?w = g_bet g * rs_payout (SYMBOLS ! a)" unfolding p by simp
    then show ?thesis using True p w ok(1) by (simp add: at_def checked_mul_def MAX_WIN_def)
  next
    case False
    then have p: "?w = (if a = b \<or> b = c \<or> a = c then unat (g_bet g) * 2 else 0)"
      unfolding payout_def r by (simp only: prod.case Let_def if_False)
    have "checked_mul (g_bet g) 2 = Ok (of_nat (unat (g_bet g) * 2))" using ok(2) by (simp add: checked_mul_def)
    then show ?thesis using False unfolding p by (simp only: if_False split: if_split) simp
  qed
  moreover have "unat (of_nat ?w :: u64) = ?w" using w by (simp add: MAX_WIN_def unat_of_nat)
  moreover have "checked_add (g_credits g) (of_nat ?w) = Ok (g_credits g + of_nat ?w)"
      "unat (g_credits g + of_nat ?w) = unat (g_credits g) + ?w"
    using w ok(3) calculation(2) by (simp_all add: checked_add_def unat_word_ariths)
  ultimately obtain win where "(if a = b \<and> b = c then rbind (at SYMBOLS a) (\<lambda>s. checked_mul (g_bet g) (rs_payout s))
      else if a = b \<or> b = c \<or> a = c then checked_mul (g_bet g) 2 else Ok 0) = Ok win"
    and sum: "checked_add (g_credits g) win = Ok (g_credits g + win)" "unat (g_credits g + win) = unat (g_credits g) + ?w" by blast
  then have "\<exists>m. settle g = (Ok (), g\<lparr>g_credits := g_credits g + win, g_message := m\<rparr>)"
    using at_SYMBOLS [OF ok(1)] by (simp add: settle_def r) (simp only: Let_def onOk_simps, metis)
  then obtain m where "settle g = (Ok (), g\<lparr>g_credits := g_credits g + win, g_message := m\<rparr>)" by blast
  then show ?thesis using sum(2) by simp
qed

lemma game_ok_new: "n \<le> 2 ^ 50 \<Longrightarrow> game_ok n game_new"
  by (simp add: game_ok_def game_new_def reel_ok_def MAX_WIN_def)

lemma game_ok_less: "game_ok n g \<Longrightarrow> m \<le> n \<Longrightarrow> game_ok m g"
proof -
  assume g: "game_ok n g" and "m \<le> n"
  then have "k + m * MAX_WIN \<le> k + n * MAX_WIN" for k by simp
  with g show ?thesis unfolding game_ok_def by (meson le_less_trans)
qed

lemma game_ok_start: "game_ok n g \<Longrightarrow> game_ok n (start_spin g)"
  using unat_sub [of "g_bet g" "g_credits g"]
  by (auto simp: game_ok_def start_spin_def not_less word_less_nat_alt word_le_nat_alt)

lemma game_ok_refill: "game_ok n g \<Longrightarrow> game_ok n (refill g)"
  by (simp add: game_ok_def refill_def)

lemma bet_up:
  fixes bet :: u64
  assumes "unat bet \<le> 100"
  shows "checked_add bet 5 = Ok (bet + 5) \<and> unat (min (bet + 5) 100) = min (unat bet + 5) 100"
proof -
  have "unat (bet + 5) = unat bet + 5" using assms by (simp add: unat_word_ariths)
  then show ?thesis using assms by (simp add: checked_add_def min_def word_le_nat_alt)
qed

lemma bet_down:
  fixes bet :: u64
  shows "unat (max (if bet < 5 then 0 else bet - 5) 5) = max (unat bet - 5) 5"
  using unat_sub [of 5 bet] by (auto simp: max_def word_le_nat_alt word_less_nat_alt not_less)

lemma game_ok_adjust:
  assumes "game_ok n g"
  shows "\<exists>g'. adjust_bet upwards g = (Ok (), g') \<and> game_ok n g' \<and> g_credits g' = g_credits g \<and> g_spin g' = g_spin g"
proof -
  have b: "5 \<le> unat (g_bet g)" "unat (g_bet g) \<le> 100" using assms by (simp_all add: game_ok_def word_le_nat_alt)
  show ?thesis using assms bet_up [OF b(2)] bet_down [of "g_bet g"] b
    by (auto simp: adjust_bet_def game_ok_def word_le_nat_alt)
qed

lemma game_ok_key:
  assumes "game_ok n g"
  shows "\<exists>quit g'. handle_key key g = (Ok quit, g') \<and> game_ok n g'"
  using game_ok_adjust [OF assms] game_ok_start [OF assms] game_ok_refill [OF assms] assms
  unfolding handle_key_def Let_def by (auto simp: Let_def) (metis andThen_simps(1))+

text \<open>A tick of a spin: short of the last one it only counts and rolls, and the last one settles.\<close>

lemma tick_rolls:
  assumes "game_ok n g" and "g_spin g = Some t" and "t < 26"
  shows "\<exists>g' rng'. tick next32 (g, rng) = (Ok (), (g', rng')) \<and> game_ok n g' \<and> g_spin g' = Some (t + 1) \<and>
    g_credits g' = g_credits g \<and> g_bet g' = g_bet g"
proof -
  obtain a b c where r: "g_reels g = (a, b, c)" by (cases "g_reels g")
  obtain a' r1 where a: "roll next32 (t + 1) 10 a rng = (a', r1)" by fastforce
  obtain b' r2 where b: "roll next32 (t + 1) 18 b r1 = (b', r2)" by fastforce
  obtain c' r3 where c: "roll next32 (t + 1) 26 c r2 = (c', r3)" by fastforce
  have ok: "reel_ok a'" "reel_ok b'" "reel_ok c'"
    using assms(1) roll_ok [of a next32 "t + 1" 10 rng] roll_ok [of b next32 "t + 1" 18 r1] roll_ok [of c next32 "t + 1" 26 r2]
    by (simp_all add: game_ok_def r a b c)
  have t: "unat t < 26" using assms(3) by (simp add: word_less_nat_alt)
  then have "checked_add t 1 = Ok (t + 1)" "unat (t + 1) = unat t + 1" by (simp_all add: checked_add_def unat_word_ariths)
  moreover from this(2) t have "t + 1 \<le> 26" by (simp add: word_le_nat_alt)
  ultimately have "tick next32 (g, rng) = (Ok (), (g\<lparr>g_spin := Some (t + 1), g_reels := (a', b', c')\<rparr>, r3))"
    using assms(2) by (auto simp: tick_def r REEL_STOPS_def a b c Let_def)
  moreover have "game_ok n (g\<lparr>g_spin := Some (t + 1), g_reels := (a', b', c')\<rparr>)"
    using assms(1) ok \<open>t + 1 \<le> 26\<close> by (simp add: game_ok_def)
  ultimately show ?thesis by simp
qed

lemma tick_settles:
  assumes "game_ok (Suc n) g" and "g_spin g = Some 26"
  shows "\<exists>g' rng'. tick next32 (g, rng) = (Ok (), (g', rng')) \<and> game_ok n g' \<and> g_spin g' = None \<and>
    unat (g_credits g') = unat (g_credits g) + payout (unat (g_bet g)) (g_reels g) \<and> g_bet g' = g_bet g \<and> g_reels g' = g_reels g"
proof -
  obtain a b c where r: "g_reels g = (a, b, c)" by (cases "g_reels g")
  have stay: "roll next32 27 10 a rng = (a, rng)" "roll next32 27 18 b rng = (b, rng)" "roll next32 27 26 c rng = (c, rng)"
    by (simp_all add: roll_def)
  have ok: "game_ok (Suc n) (g\<lparr>g_reels := (a, b, c), g_spin := None\<rparr>)" using assms(1) r by (simp add: game_ok_def)
  obtain g' where g': "settle (g\<lparr>g_reels := (a, b, c), g_spin := None\<rparr>) = (Ok (), g')"
      "unat (g_credits g') = unat (g_credits g) + payout (unat (g_bet g)) (a, b, c)"
      "g_bet g' = g_bet g" "g_reels g' = (a, b, c)" "g_spin g' = None"
    using settle_pays [OF ok] by auto
  have "payout (unat (g_bet g)) (a, b, c) \<le> MAX_WIN"
    using assms(1) r by (intro payout_max) (simp_all add: game_ok_def word_le_nat_alt)
  then have "game_ok n g'" using assms(1) g' r by (simp add: game_ok_def)
  moreover have "checked_add (26 :: u32) 1 = Ok 27" by (simp add: checked_add_def)
  ultimately have "tick next32 (g, rng) = (Ok (), (g', rng))" "game_ok n g'"
    using assms(2) g'(1) r stay by (simp_all add: tick_def REEL_STOPS_def Let_def)
  then show ?thesis using g' r by simp
qed

section \<open>The handler does not panic\<close>

lemma any_key_ok: "game_ok n g \<Longrightarrow> \<exists>quit g'. any_key ks g = (Ok quit, g') \<and> game_ok n g'"
proof (induction ks arbitrary: g)
  case (Cons k ks)
  then show ?case using game_ok_key [of n g k] by auto
qed auto

definition layouts_ok :: "layouts \<Rightarrow> bool" where
  "layouts_ok L \<longleftrightarrow> (\<forall>cs area. length (ly_vertical L cs area) = length cs)"

lemma draw_reels_ok: "list_all reel_ok reels \<Longrightarrow> \<exists>f. draw_reels columns reels rolling = Ok f"
proof (induction columns reels rolling rule: draw_reels.induct)
  case (1 column columns reel reels rolling)
  then show ?case by (auto simp: at_def reel_ok_def)
qed simp_all

lemma ui_ok:
  assumes "layouts_ok L" and "game_ok n g"
  shows "\<exists>f. ui L area g = Ok f"
proof -
  have "length (ly_vertical L [CLength 3, CMin 7, CLength 3, CLength 1] area) = 4" using assms(1) by (simp add: layouts_ok_def)
  then obtain t r s h where v: "ly_vertical L [CLength 3, CMin 7, CLength 3, CLength 1] area = [t, r, s, h]"
    by (auto simp: length_Suc_conv numeral_eq_Suc)
  obtain a b c where g: "g_reels g = (a, b, c)" by (cases "g_reels g")
  then obtain f where "draw_reels (ly_horizontal L [CRatio 1 3, CRatio 1 3, CRatio 1 3] r) [a, b, c] (spinning g) = Ok f"
    using assms(2) draw_reels_ok [of "[a, b, c]"] by (simp add: game_ok_def) blast
  then show ?thesis by (simp add: ui_def v g)
qed

text \<open>There is always a terminal in the state the backend assumes, so no frame makes the backend panic.\<close>

lemma terminal_draw_ok:
  assumes "draws_inside R"
  shows "\<exists>res t'. terminal_draw R f answers t = (Ok res, t')"
proof -
  let ?b = "st_backend t"
  let ?tm = "\<lparr>tm_cols = unat (sz_width (sb_size ?b)), tm_rows = unat (sz_height (sb_size ?b)),
    tm_x = (case sb_cursor ?b of Some p \<Rightarrow> unat (pos_x p) | None \<Rightarrow> 0),
    tm_y = (case sb_cursor ?b of Some p \<Rightarrow> unat (pos_y p) | None \<Rightarrow> 0), tm_style = sb_style ?b, tm_visible = True,
    tm_screen = (\<lambda>_. None)\<rparr>"
  obtain calls tt where "rt_draw R f (st_terminal t) ?b = (calls, tt)" by fastforce
  moreover have "matches ?b ?tm" "sized ?b ?tm" by (simp_all add: matches_def sized_def)
  ultimately show ?thesis using frame_drawn [OF assms, of t ?tm f calls tt answers] by blast
qed

lemma slots_draw_ok:
  assumes "draws_inside R" and "layouts_ok L" and "game_ok n (sl_game s)"
  shows "\<exists>wrote s'. slots_draw R L answers s = (Ok wrote, s') \<and> sl_game s' = sl_game s"
proof -
  obtain f where f: "ui L (frame_area (sl_terminal s)) (sl_game s) = Ok f" using ui_ok [OF assms(2,3)] by blast
  obtain wrote acts t' where "terminal_draw R f answers (sl_terminal s) = (Ok (wrote, acts), t')"
    using terminal_draw_ok [OF assms(1), of f answers "sl_terminal s"] by auto
  with f show ?thesis by (simp add: slots_draw_def)
qed

lemma tick_ok:
  assumes "game_ok (Suc n) g"
  shows "\<exists>g' rng'. tick next32 (g, rng) = (Ok (), (g', rng')) \<and> game_ok n g'"
proof (cases "g_spin g")
  case None
  then show ?thesis using assms game_ok_less [of "Suc n" g n] by (simp add: tick_def)
next
  case (Some t)
  then have "t \<le> 26" using assms by (simp add: game_ok_def)
  then consider "t < 26" | "t = 26" by (auto simp: order_less_le)
  then show ?thesis
  proof cases
    case 1
    then show ?thesis using tick_rolls [OF game_ok_less [OF assms, of n] Some, of next32 rng] by auto
  next
    case 2
    then show ?thesis using tick_settles [OF assms, of next32 rng] Some by blast
  qed
qed

lemma slots_select_ok:
  assumes "game_ok (Suc n) (sl_game s)"
  shows "\<exists>t s'. slots_select next32 e s = (Ok t, s') \<and> game_ok n (sl_game s')"
proof (cases e)
  case (Input data)
  obtain keys rest where f: "feed_loop (ip_pending (sl_parser s) @ (case data of Some d \<Rightarrow> d | None \<Rightarrow> [])) = Ok (keys, rest)"
    using feed_loop_total by blast
  obtain quit g' where "any_key keys (sl_game s) = (Ok quit, g')" "game_ok n g'"
    using any_key_ok [OF game_ok_less [OF assms, of n], of keys] by auto
  then show ?thesis using Input f game_ok_less [OF assms, of n]
    by (cases data) (auto simp: slots_select_def feed_def)
next
  case (Resized dims)
  then show ?thesis using game_ok_less [OF assms, of n] by (cases dims) (simp_all add: slots_select_def)
next
  case SpinTick
  obtain g' rng' where "tick next32 (sl_game s, sl_rng s) = (Ok (), (g', rng'))" "game_ok n g'"
    using tick_ok [OF assms, of next32 "sl_rng s"] by blast
  then show ?thesis using SpinTick game_ok_less [OF assms, of n] by (simp add: slots_select_def)
qed

lemma slots_loop_ok:
  assumes "draws_inside R" and "layouts_ok L"
  shows "game_ok (length turns) (sl_game s) \<Longrightarrow>
    \<exists>status s'. slots_loop R L next32 closing turns s = (Ok status, s') \<and> game_ok 0 (sl_game s')"
proof (induction turns arbitrary: s)
  case (Cons turn turns)
  obtain wrote s1 where s1: "slots_draw R L (fst turn) s = (Ok wrote, s1)" "sl_game s1 = sl_game s"
    using slots_draw_ok [OF assms Cons.prems] by blast
  have g: "game_ok (Suc (length turns)) (sl_game s1)" using Cons.prems s1(2) by simp
  obtain t s2 where s2: "slots_select next32 (snd turn) s1 = (Ok t, s2)" "game_ok (length turns) (sl_game s2)"
    using slots_select_ok [OF g] by blast
  have z: "game_ok 0 (sl_game s1)" "game_ok 0 (sl_game s2)" using game_ok_less [OF g, of 0] game_ok_less [OF s2(2), of 0] by simp_all
  then show ?case using s1(1) s2 Cons.IH [OF s2(2)]
    by (auto simp: slots_turn_def split: option.splits bool.splits slot_turn.splits)
qed simp

section \<open>A spin\<close>

text \<open>Keys and ticks in any order.\<close>

datatype game_event = Press key_event | Tick

fun game_run :: "('r \<Rightarrow> u32 \<times> 'r) \<Rightarrow> game_event list \<Rightarrow> game \<times> 'r \<Rightarrow> (game \<times> 'r, unit) outcome" where
  "game_run next32 [] s = (Ok (), s)"
| "game_run next32 (Tick # es) s = andThen (tick next32 s) (\<lambda>_ s. game_run next32 es s)"
| "game_run next32 (Press k # es) s =
     (case handle_key k (fst s) of (res, g) \<Rightarrow> onOk res (g, snd s) (\<lambda>_. game_run next32 es (g, snd s)))"

fun ticks :: "game_event list \<Rightarrow> nat" where
  "ticks [] = 0"
| "ticks (Tick # es) = Suc (ticks es)"
| "ticks (Press _ # es) = ticks es"

lemma spinning_ignores_keys: "spinning g \<Longrightarrow> \<exists>quit. handle_key k g = (Ok quit, g)"
  by (auto simp: handle_key_def Let_def start_spin_def adjust_bet_def refill_def)

lemma spin_goes_on:
  "game_ok n g \<Longrightarrow> g_spin g = Some t \<Longrightarrow> unat t + ticks es \<le> 26 \<Longrightarrow>
    \<exists>g' rng'. game_run next32 es (g, rng) = (Ok (), (g', rng')) \<and> game_ok n g' \<and>
      g_spin g' = Some (t + of_nat (ticks es)) \<and> g_credits g' = g_credits g \<and> g_bet g' = g_bet g"
proof (induction es arbitrary: g rng t)
  case (Cons e es)
  show ?case
  proof (cases e)
    case (Press k)
    have "spinning g" using Cons.prems(2) by (simp add: spinning_def)
    then obtain quit where "handle_key k g = (Ok quit, g)" using spinning_ignores_keys by blast
    then show ?thesis using Cons Press by simp
  next
    case Tick
    then have t: "t < 26" "unat (t + 1) = unat t + 1" using Cons.prems(3) by (simp_all add: word_less_nat_alt unat_word_ariths)
    then obtain g1 r1 where g1: "tick next32 (g, rng) = (Ok (), (g1, r1))" "game_ok n g1" "g_spin g1 = Some (t + 1)"
        "g_credits g1 = g_credits g" "g_bet g1 = g_bet g"
      using tick_rolls [OF Cons.prems(1,2), of next32 rng] by blast
    from Cons.IH [OF g1(2,3), of r1] Cons.prems(3) t(2) Tick g1 show ?thesis by (simp add: add.assoc)
  qed
qed simp

section \<open>Properties\<close>

text \<open>A spin runs its course and pays what the reels show. Once started with enough credits, whatever keys are pressed
  in between, it goes on for exactly 26 ticks with stake and credits untouched, and the next tick ends it: the credits are
  then those before the spin, less the bet, plus what the table pays for the three reels.\<close>

theorem spin_runs_its_course:
  assumes "game_ok 1 g" and "\<not> spinning g" and "g_bet g \<le> g_credits g" and "ticks es = 26"
  shows "\<exists>g1 r1 g2 r2. game_run next32 es (start_spin g, rng) = (Ok (), (g1, r1)) \<and> spinning g1 \<and>
    g_credits g1 = g_credits g - g_bet g \<and>
    game_run next32 [Tick] (g1, r1) = (Ok (), (g2, r2)) \<and> \<not> spinning g2 \<and> g_bet g2 = g_bet g \<and>
    unat (g_credits g2) = unat (g_credits g) - unat (g_bet g) + payout (unat (g_bet g)) (g_reels g2)"
proof -
  have s: "g_spin (start_spin g) = Some 0" "g_credits (start_spin g) = g_credits g - g_bet g" "g_bet (start_spin g) = g_bet g"
    using assms(2,3) leD [OF assms(3)] by (simp_all add: start_spin_def)
  obtain g1 r1 where g1: "game_run next32 es (start_spin g, rng) = (Ok (), (g1, r1))" "game_ok 1 g1" "g_spin g1 = Some 26"
      "g_credits g1 = g_credits g - g_bet g" "g_bet g1 = g_bet g"
    using spin_goes_on [OF game_ok_start [OF assms(1)] s(1), of es next32 rng] assms(4) s(2,3) by auto
  then have ok: "game_ok (Suc 0) g1" by simp
  obtain g2 r2 where g2: "tick next32 (g1, r1) = (Ok (), (g2, r2))" "g_spin g2 = None" "g_bet g2 = g_bet g1" "g_reels g2 = g_reels g1"
      "unat (g_credits g2) = unat (g_credits g1) + payout (unat (g_bet g1)) (g_reels g1)"
    using tick_settles [OF ok g1(3), of next32 r1] by blast
  have "unat (g_credits g - g_bet g) = unat (g_credits g) - unat (g_bet g)" using assms(3) by (rule unat_sub)
  then show ?thesis using g1 g2 by (intro exI [of _ g1] exI [of _ r1] exI [of _ g2] exI [of _ r2]) (simp add: spinning_def)
qed

theorem spin_runs_its_course_witness:
  "\<exists>g1 r1 g2 r2. game_run (\<lambda>n. (n, n)) (Press (key_plain KUp) # replicate 26 Tick) (start_spin game_new, 9) = (Ok (), (g1, r1)) \<and>
     game_run (\<lambda>n. (n, n)) [Tick] (g1, r1) = (Ok (), (g2, r2)) \<and> \<not> spinning g2 \<and>
     unat (g_credits g2) = 95 + payout 5 (g_reels g2)"
proof -
  have "ticks (replicate n Tick) = n" for n by (induction n) simp_all
  then have t: "ticks (Press (key_plain KUp) # replicate 26 Tick) = 26" by simp
  have g: "game_ok 1 game_new" "\<not> spinning game_new" "g_bet game_new \<le> g_credits game_new"
    using game_ok_new [of 1] by (simp_all add: game_new_def spinning_def)
  have v: "unat (g_credits game_new) = 100" "unat (g_bet game_new) = 5" by (simp_all add: game_new_def)
  show ?thesis using spin_runs_its_course [OF g t, of "\<lambda>n. (n, n)" 9] unfolding v by auto
qed

text \<open>C37: The program is well behaved on a session of its own length: whatever the terminal sends, however it is resized
  and whatever the random numbers, the handler neither indexes outside its tables nor overflows for \<open>2 ^ 50\<close> turns of its
  loop (millions of years of ticks), and the game stays in its range throughout: a bet from 5 to 100, reels that name symbols and credits without
  wrap-around.\<close>

theorem slots_keep_range:
  assumes "draws_inside R" and "layouts_ok L" and "length turns \<le> 2 ^ 50" and "slots_run R rng answers session = Playing s"
  shows "\<exists>status s'. slots_loop R L next32 closing turns s = (Ok status, s') \<and>
    5 \<le> g_bet (sl_game s') \<and> g_bet (sl_game s') \<le> 100 \<and>
    (case g_reels (sl_game s') of (a, b, c) \<Rightarrow> a < length SYMBOLS \<and> b < length SYMBOLS \<and> c < length SYMBOLS)"
proof -
  have "sl_game s = game_new" using assms(4)
    by (auto simp: slots_run_def session_split_def split: option.splits prod.splits)
  then have "game_ok (length turns) (sl_game s)" using game_ok_new [OF assms(3)] by simp
  from slots_loop_ok [OF assms(1,2) this, of next32 closing] show ?thesis by (auto simp: game_ok_def reel_ok_def)
qed

definition sample_casino :: "(nat, screen_frame) ratatui" where
  "sample_casino = \<lparr>rt_new = (\<lambda>_. Some 0), rt_draw = (\<lambda>f n b. ([ClearScreen, HideCursor], n + length f))\<rparr>"

definition sample_layouts :: layouts where
  "sample_layouts = \<lparr>ly_vertical = (\<lambda>cs area. map (\<lambda>_. area) cs), ly_horizontal = (\<lambda>cs area. map (\<lambda>_. area) cs)\<rparr>"

definition sample_pty :: pty_info where
  "sample_pty = \<lparr>pty_term = str ''xterm'', pty_cols = 80, pty_rows = 24, pty_width_px = 0, pty_height_px = 0, pty_modes = []\<rparr>"

theorem slots_keep_range_witness:
  "\<exists>s status s'. slots_run sample_casino (9 :: u32) [(Granted, True)] (session_new () (Some sample_pty) ()) = Playing s \<and>
     slots_loop sample_casino sample_layouts (\<lambda>n. (n, n)) [] [([(Granted, True)], Input (Some [32])), ([(Granted, True)], SpinTick)] s =
       (Ok status, s') \<and> g_bet (sl_game s') \<le> 100"
proof -
  have R: "draws_inside sample_casino" "layouts_ok sample_layouts"
    by (simp_all add: draws_inside_def sample_casino_def layouts_ok_def sample_layouts_def)
  obtain s where s: "slots_run sample_casino (9 :: u32) [(Granted, True)] (session_new () (Some sample_pty) ()) = Playing s"
    by (simp add: slots_run_def session_new_def session_pty_def session_split_def terminal_new_def sample_casino_def
      write_stdout_def reserve_and_send_def chunks_one ENTER_def str_def MAX_RESERVE_def sample_pty_def)
  then show ?thesis using slots_keep_range [OF R _ s, of "[([(Granted, True)], Input (Some [32])), ([(Granted, True)], SpinTick)]" "\<lambda>n. (n, n)" "[]"]
    by auto
qed

text \<open>Without a terminal the handler prints its hint and does nothing else.\<close>

lemma slots_need_terminal:
  assumes "session_pty session = None"
  shows "slots_run R rng answers session = NoTerminal (snd (write_stderr NO_TERMINAL answers))"
  using assms by (simp add: slots_run_def)

text \<open>A refill asks only whether the bet can be paid, and the bet can be raised at will: with 95 credits in hand, raising it
  to 100 is enough to be given 100.\<close>

lemma refill_without_being_broke:
  assumes "g = game_new\<lparr>g_credits := 95, g_bet := 95\<rparr>"
  shows "g_credits (refill (snd (adjust_bet True g))) = 100"
  using assms by (simp add: game_new_def adjust_bet_def spinning_def checked_add_def refill_def)

end
