(* ===== verification/Dashboard.thy ===== *)
theory Dashboard
  imports Channel_Session Tui_Backend Server
begin

text \<open>
  The example program of the serving crate (\<^verbatim>\<open>crates/ssh-io/examples/tui_demo.rs\<close>): a status panel that draws with escape
  sequences of its own, and \<^verbatim>\<open>write_all\<close> of the runtime over the writer's \<^verbatim>\<open>poll_write\<close>, by which it writes.
\<close>

section \<open>Writing everything\<close>

text \<open>One answer per poll. \<open>None\<close> while a poll is pending, \<open>Some False\<close> on an error.\<close>

fun write_all :: "(acquire \<times> bool) list \<Rightarrow> bytes \<Rightarrow> session_writer \<Rightarrow> (session_writer, bool option \<times> write_act list) outcome" where
  "write_all [] data w = (Ok (if data = [] then Some True else None, []), w)"
| "write_all ((acq, open) # answers) data w =
     (if data = [] then (Ok (Some True, []), w)
      else
        case poll_write acq open data w of
          (Ok (Pending, acts), w) \<Rightarrow> write_all answers data w
        | (Ok (Ready None, acts), w) \<Rightarrow> (Ok (Some False, acts), w)
        | (Ok (Ready (Some n), acts), w) \<Rightarrow>
            if n = 0 then (Ok (Some False, acts), w)
            else andThen (write_all answers (drop n data) w) (\<lambda>(res, acts') w. (Ok (res, acts @ acts'), w))
        | (Err e, w) \<Rightarrow> (Err e, w)
        | (Crash m, w) \<Rightarrow> (Crash m, w))"

section \<open>A frame\<close>

text \<open>The characters of a text: a byte and the continuation bytes behind it.\<close>

function utf8_chars :: "bytes \<Rightarrow> bytes list" where
  "utf8_chars [] = []"
| "utf8_chars (b # bs) = (b # takeWhile utf8_cont bs) # utf8_chars (dropWhile utf8_cont bs)"
  by pat_completeness auto
termination
  by (relation "measure length") (auto simp: less_Suc_eq_le length_dropWhile_le)

definition fitted :: "nat \<Rightarrow> bytes \<Rightarrow> bytes" where
  "fitted n text =
     (let cs = take n (utf8_chars text)
      in concat cs @ replicate (n - length cs) 32)"

definition BAR :: bytes where "BAR = [0xe2, 0x94, 0x82]"

definition dash_line :: "nat \<Rightarrow> nat \<Rightarrow> bytes \<Rightarrow> bytes" where
  "dash_line w row text =
     [27, 91] @ dec row @ str '';1H'' @ BAR @ str '' '' @ [27, 91] @ str ''36m'' @ fitted (w - 4) text @
     [27, 91] @ str ''0m'' @ str '' '' @ BAR"

definition hex_digit :: "nat \<Rightarrow> byte" where
  "hex_digit n = of_nat (if n < 10 then 48 + n else 87 + n)"

definition shown_byte :: "byte \<Rightarrow> bytes" where
  "shown_byte b =
     (if 0x20 \<le> b \<and> b < 0x7f then [b] else [92, 120, hex_digit (unat b div 16), hex_digit (unat b mod 16)])"

definition dash_draw :: "bytes \<Rightarrow> u16 \<times> u16 \<Rightarrow> u64 \<Rightarrow> bytes \<Rightarrow> bytes" where
  "dash_draw term dims ticks last_key =
     (let cols = max (fst dims) 20; rows = max (snd dims) 6;
          w = min (unat cols) 60;
          dashes = concat (replicate (w - 2) [0xe2, 0x94, 0x80]);
          top = [0xe2, 0x94, 0x8c] @ dashes @ [0xe2, 0x94, 0x90];
          bot = [0xe2, 0x94, 0x94] @ dashes @ [0xe2, 0x94, 0x98];
          printable = concat (map shown_byte last_key)
      in [27, 91] @ str ''2J'' @ [27, 91] @ str ''H'' @
         [27, 91] @ str ''1;1H'' @ [27, 91] @ str ''1m'' @ top @ [27, 91] @ str ''0m'' @
         dash_line w 2 (str ''ssh-bench in-process TUI (q quits)'') @
         dash_line w 3 (str ''TERM='' @ term @ str ''  size='' @ dec (unat cols) @ str ''x'' @ dec (unat rows)) @
         dash_line w 4 (str ''uptime: '' @ dec (unat ticks) @ str ''s'') @
         dash_line w 5 (str ''last input: '' @ printable) @
         [27, 91] @ str ''6;1H'' @ [27, 91] @ str ''1m'' @ bot @ [27, 91] @ str ''0m'')"

section \<open>The handler\<close>

record dashboard =
  da_term :: bytes
  da_size :: "u16 \<times> u16"
  da_ticks :: u64
  da_last_key :: bytes
  da_writer :: session_writer
  da_acts :: "write_act list"

datatype dash_event = DashInput "bytes option" | DashResized "(u16 \<times> u16) option" | DashTick

datatype dash_turn = DashAgain | DashBreak | DashWaits

definition dash_select :: "dash_event \<Rightarrow> dashboard \<Rightarrow> (dashboard, dash_turn) outcome" where
  "dash_select e d =
     (case e of
        DashInput None \<Rightarrow> (Ok DashBreak, d)
      | DashInput (Some data) \<Rightarrow>
          if data = [] then (Ok DashBreak, d)
          else (Ok (if 113 \<in> set data \<or> 3 \<in> set data then DashBreak else DashAgain), d\<lparr>da_last_key := data\<rparr>)
      | DashResized None \<Rightarrow> (Ok DashBreak, d)
      | DashResized (Some dims) \<Rightarrow> (Ok DashAgain, d\<lparr>da_size := dims\<rparr>)
      | DashTick \<Rightarrow>
          if da_ticks d = - 1 then (Crash ''attempt to add with overflow'', d)
          else (Ok DashAgain, d\<lparr>da_ticks := da_ticks d + 1\<rparr>))"

definition dash_write :: "bytes \<Rightarrow> (acquire \<times> bool) list \<Rightarrow> dashboard \<Rightarrow> (dashboard, bool option) outcome" where
  "dash_write data answers d =
     (case write_all answers data (da_writer d) of
        (Ok (res, acts), w) \<Rightarrow> (Ok res, d\<lparr>da_writer := w, da_acts := da_acts d @ acts\<rparr>)
      | (Err e, w) \<Rightarrow> (Err e, d\<lparr>da_writer := w\<rparr>)
      | (Crash m, w) \<Rightarrow> (Crash m, d\<lparr>da_writer := w\<rparr>))"

definition DASH_ENTER :: bytes where
  "DASH_ENTER = [27, 91] @ str ''?1049h'' @ [27, 91] @ str ''?25l''"

definition DASH_LEAVE :: bytes where
  "DASH_LEAVE = [27, 91] @ str ''?1049l'' @ [27, 91] @ str ''?25h''"

text \<open>The loop, and behind it the write that restores the screen, whose result does not matter. \<open>None\<close> where the
  turns run out.\<close>

fun dash_loop ::
    "(acquire \<times> bool) list \<Rightarrow> ((acquire \<times> bool) list \<times> dash_event) list \<Rightarrow> dashboard \<Rightarrow> (dashboard, u32 option) outcome" where
  "dash_loop closing [] d = (Ok None, d)"
| "dash_loop closing ((answers, e) # turns) d =
     andThen (dash_write (dash_draw (da_term d) (da_size d) (da_ticks d) (da_last_key d)) answers d) (\<lambda>wrote d.
       andThen (case wrote of
                  None \<Rightarrow> (Ok DashWaits, d)
                | Some False \<Rightarrow> (Ok DashBreak, d)
                | Some True \<Rightarrow> dash_select e d) (\<lambda>t d.
         case t of
           DashAgain \<Rightarrow> dash_loop closing turns d
         | DashWaits \<Rightarrow> (Ok None, d)
         | DashBreak \<Rightarrow> andThen (dash_write DASH_LEAVE closing d) (\<lambda>_ d. (Ok (Some 0), d))))"

definition DASH_NO_TERMINAL :: bytes where
  "DASH_NO_TERMINAL = str ''this app needs a terminal (try: ssh -t ... )'' @ [13, 10]"

text \<open>The start: a status, or the loop with its state; \<open>None\<close> while the first write waits.\<close>

definition dash_run ::
    "(acquire \<times> bool) list \<Rightarrow> ('q, 'w) channel_session \<Rightarrow> (dashboard, u32 + unit option) outcome" where
  "dash_run answers session =
     (let (reader, writer) = session_split session;
          d = \<lparr>da_term = [], da_size = (0, 0), da_ticks = 0, da_last_key = [], da_writer = writer, da_acts = []\<rparr>
      in
      case session_pty session of
        None \<Rightarrow> (Ok (Inl 1), d\<lparr>da_acts := snd (write_stderr DASH_NO_TERMINAL answers)\<rparr>)
      | Some pty \<Rightarrow>
          andThen (dash_write DASH_ENTER answers (d\<lparr>da_term := pty_term pty, da_size := (pty_cols pty, pty_rows pty)\<rparr>)) (\<lambda>wrote d.
            (Ok (case wrote of None \<Rightarrow> Inr None | Some False \<Rightarrow> Inl 1 | Some True \<Rightarrow> Inr (Some ())), d)))"

definition dash_auth :: "unit auth_handler" where
  "dash_auth = default_auth_handler
     \<lparr>h_verify_password := (\<lambda>user password h. (user = str ''demo'' \<and> password = str ''demo'', h)),
      h_is_authorized_key := (\<lambda>_ _ h. (False, h))\<rparr>"

section \<open>Lemmas\<close>

text \<open>What \<^verbatim>\<open>write_all\<close> reports as written was sent whole and in order, and taken from the budget exactly.\<close>

lemma write_all_exact:
  assumes "write_all answers data w = (Ok (Some True, acts), w')" and "\<forall>r. sw_reserving w = Some r \<longrightarrow> \<not> snd r"
  shows "sent acts = data \<and> taken acts = int (length data)"
  using assms
proof (induction answers arbitrary: data w acts)
  case (Cons a answers)
  obtain acq op where a': "a = (acq, op)" by fastforce
  note 2 = Cons.prems [unfolded a']
  show ?case
  proof (cases "data = []")
    case False
    obtain want where r: "(case sw_reserving w of Some r \<Rightarrow> r | None \<Rightarrow> (min (length data) MAX_RESERVE, False)) = (want, False)"
      using 2(2) by (cases "sw_reserving w") auto
    show ?thesis
    proof (cases acq)
      case Granted
      let ?n = "min want (length data)" and ?gave = "if min want (length data) < want then [Gave (want - min want (length data))] else []"
      let ?as = "Took want # ?gave @ [Sent (Stdout (take ?n data))]"
      have op: "op" "?n \<noteq> 0" using 2(1) Granted r False by (auto simp: poll_write_def Let_def split: if_splits)
      then have p: "poll_write acq op data w = (Ok (Ready (Some ?n), ?as), w\<lparr>sw_reserving := None\<rparr>)"
        using Granted r False by (auto simp: poll_write_def Let_def)
      then obtain acts' where a: "write_all answers (drop ?n data) (w\<lparr>sw_reserving := None\<rparr>) = (Ok (Some True, acts'), w')"
          "acts = ?as @ acts'"
        using 2(1) op(2) False
        by (cases "write_all answers (drop ?n data) (w\<lparr>sw_reserving := None\<rparr>)") (auto simp: andThen_def split: result.splits)
      have "sent acts' = drop ?n data \<and> taken acts' = int (length (drop ?n data))"
        using Cons.IH [OF a(1)] by simp
      moreover have "sent ?as = take ?n data" "taken ?as = int ?n" by simp_all
      ultimately have "sent acts = take ?n data @ drop ?n data" "taken acts = int ?n + int (length data - ?n)"
        unfolding a(2) by simp_all
      then show ?thesis by simp
    next
      case NotYet
      then have p: "poll_write acq op data w = (Ok (Pending, []), w\<lparr>sw_reserving := Some (want, False)\<rparr>)"
        using r False by (simp add: poll_write_def)
      show ?thesis using Cons.IH [of data "w\<lparr>sw_reserving := Some (want, False)\<rparr>" acts] 2(1) p False by simp
    next
      case Closed
      then show ?thesis using 2(1) r False by (simp add: poll_write_def)
    qed
  qed (use 2(1) in simp)
qed (simp split: if_splits)

text \<open>A line has room for \<open>n\<close> characters of text and is filled to exactly that many.\<close>

definition char_ok :: "bytes \<Rightarrow> bool" where
  "char_ok c \<longleftrightarrow> c \<noteq> [] \<and> \<not> utf8_cont (hd c) \<and> list_all utf8_cont (tl c)"

definition fresh :: "bytes \<Rightarrow> bool" where
  "fresh t \<longleftrightarrow> t = [] \<or> \<not> utf8_cont (hd t)"

lemma utf8_chars_ok: "fresh t \<Longrightarrow> list_all char_ok (utf8_chars t)"
proof (induction t rule: utf8_chars.induct)
  case (2 b bs)
  have "fresh (dropWhile utf8_cont bs)" using hd_dropWhile [of utf8_cont bs] by (auto simp: fresh_def simp del: dropWhile_eq_Nil_conv)
  then show ?case using 2 by (auto simp: char_ok_def fresh_def list_all_iff dest: set_takeWhileD)
qed simp

lemma utf8_chars_append: "list_all char_ok cs \<Longrightarrow> fresh rest \<Longrightarrow> utf8_chars (concat cs @ rest) = cs @ utf8_chars rest"
proof (induction cs)
  case (Cons c cs)
  then obtain b ds where c: "c = b # ds" "list_all utf8_cont ds" by (cases c) (auto simp: char_ok_def)
  have "fresh (concat cs @ rest)" using Cons.prems by (cases cs) (auto simp: fresh_def char_ok_def)
  then have "takeWhile utf8_cont (ds @ concat cs @ rest) = ds" "dropWhile utf8_cont (ds @ concat cs @ rest) = concat cs @ rest"
    using c(2) by (auto simp: list_all_iff fresh_def takeWhile_append2 dropWhile_append2 takeWhile_eq_Nil_iff dropWhile_eq_self_iff)
  then show ?case using Cons c(1) by simp
qed simp

lemma fitted_exact:
  assumes "fresh text"
  shows "length (utf8_chars (fitted n text)) = n"
proof -
  let ?cs = "take n (utf8_chars text)"
  have ok: "list_all char_ok ?cs" using utf8_chars_ok [OF assms] by (auto simp: list_all_iff dest: in_set_takeD)
  have sp: "list_all char_ok (replicate k [32])" for k by (simp add: list_all_iff char_ok_def utf8_cont_def)
  have cr: "concat (replicate k [32 :: byte]) = replicate k 32" for k by (induction k) simp_all
  have "fresh (replicate k 32)" for k by (cases k) (simp_all add: fresh_def utf8_cont_def)
  then have "utf8_chars (concat ?cs @ replicate k 32) = ?cs @ replicate k [32]" for k
    using utf8_chars_append [OF ok] utf8_chars_append [OF sp [of k], of "[]"] by (simp add: cr fresh_def)
  then show ?thesis by (simp add: fitted_def Let_def)
qed

text \<open>Whatever was typed, what is shown of it is printable ASCII.\<close>

lemma hex_digit_printable: "n < 16 \<Longrightarrow> 0x20 \<le> hex_digit n \<and> hex_digit n < 0x7f"
  by (auto simp: hex_digit_def word_le_nat_alt word_less_nat_alt unat_of_nat)

lemma input_shown_printable: "list_all (\<lambda>b. 0x20 \<le> b \<and> b < 0x7f) (concat (map shown_byte last_key))"
proof (induction last_key)
  case (Cons b bs)
  have "unat b div 16 < 16" "unat b mod 16 < 16" using unsigned_less [of b] by (simp_all add: less_mult_imp_div_less)
  then show ?case using Cons hex_digit_printable by (auto simp: shown_byte_def)
qed simp

text \<open>When the output budget is closed under the program, the write that fails is followed by the one that restores
  the screen, on the same writer: a panic.\<close>

lemma dashboard_panics_on_close:
  assumes "sw_reserving (da_writer d) = None" and "closing \<noteq> []"
  shows "crashed (fst (dash_loop closing (([(Closed, False)], e) # turns) d))"
  using assms by (cases closing) (auto simp: dash_write_def dash_draw_def Let_def poll_write_def DASH_LEAVE_def andThen_def split: prod.splits)

end
