(* ===== verification/Spec2Isabelle.thy ===== *)
theory Spec2Isabelle
  imports Sessions Serve_Budget Server_Program Client_Run Process Slots Dashboard
begin

text \<open>
  \<^bold>\<open>Verification of the SSH implementation.\<close>

  The repository implements SSH in layers. The crate \<^verbatim>\<open>ssh-transport\<close> is the protocol without any I/O: objects that
  take the bytes received (\<^verbatim>\<open>on_input\<close>), queue the bytes to send (\<^verbatim>\<open>take_output\<close>) and report events
  (\<^verbatim>\<open>poll_event\<close>). The crate \<^verbatim>\<open>ssh-io\<close> runs such an object over a socket and decides whom to serve;
  \<^verbatim>\<open>ssh-tui\<close> is a terminal toolkit for command handlers; \<^verbatim>\<open>ssh-client\<close> and \<^verbatim>\<open>ssh-server\<close> are the two
  programs. File names below are those of \<^verbatim>\<open>crates/ssh-transport/src\<close> unless another crate is named.

  \<^bold>\<open>How the code is represented.\<close> A struct is a record with the fields of the source, an enum is a datatype, a
  method is a definition that takes the object last and returns its result together with the object it leaves
  (\<open>outcome\<close>), so the state left behind by an early return is part of the model. Results have three cases
  (\<open>result\<close> in \<open>Ssh_Prelude\<close>): a value, an \<open>ssh_error\<close> with the source's message, and \<open>Crash\<close> for everything that
  would panic in the source (an index or slice out of range, an \<^verbatim>\<open>unwrap\<close> or \<^verbatim>\<open>expect\<close> that fails, a subtraction
  below zero of a \<^verbatim>\<open>usize\<close>) and for a loop that does not return. Fixed-width integers are words, so the wrapping
  and saturating additions of sequence numbers, windows and counters are those of the code. Texts are their bytes.

  \<^bold>\<open>What is a parameter.\<close> The crates the engine calls (random numbers, digests, ChaCha20, Poly1305, AES-GCM,
  X25519, ed25519, ML-KEM, sntrup761, zlib) are the fields of the record \<open>prims\<close> of \<open>Crypto\<close>; what is relied on is
  stated as named predicates there, and \<open>sample_prims\<close> satisfies them all at once, which the witnesses use. The
  application's authentication traits are the records \<open>auth_handler\<close> and \<open>client_handler\<close>; the semaphore of the
  connection limiter is the record \<open>semaphore\<close>, the floating point operations of the rate limiter are
  \<open>float_ops\<close>, the OpenSSH key formats \<open>ssh_key_format\<close>, the terminal crate \<open>ratatui\<close> and \<open>layouts\<close>. What the asynchronous runtime decides (which branch of a \<^verbatim>\<open>select!\<close>
  fires, what a socket, a channel or a semaphore answers) is an argument of the step it decides, so that a
  statement about all arguments is one about all interleavings.

  \<^bold>\<open>The theories.\<close>
  \<^item> \<open>Ssh_Prelude\<close>: words, bytes, results, the combinators that stand for the \<^verbatim>\<open>?\<close> operator and for calls on a
    field, UTF-8, generic lemmas (\<^verbatim>\<open>error.rs\<close>).
  \<^item> \<open>Wire\<close>, \<open>Packet\<close>, \<open>Version\<close>, \<open>Algo\<close>: the codec of \<^verbatim>\<open>wire.rs\<close>, the framing before encryption
    (\<^verbatim>\<open>packet.rs\<close>, \<^verbatim>\<open>msg.rs\<close>), the identification line (\<^verbatim>\<open>version.rs\<close>), negotiation (\<^verbatim>\<open>algo.rs\<close>). They show the round
    trips of every message part, that a decision on a prefix of the input is never revised (locale
    \<open>frame_parser\<close>), and that negotiation picks the client's first common name.
  \<^item> \<open>Crypto\<close>, \<open>Kdf\<close>, \<open>Hostkey\<close>, \<open>Kex\<close>, \<open>Cipher\<close>, \<open>Compress\<close>: the parameters and the code that uses them
    (\<^verbatim>\<open>kdf.rs\<close>, \<^verbatim>\<open>hostkey.rs\<close>, \<^verbatim>\<open>kex.rs\<close>, \<^verbatim>\<open>mlkem.rs\<close>, \<^verbatim>\<open>sntrup.rs\<close>, \<^verbatim>\<open>cipher.rs\<close>, \<^verbatim>\<open>compress.rs\<close>). They show that the
    exchange hash binds every component, that derivation yields the key stream of RFC 4253, that the three key
    exchanges agree (locale \<open>kex_method\<close>), that opening undoes sealing, that nonces do not repeat, and that the
    two zlib loops return, decompression within its cap.
  \<^item> \<open>Auth\<close>, \<open>Connection\<close>: the messages of user authentication (\<^verbatim>\<open>auth.rs\<close>) and a session channel with its flow
    control (\<^verbatim>\<open>connection.rs\<close>). The drain loop refines a specification that cuts a byte stream at the window.
  \<^item> \<open>Transport\<close> with the definitions of \<^verbatim>\<open>transport.rs\<close>, and the theories above it. \<open>Transport_Drive\<close>: the input
    loop ends, and the locale from which every invariant of the state machine follows by checking a few updates;
    \<open>Transport_Safety\<close>: the invariant \<open>t_wf\<close> and the absence of panics; \<open>Transport_Security\<close>: sealed output from
    NEWKEYS on, a fixed session id, silence after a disconnect, the packet budget of a key, strict KEX, the
    limit on re-keys; \<open>Transport_Kex\<close>: two paired transports agree on id and keys; \<open>Transport_Stream\<close>: packets sent
    are packets reported, in order, however the bytes are cut.
  \<^item> \<open>Session_Base\<close>, \<open>Server\<close>, \<open>Server_Safety\<close>, \<open>Server_Auth\<close>, \<open>Client\<close>, \<open>Client_Safety\<close>: the two sessions
    (\<^verbatim>\<open>server.rs\<close>, \<^verbatim>\<open>client.rs\<close>), each a state over its transport, with the relations \<open>server_reachable\<close> and
    \<open>client_reachable\<close> of all states a driver can bring them to. They show that no call and no input panics, that
    nothing of the connection protocol happens before authentication, that a granted login was vouched for and
    its signature verified over this session, that the caps on attempts hold, and that a client that rejected
    the host key falls silent.
  \<^item> \<open>Sessions\<close>: client and server together: a public-key login is decided by the key alone, a command and its
    reply travel, output arrives in order within the window, data beyond it closes the connection.
  \<^item> \<open>Admission\<close>: the connection limiter and the ban table of \<^verbatim>\<open>ssh-io\<close> (\<^verbatim>\<open>limits.rs\<close>, \<^verbatim>\<open>policy.rs\<close>): caps are exact, a
    ban is decided by an address's own recent history.
  \<^item> \<open>Rust_Str\<close>, \<open>Exec\<close>: texts, and the command handlers' side of a channel (\<^verbatim>\<open>exec.rs\<close>, \<^verbatim>\<open>system.rs\<close> of \<^verbatim>\<open>ssh-io\<close>): routing of
    requests, reads that count what they deliver, writes that take from the budget what they send.
    \<open>Channel_Session\<close>: the session a handler is given. \<open>Process\<close>: a command run as a process, its three pumps
    as steps in any order: all output is delivered before the status, and a handler does not outlive its channel.
  \<^item> \<open>Serve\<close>: the serving loop (\<^verbatim>\<open>serve.rs\<close>) over the driver (\<^verbatim>\<open>lib.rs\<close>), one function per turn, \<open>serve_with\<close> for a list of
    turns. What it does besides calling the session is its log. \<open>Serve_Safety\<close>: the locales \<open>serving_keeps\<close> and
    \<open>serving_loop\<close>, from which an invariant of the loop follows by checking its steps, interpreted three times:
    no panic and handlers only as registered and for who is logged in; guards for every handler, so none outlives
    the connection; and, in \<open>Serve_Budget\<close>, the books of the output budget, for the loop and its handler together.
  \<^item> \<open>Listener\<close>: the gates of \<^verbatim>\<open>serve_listener\<close> and what they bound.
  \<^item> \<open>Keystore\<close>: \<^verbatim>\<open>authorized_keys\<close>, \<^verbatim>\<open>known_hosts\<close> and the host key file (\<^verbatim>\<open>keystore.rs\<close>): a recorded key is trusted for its
    hosts only, and a server keeps its key.
  \<^item> \<open>Server_Program\<close>, \<open>Client_Program\<close>: how the two programs put the library together: a restricted server runs nothing
    but its in-process command; the client's password goes to the recorded host only.
    \<open>Client_Run\<close>: the client program from login to exit code, on the driver's \<^verbatim>\<open>next_event\<close>: it prints the remote
    output, all of it and nothing else, and its code is what the session's events say.
  \<^item> \<open>Tui_Input\<close>: the key decoder of \<^verbatim>\<open>ssh-tui\<close> (\<^verbatim>\<open>input.rs\<close>): it does not depend on how the bytes were cut, and
    decodes what a terminal sends.
  \<^item> \<open>Tui_Backend\<close>: the terminal backend (\<^verbatim>\<open>backend.rs\<close>), and an abstract terminal that interprets its bytes: leaving out
    redundant cursor moves and style changes does not change the screen. \<open>Tui_Terminal\<close>: the terminal on a channel
    (\<^verbatim>\<open>terminal.rs\<close>): the client's screen follows the frames that are drawn.
  \<^item> \<open>Slots\<close>, \<open>Dashboard\<close>: the two example programs (\<^verbatim>\<open>examples/slots.rs\<close> of \<^verbatim>\<open>ssh-tui\<close>, \<^verbatim>\<open>examples/tui_demo.rs\<close> of \<^verbatim>\<open>ssh-io\<close>): the
    game keeps its range, a spin ends and pays by the table; a line of the panel is filled exactly and shows typed
    input as printable text.

  \<^bold>\<open>Bounds.\<close> No loop has fuel: the loops over packets, events, queued output, messages and key input are total
  functions with a termination proof; the two zlib loops and the receive loop of a handler's stdin are partial
  functions whose return is a theorem. The serving loop, the loop of the client program, a process and the example
  handlers run for as many turns as they are given.
  \<open>payload_max\<close>, $2^{32} + 2^{20}$ bytes, is above every payload the engine itself builds, and a \<^verbatim>\<open>usize\<close> is far from
  overflowing there; the sessions' absence of panics is shown for handlers whose texts (user, banner, password,
  command, terminal name) have at most $2^{20}$ bytes.

  \<^bold>\<open>Not modelled.\<close> Diagnostics, zeroizing of secrets and buffer capacities have no result. Fingerprints and the text of a
  key are the \<^verbatim>\<open>ssh-key\<close> crate's. Timers fire when the runtime says so: how long they are is not represented, only when they
  are armed. The \<^verbatim>\<open>ratatui\<close> crate decides which calls draw a frame and how an area is divided; both are parameters. Of the
  programs, the parsing of arguments, the thread that reads standard input and the in-process command \<^verbatim>\<open>cat\<close>, which is one call of the
  runtime's copy, are left out, as are the accept loops of the examples, benchmarks and fuzz targets.
\<close>

end
